(* ===== verification/Prelude.thy ===== *)
theory Prelude
  imports Main "HOL-Library.Word"
begin

text \<open>
  Shared vocabulary of the development: the Rust machine integers and durations, results with an
  explicit panic outcome, checked and saturating \<open>usize\<close> arithmetic, big-endian codecs, the
  order-preserving \<open>push if not contained\<close> idiom of the sources, and the ASCII string primitives
  (\<open>trim\<close>, \<open>find\<close>, \<open>rfind\<close>, \<open>split\<close>, integer \<open>parse\<close>) that several components use.
\<close>

unbundle bit_operations_syntax

named_theorems no_panic \<open>facts that an operation never reaches a Rust panic\<close>
named_theorems config_simps \<open>defining equations of configuration defaults\<close>
named_theorems bytes_simps \<open>byte codecs and lengths\<close>

section \<open>Machine integers, time\<close>

type_synonym u8 = "8 word"
type_synonym u16 = "16 word"
type_synonym u32 = "32 word"
type_synonym u64 = "64 word"
type_synonym bytes = "u8 list"

text \<open>
  \<open>Duration\<close> and \<open>Instant\<close> are counted in nanoseconds; \<open>usize\<close> values are naturals, with the
  64-bit limit written out in the checked and saturating operations.
\<close>

type_synonym duration = nat
type_synonym instant = nat

definition from_millis :: "nat \<Rightarrow> duration" where
  "from_millis n = n * 1000000"

definition from_secs :: "nat \<Rightarrow> duration" where
  "from_secs n = n * 1000000000"

definition as_millis :: "duration \<Rightarrow> nat" where
  "as_millis d = d div 1000000"

lemma as_millis_from_millis [simp]: "as_millis (from_millis n) = n"
  by (simp add: as_millis_def from_millis_def)

lemma from_secs_le_iff [simp]: "from_secs a \<le> from_secs b \<longleftrightarrow> a \<le> b"
  by (simp add: from_secs_def)

lemma from_secs_less_iff [simp]: "from_secs a < from_secs b \<longleftrightarrow> a < b"
  by (simp add: from_secs_def)

definition usize_max :: nat where
  "usize_max = 2 ^ 64 - 1"

definition saturating_add :: "nat \<Rightarrow> nat \<Rightarrow> nat" where
  "saturating_add a b = min (a + b) usize_max"

definition saturating_mul :: "nat \<Rightarrow> nat \<Rightarrow> nat" where
  "saturating_mul a b = min (a * b) usize_max"

definition checked_add :: "nat \<Rightarrow> nat \<Rightarrow> nat option" where
  "checked_add a b = (if a + b \<le> usize_max then Some (a + b) else None)"

lemma checked_add_Some [simp]: "checked_add a b = Some c \<longleftrightarrow> c = a + b \<and> a + b \<le> usize_max"
  by (auto simp: checked_add_def)

lemma saturating_add_exact: "a + b \<le> usize_max \<Longrightarrow> saturating_add a b = a + b"
  by (simp add: saturating_add_def)

lemma saturating_mul_exact: "a * b \<le> usize_max \<Longrightarrow> saturating_mul a b = a * b"
  by (simp add: saturating_mul_def)

lemma saturating_add_le: "saturating_add a b \<le> n \<Longrightarrow> n < usize_max \<Longrightarrow> a + b \<le> n"
  by (auto simp: saturating_add_def min_def split: if_splits)

lemma saturating_mul_le: "saturating_mul a b \<le> n \<Longrightarrow> n < usize_max \<Longrightarrow> a * b \<le> n"
  by (auto simp: saturating_mul_def min_def split: if_splits)

text \<open>Saturating successor of an 8-bit counter (\<open>u8::saturating_add(1)\<close>).\<close>

definition u8_saturating_inc :: "u8 \<Rightarrow> u8" where
  "u8_saturating_inc n = (if n = 255 then 255 else n + 1)"

lemma unat_lt_256: "unat (b :: u8) < 256"
  using unsigned_less [of b] by simp

lemma unat_lt_65536: "unat (w :: u16) < 65536"
  using unsigned_less [of w] by simp

lemma unat_u8_saturating_inc: "unat (u8_saturating_inc n) = min (unat n + 1) 255"
proof (cases "n = 255")
  case False
  then have "unat n \<noteq> 255" by (auto simp: word_unat_eq_iff)
  then show ?thesis
    using unat_lt_256 [of n] False
    by (simp add: u8_saturating_inc_def unat_word_ariths)
qed (simp add: u8_saturating_inc_def)

section \<open>Results with an explicit panic\<close>

text \<open>
  A fallible Rust computation returns \<open>Ok\<close>, returns \<open>Err\<close>, or panics (an index or slice out of
  range, an \<open>expect\<close> on \<open>None\<close>). Every indexing of the sources goes through \<open>idx\<close> or \<open>slice\<close>
  below, so the absence of panics is a theorem about a function and not an artefact of HOL's total
  indexing.
\<close>

datatype ('a, 'e) result = Ok 'a | Err 'e | Panic

fun and_then :: "('a, 'e) result \<Rightarrow> ('a \<Rightarrow> ('b, 'e) result) \<Rightarrow> ('b, 'e) result" where
  "and_then (Ok x) f = f x"
| "and_then (Err e) f = Err e"
| "and_then Panic f = Panic"

fun map_res :: "('a \<Rightarrow> 'b) \<Rightarrow> ('a, 'e) result \<Rightarrow> ('b, 'e) result" where
  "map_res f (Ok x) = Ok (f x)"
| "map_res f (Err e) = Err e"
| "map_res f Panic = Panic"

fun ok :: "('a, 'e) result \<Rightarrow> 'a option" where
  "ok (Ok x) = Some x"
| "ok (Err e) = None"
| "ok Panic = None"

definition ok_or :: "'a option \<Rightarrow> 'e \<Rightarrow> ('a, 'e) result" where
  "ok_or o' e = (case o' of Some x \<Rightarrow> Ok x | None \<Rightarrow> Err e)"

lemma and_then_Ok [simp]: "and_then r f = Ok y \<longleftrightarrow> (\<exists>x. r = Ok x \<and> f x = Ok y)"
  by (cases r) auto

lemma and_then_Err: "and_then r f = Err e \<longleftrightarrow> r = Err e \<or> (\<exists>x. r = Ok x \<and> f x = Err e)"
  by (cases r) auto

lemma and_then_Panic [simp]: "and_then r f = Panic \<longleftrightarrow> r = Panic \<or> (\<exists>x. r = Ok x \<and> f x = Panic)"
  by (cases r) auto

lemma map_res_simps [simp]:
  "map_res f r = Ok y \<longleftrightarrow> (\<exists>x. r = Ok x \<and> y = f x)"
  "map_res f r = Err e \<longleftrightarrow> r = Err e"
  "map_res f r = Panic \<longleftrightarrow> r = Panic"
  by (cases r; auto)+

lemma ok_or_simps [simp]:
  "ok_or o' e = Ok y \<longleftrightarrow> o' = Some y"
  "ok_or o' e = Err e' \<longleftrightarrow> o' = None \<and> e' = e"
  "ok_or o' e \<noteq> Panic"
  by (auto simp: ok_or_def split: option.splits)

lemma ok_eq_Some [simp]: "ok r = Some x \<longleftrightarrow> r = Ok x"
  by (cases r) auto

definition idx :: "'a list \<Rightarrow> nat \<Rightarrow> ('a, 'e) result" where
  "idx xs i = (if i < length xs then Ok (xs ! i) else Panic)"

definition slice :: "'a list \<Rightarrow> nat \<Rightarrow> nat \<Rightarrow> ('a list, 'e) result" where
  "slice xs a b = (if a \<le> b \<and> b \<le> length xs then Ok (take (b - a) (drop a xs)) else Panic)"

lemma idx_Ok [simp]: "i < length xs \<Longrightarrow> idx xs i = Ok (xs ! i)"
  by (simp add: idx_def)

lemma slice_Ok [simp]:
  "a \<le> b \<Longrightarrow> b \<le> length xs \<Longrightarrow> slice xs a b = Ok (take (b - a) (drop a xs))"
  by (simp add: slice_def)

lemma idx_Panic [simp]: "idx xs i = Panic \<longleftrightarrow> length xs \<le> i"
  by (auto simp: idx_def)

lemma slice_Panic [simp]: "slice xs a b = Panic \<longleftrightarrow> \<not> (a \<le> b \<and> b \<le> length xs)"
  by (simp add: slice_def)

section \<open>Big-endian 16-bit codec\<close>

definition be16 :: "u8 \<Rightarrow> u8 \<Rightarrow> u16" where
  "be16 hi lo = word_of_nat (unat hi * 256 + unat lo)"

definition to_be16 :: "u16 \<Rightarrow> bytes" where
  "to_be16 w = [word_of_nat (unat w div 256), word_of_nat (unat w mod 256)]"

lemma length_to_be16 [simp, bytes_simps]: "length (to_be16 w) = 2"
  by (simp add: to_be16_def)

lemma unat_be16 [bytes_simps]: "unat (be16 hi lo) = unat hi * 256 + unat lo"
proof -
  have "unat hi * 256 + unat lo < 65536"
    using unat_lt_256 [of hi] unat_lt_256 [of lo] by simp
  then show ?thesis unfolding be16_def unat_of_nat by simp
qed

lemma to_be16_nth [simp]:
  "to_be16 w ! 0 = word_of_nat (unat w div 256)"
  "to_be16 w ! Suc 0 = word_of_nat (unat w mod 256)"
  by (simp_all add: to_be16_def)

lemma be16_to_be16 [simp, bytes_simps]:
  "be16 (word_of_nat (unat w div 256)) (word_of_nat (unat w mod 256)) = w"
proof -
  have "unat w div 256 < 256" using unat_lt_65536 [of w] by simp
  then have "unat (be16 (word_of_nat (unat w div 256)) (word_of_nat (unat w mod 256))) = unat w"
    unfolding unat_be16 unat_of_nat by simp
  then show ?thesis by (simp add: word_unat_eq_iff)
qed

lemma to_be16_be16 [simp, bytes_simps]: "to_be16 (be16 hi lo) = [hi, lo]"
  using unat_lt_256 [of hi] unat_lt_256 [of lo] by (simp add: to_be16_def unat_be16)

section \<open>Order-preserving insertion without duplicates\<close>

text \<open>\<open>if !v.contains(&x) { v.push(x) }\<close>, and the loop that does it for every element.\<close>

definition push_unique :: "'a list \<Rightarrow> 'a \<Rightarrow> 'a list" where
  "push_unique xs x = (if x \<in> set xs then xs else xs @ [x])"

definition push_all_unique :: "'a list \<Rightarrow> 'a list \<Rightarrow> 'a list" where
  "push_all_unique = foldl push_unique"

lemma set_push_unique [simp]: "set (push_unique xs x) = insert x (set xs)"
  by (auto simp: push_unique_def)

lemma distinct_push_unique [simp]: "distinct xs \<Longrightarrow> distinct (push_unique xs x)"
  by (auto simp: push_unique_def)

lemma push_unique_neq_Nil [simp]: "push_unique xs x \<noteq> []"
  by (auto simp: push_unique_def)

lemma hd_push_unique [simp]: "xs \<noteq> [] \<Longrightarrow> hd (push_unique xs x) = hd xs"
  by (auto simp: push_unique_def)

lemma push_all_unique_simps [simp]:
  "push_all_unique xs [] = xs"
  "push_all_unique xs (y # ys) = push_all_unique (push_unique xs y) ys"
  by (simp_all add: push_all_unique_def)

lemma push_all_unique_append:
  "push_all_unique xs (ys @ zs) = push_all_unique (push_all_unique xs ys) zs"
  by (simp add: push_all_unique_def)

lemma set_push_all_unique [simp]: "set (push_all_unique xs ys) = set xs \<union> set ys"
  by (induction ys arbitrary: xs) auto

lemma distinct_push_all_unique [simp]: "distinct xs \<Longrightarrow> distinct (push_all_unique xs ys)"
  by (induction ys arbitrary: xs) auto

lemma push_all_unique_prefix: "\<exists>zs. push_all_unique xs ys = xs @ zs"
proof (induction ys arbitrary: xs)
  case (Cons y ys)
  obtain zs where "push_all_unique (push_unique xs y) ys = push_unique xs y @ zs"
    using Cons.IH by blast
  then show ?case by (auto simp: push_unique_def)
qed simp

lemma hd_push_all_unique: "xs \<noteq> [] \<Longrightarrow> hd (push_all_unique xs ys) = hd xs"
  using push_all_unique_prefix [of xs ys] by auto

lemma length_push_all_unique: "length (push_all_unique xs ys) \<le> length xs + length ys"
proof (induction ys arbitrary: xs)
  case (Cons y ys)
  have "length (push_unique xs y) \<le> Suc (length xs)" by (simp add: push_unique_def)
  with Cons.IH [of "push_unique xs y"] show ?case by simp
qed simp

lemma push_all_unique_distinct:
  "distinct (xs @ ys) \<Longrightarrow> push_all_unique xs ys = xs @ ys"
  by (induction ys arbitrary: xs) (auto simp: push_unique_def)

end
