(* ===== verification/Rust_Str.thy ===== *)
theory Rust_Str
  imports Prelude
begin

text \<open>
  The parts of \<open>str\<close> and of integer formatting and parsing that the sources use. Strings are byte
  strings; every pattern the sources search for is ASCII, so byte positions and character
  boundaries agree. \<open>trim\<close> removes the ASCII members of \<open>char::is_whitespace\<close>.
\<close>

section \<open>Searching\<close>

definition starts_with :: "'a list \<Rightarrow> 'a list \<Rightarrow> bool" where
  "starts_with s p \<longleftrightarrow> take (length p) s = p"

definition strip_prefix :: "'a list \<Rightarrow> 'a list \<Rightarrow> 'a list option" where
  "strip_prefix s p = (if starts_with s p then Some (drop (length p) s) else None)"

definition strip_suffix :: "'a list \<Rightarrow> 'a list \<Rightarrow> 'a list option" where
  "strip_suffix s p =
     (if length p \<le> length s \<and> drop (length s - length p) s = p
      then Some (take (length s - length p) s) else None)"

fun str_find :: "'a list \<Rightarrow> 'a list \<Rightarrow> nat option" where
  "str_find [] p = (if p = [] then Some 0 else None)"
| "str_find (c # cs) p =
     (if starts_with (c # cs) p then Some 0 else map_option Suc (str_find cs p))"

fun str_rfind :: "'a list \<Rightarrow> 'a list \<Rightarrow> nat option" where
  "str_rfind [] p = (if p = [] then Some 0 else None)"
| "str_rfind (c # cs) p =
     (case str_rfind cs p of
        Some i \<Rightarrow> Some (Suc i)
      | None \<Rightarrow> if starts_with (c # cs) p then Some 0 else None)"

definition str_contains :: "'a list \<Rightarrow> 'a list \<Rightarrow> bool" where
  "str_contains s p \<longleftrightarrow> str_find s p \<noteq> None"

lemma starts_with_append [simp]: "starts_with (p @ s) p"
  by (simp add: starts_with_def)

lemma starts_with_iff: "starts_with s p \<longleftrightarrow> (\<exists>r. s = p @ r)"
  by (metis append_take_drop_id starts_with_append starts_with_def)

lemma strip_prefix_Some [simp]: "strip_prefix s p = Some r \<longleftrightarrow> s = p @ r"
  by (auto simp: strip_prefix_def starts_with_iff)

lemma str_find_Some:
  "str_find s p = Some i \<Longrightarrow> \<exists>r. s = take i s @ p @ r \<and> i \<le> length s"
proof (induction s p arbitrary: i rule: str_find.induct)
  case (2 c cs p)
  then show ?case by (fastforce simp: starts_with_iff split: if_splits)
qed (auto split: if_splits)

lemma str_find_None: "str_find s p = None \<longleftrightarrow> (\<nexists>a r. s = a @ p @ r)"
proof (induction s p rule: str_find.induct)
  case (2 c cs p)
  have "(\<exists>a r. c # cs = a @ p @ r) \<longleftrightarrow> starts_with (c # cs) p \<or> (\<exists>a r. cs = a @ p @ r)"
    by (simp add: starts_with_iff) (metis append_Cons append_Nil neq_Nil_conv list.inject)
  with 2 show ?case by auto
qed auto

lemma str_contains_iff: "str_contains s p \<longleftrightarrow> (\<exists>a r. s = a @ p @ r)"
  by (simp add: str_contains_def str_find_None)

lemma str_rfind_None: "str_rfind s p = None \<longleftrightarrow> (\<nexists>a r. s = a @ p @ r)"
proof (induction s p rule: str_rfind.induct)
  case (2 c cs p)
  have "(\<exists>a r. c # cs = a @ p @ r) \<longleftrightarrow> starts_with (c # cs) p \<or> (\<exists>a r. cs = a @ p @ r)"
    by (simp add: starts_with_iff) (metis append_Cons append_Nil neq_Nil_conv list.inject)
  with 2 show ?case by (auto split: option.splits)
qed auto

lemma str_rfind_last:
  assumes "p \<noteq> []" and "\<nexists>x y. tl p @ r = x @ p @ y"
  shows "str_rfind (a @ p @ r) p = Some (length a)"
proof (induction a)
  case Nil
  obtain c ps where p: "p = c # ps" using assms(1) by (cases p) auto
  have "str_rfind (ps @ r) p = None" using assms(2) p by (simp add: str_rfind_None)
  moreover have "starts_with (c # ps @ r) p" using p starts_with_append [of p r] by simp
  ultimately show ?case using p by simp
qed simp

section \<open>Trimming and splitting\<close>

definition is_ws :: "char \<Rightarrow> bool" where
  "is_ws c \<longleftrightarrow> (let n = (of_char c :: nat) in (9 \<le> n \<and> n \<le> 13) \<or> n = 32)"

definition trim_start :: "string \<Rightarrow> string" where
  "trim_start s = dropWhile is_ws s"

definition trim_end :: "string \<Rightarrow> string" where
  "trim_end s = rev (dropWhile is_ws (rev s))"

definition trim :: "string \<Rightarrow> string" where
  "trim s = trim_end (trim_start s)"

lemma trim_end_id: "s \<noteq> [] \<Longrightarrow> \<not> is_ws (last s) \<Longrightarrow> trim_end s = s"
  by (cases s rule: rev_cases) (auto simp: trim_end_def)

lemma trim_id: "s \<noteq> [] \<Longrightarrow> \<not> is_ws (hd s) \<Longrightarrow> \<not> is_ws (last s) \<Longrightarrow> trim s = s"
  by (cases s) (auto simp: trim_def trim_start_def intro: trim_end_id)

lemma trim_Cons_ws [simp]: "is_ws c \<Longrightarrow> trim (c # s) = trim s"
  by (simp add: trim_def trim_start_def)

lemma strip_suffix_shorter: "strip_suffix s p = Some s' \<Longrightarrow> p \<noteq> [] \<Longrightarrow> length s' < length s"
  by (cases p) (auto simp: strip_suffix_def split: if_splits)

function trim_end_matches :: "'a list \<Rightarrow> 'a list \<Rightarrow> 'a list" where
  "trim_end_matches s p =
     (if p = [] then s
      else case strip_suffix s p of None \<Rightarrow> s | Some s' \<Rightarrow> trim_end_matches s' p)"
  by pat_completeness auto
termination
  by (relation "measure (\<lambda>(s, p). length s)") (auto dest: strip_suffix_shorter)

declare trim_end_matches.simps [simp del]

fun split_on :: "'a \<Rightarrow> 'a list \<Rightarrow> 'a list list" where
  "split_on d [] = [[]]"
| "split_on d (c # cs) =
     (if c = d then [] # split_on d cs
      else case split_on d cs of [] \<Rightarrow> [[c]] | w # ws \<Rightarrow> (c # w) # ws)"

fun join :: "'a list \<Rightarrow> 'a list list \<Rightarrow> 'a list" where
  "join sep [] = []"
| "join sep [w] = w"
| "join sep (w # ws) = w @ sep @ join sep ws"

lemma split_on_neq_Nil [simp]: "split_on d s \<noteq> []"
  by (induction s) (auto split: list.splits)

lemma join_split_on [simp]: "join [d] (split_on d s) = s"
proof (induction s)
  case (Cons c s)
  obtain w ws where ws: "split_on d s = w # ws"
    using split_on_neq_Nil [of d s] by (cases "split_on d s") auto
  with Cons show ?case by (cases ws) auto
qed simp

lemma split_on_no_delim: "w \<in> set (split_on d s) \<Longrightarrow> d \<notin> set w"
proof (induction s arbitrary: w)
  case (Cons c s)
  obtain v vs where "split_on d s = v # vs"
    using split_on_neq_Nil [of d s] by (cases "split_on d s") auto
  with Cons show ?case by (auto split: if_splits)
qed simp

lemma split_on_single [simp]: "d \<notin> set w \<Longrightarrow> split_on d w = [w]"
  by (induction w) auto

lemma split_on_append: "d \<notin> set w \<Longrightarrow> split_on d (w @ d # s) = w # split_on d s"
  by (induction w) auto

lemma split_on_join:
  assumes "ws \<noteq> []" and "\<And>w. w \<in> set ws \<Longrightarrow> d \<notin> set w"
  shows "split_on d (join [d] ws) = ws"
  using assms
proof (induction "[d]" ws rule: join.induct)
  case (3 w v vs)
  then show ?case by (simp add: split_on_append)
qed auto

lemma set_split_on: "w \<in> set (split_on d s) \<Longrightarrow> set w \<subseteq> set s"
proof (induction s arbitrary: w)
  case (Cons c s)
  obtain v vs where "split_on d s = v # vs"
    using split_on_neq_Nil [of d s] by (cases "split_on d s") auto
  with Cons show ?case by (fastforce split: if_splits)
qed simp

text \<open>\<open>rsplit_once\<close>: the two sides of the last delimiter.\<close>

definition rsplit_once :: "'a \<Rightarrow> 'a list \<Rightarrow> ('a list \<times> 'a list) option" where
  "rsplit_once d s =
     (if d \<in> set s
      then Some (rev (tl (dropWhile (\<lambda>c. c \<noteq> d) (rev s))), rev (takeWhile (\<lambda>c. c \<noteq> d) (rev s)))
      else None)"

lemma rsplit_once_append: "d \<notin> set b \<Longrightarrow> rsplit_once d (a @ d # b) = Some (a, b)"
  by (auto simp: rsplit_once_def dropWhile_append takeWhile_append)

lemma rsplit_once_Some: "rsplit_once d s = Some (a, b) \<Longrightarrow> s = a @ d # b \<and> d \<notin> set b"
proof -
  assume r: "rsplit_once d s = Some (a, b)"
  then have "d \<in> set s" by (simp add: rsplit_once_def split: if_splits)
  then obtain x y where "s = x @ d # y" "d \<notin> set y" by (metis split_list_last)
  with r show ?thesis by (simp add: rsplit_once_append)
qed

text \<open>\<open>lines\<close>: split at newlines, drop a final empty piece and a trailing carriage return.\<close>

definition strip_cr :: "string \<Rightarrow> string" where
  "strip_cr s = (case strip_suffix s [CHR 0x0D] of Some s' \<Rightarrow> s' | None \<Rightarrow> s)"

definition str_lines :: "string \<Rightarrow> string list" where
  "str_lines s =
     (let ps = split_on (CHR 0x0A) s
      in map strip_cr (if last ps = [] then butlast ps else ps))"

definition to_ascii_lowercase :: "string \<Rightarrow> string" where
  "to_ascii_lowercase s =
     map (\<lambda>c. let n = (of_char c :: nat) in if 65 \<le> n \<and> n \<le> 90 then char_of (n + 32) else c) s"

lemma to_ascii_lowercase_idem [simp]:
  "to_ascii_lowercase (to_ascii_lowercase s) = to_ascii_lowercase s"
  by (auto simp: to_ascii_lowercase_def Let_def)

section \<open>Decimal numbers\<close>

definition is_digit :: "char \<Rightarrow> bool" where
  "is_digit c \<longleftrightarrow> (let n = (of_char c :: nat) in 48 \<le> n \<and> n \<le> 57)"

fun parse_digits :: "nat \<Rightarrow> string \<Rightarrow> nat option" where
  "parse_digits acc [] = Some acc"
| "parse_digits acc (c # cs) =
     (if is_digit c then parse_digits (acc * 10 + (of_char c - 48)) cs else None)"

definition parse_unsigned :: "nat \<Rightarrow> string \<Rightarrow> nat option" where
  "parse_unsigned mx s =
     (let ds = (case s of [] \<Rightarrow> [] | c # cs \<Rightarrow> if c = CHR ''+'' then cs else s)
      in if ds = [] then None
         else case parse_digits 0 ds of
             None \<Rightarrow> None
           | Some n \<Rightarrow> if n \<le> mx then Some n else None)"

definition parse_i32 :: "string \<Rightarrow> int option" where
  "parse_i32 s =
     (case s of
        [] \<Rightarrow> None
      | c # cs \<Rightarrow>
          if c = CHR ''-'' then
            (if cs = [] then None
             else case parse_digits 0 cs of
                 None \<Rightarrow> None
               | Some n \<Rightarrow> if n \<le> 2 ^ 31 then Some (- int n) else None)
          else map_option int (parse_unsigned (2 ^ 31 - 1) s))"

fun show_nat :: "nat \<Rightarrow> string" where
  "show_nat n =
     (if n < 10 then [char_of (48 + n)] else show_nat (n div 10) @ [char_of (48 + n mod 10)])"

declare show_nat.simps [simp del]

lemma parse_digits_append:
  "parse_digits acc (s @ t) = (case parse_digits acc s of None \<Rightarrow> None | Some n \<Rightarrow> parse_digits n t)"
  by (induction acc s rule: parse_digits.induct) auto

lemma of_char_digit [simp]: "n < 10 \<Longrightarrow> of_char (char_of (48 + n :: nat) :: char) = 48 + n"
  by (simp add: of_char_of)

lemma is_digit_digit [simp]: "n < 10 \<Longrightarrow> is_digit (char_of (48 + n :: nat))"
  by (simp add: is_digit_def)

lemma show_nat_neq_Nil [simp]: "show_nat n \<noteq> []"
  by (subst show_nat.simps) simp

lemma show_nat_digits: "c \<in> set (show_nat n) \<Longrightarrow> is_digit c"
proof (induction n rule: show_nat.induct)
  case (1 n)
  then show ?case by (cases "n < 10") (auto simp: show_nat.simps [of n])
qed

lemma parse_digits_show_nat: "parse_digits 0 (show_nat n) = Some n"
proof (induction n rule: show_nat.induct)
  case (1 n)
  show ?case
  proof (cases "n < 10")
    case True
    then show ?thesis by (simp add: show_nat.simps [of n])
  next
    case False
    with "1.IH" have ih: "parse_digits 0 (show_nat (n div 10)) = Some (n div 10)" by simp
    have "parse_digits 0 (show_nat n) = parse_digits (n div 10) [char_of (48 + n mod 10)]"
      using False by (simp add: show_nat.simps [of n] parse_digits_append ih del: parse_digits.simps)
    also have "\<dots> = Some n" by simp
    finally show ?thesis .
  qed
qed

lemma hd_show_nat: "is_digit (hd (show_nat n))"
  using show_nat_digits [of "hd (show_nat n)" n] by simp

lemma not_digit [simp]: "\<not> is_digit (CHR ''+'')" "\<not> is_digit (CHR ''-'')" "\<not> is_digit (CHR '')'')"
  "\<not> is_digit (CHR '' '')" "\<not> is_digit (CHR '':'')" "\<not> is_digit (CHR 0x0A)" "\<not> is_digit (CHR ''('')"
  by (simp_all add: is_digit_def)

lemma digit_not_ws [simp]: "is_digit c \<Longrightarrow> \<not> is_ws c"
  by (auto simp: is_digit_def is_ws_def Let_def)

lemma parse_unsigned_show_nat [simp]:
  "n \<le> mx \<Longrightarrow> parse_unsigned mx (show_nat n) = Some n"
proof -
  assume n: "n \<le> mx"
  obtain c cs where s: "show_nat n = c # cs" by (cases "show_nat n") auto
  then have "c \<noteq> CHR ''+''" using hd_show_nat [of n] by auto
  with n s parse_digits_show_nat [of n] show ?thesis by (simp add: parse_unsigned_def)
qed

lemma parse_i32_show_nat [simp]: "n < 2 ^ 31 \<Longrightarrow> parse_i32 (show_nat n) = Some (int n)"
proof -
  assume n: "n < 2 ^ 31"
  obtain c cs where s: "show_nat n = c # cs" by (cases "show_nat n") auto
  then have "c \<noteq> CHR ''-''" using hd_show_nat [of n] by auto
  with n s parse_unsigned_show_nat [of n "2 ^ 31 - 1"] show ?thesis by (simp add: parse_i32_def)
qed

lemma trim_show_nat [simp]: "trim (show_nat n) = show_nat n"
proof (rule trim_id)
  show "\<not> is_ws (last (show_nat n))"
    using show_nat_digits [of "last (show_nat n)" n] by simp
qed (use hd_show_nat in auto)

end
