(* ===== verification/Net_Types.thy ===== *)
theory Net_Types
  imports Prelude
begin

text \<open>
  Addresses and errors shared by every component: \<open>std::net\<close> addresses, the crate error
  (\<open>src/error.rs\<close>), the error of the vendored network stack, of the WARP API client, and of the
  start-up validation. A message built by \<open>format!\<close> is a constructor that carries the values it
  prints; a literal message is \<open>Text\<close>.
\<close>

section \<open>Addresses\<close>

datatype ipv4 = Ipv4Addr u8 u8 u8 u8

datatype ipv6 = Ipv6Addr u8 u8 u8 u8 u8 u8 u8 u8 u8 u8 u8 u8 u8 u8 u8 u8

datatype ipaddr = V4 ipv4 | V6 ipv6

text \<open>A \<open>SocketAddrV6\<close> also carries flow information and a scope id, which take part in equality.\<close>

datatype sockaddr = SA4 ipv4 u16 | SA6 ipv6 u16 u32 u32

fun octets4 :: "ipv4 \<Rightarrow> bytes" where
  "octets4 (Ipv4Addr a b c d) = [a, b, c, d]"

fun octets6 :: "ipv6 \<Rightarrow> bytes" where
  "octets6 (Ipv6Addr a0 a1 a2 a3 a4 a5 a6 a7 a8 a9 a10 a11 a12 a13 a14 a15) =
     [a0, a1, a2, a3, a4, a5, a6, a7, a8, a9, a10, a11, a12, a13, a14, a15]"

definition ipv6_from :: "bytes \<Rightarrow> ipv6" where
  "ipv6_from o' =
     Ipv6Addr (o' ! 0) (o' ! 1) (o' ! 2) (o' ! 3) (o' ! 4) (o' ! 5) (o' ! 6) (o' ! 7)
       (o' ! 8) (o' ! 9) (o' ! 10) (o' ! 11) (o' ! 12) (o' ! 13) (o' ! 14) (o' ! 15)"

lemma length_octets [simp, bytes_simps]: "length (octets4 i) = 4" "length (octets6 j) = 16"
  by (cases i; simp) (cases j; simp)

lemma ipv6_from_octets6 [simp]: "ipv6_from (octets6 i) = i"
  by (cases i) (simp add: ipv6_from_def)

lemma octets6_ipv6_from [simp]: "length o' = 16 \<Longrightarrow> octets6 (ipv6_from o') = o'"
  by (rule nth_equalityI) (auto simp: ipv6_from_def less_Suc_eq numeral_eq_Suc)

fun sa_ip :: "sockaddr \<Rightarrow> ipaddr" where
  "sa_ip (SA4 i p) = V4 i"
| "sa_ip (SA6 i p f s) = V6 i"

fun sa_port :: "sockaddr \<Rightarrow> u16" where
  "sa_port (SA4 i p) = p"
| "sa_port (SA6 i p f s) = p"

fun sa_is_ipv4 :: "sockaddr \<Rightarrow> bool" where
  "sa_is_ipv4 (SA4 i p) = True"
| "sa_is_ipv4 (SA6 i p f s) = False"

text \<open>\<open>SocketAddr::new\<close> clears the flow information and the scope id.\<close>

fun sockaddr_new :: "ipaddr \<Rightarrow> u16 \<Rightarrow> sockaddr" where
  "sockaddr_new (V4 i) p = SA4 i p"
| "sockaddr_new (V6 i) p = SA6 i p 0 0"

fun ip_is_v4 :: "ipaddr \<Rightarrow> bool" where
  "ip_is_v4 (V4 i) = True"
| "ip_is_v4 (V6 i) = False"

fun is_loopback :: "ipaddr \<Rightarrow> bool" where
  "is_loopback (V4 (Ipv4Addr a b c d)) \<longleftrightarrow> a = 127"
| "is_loopback (V6 i) \<longleftrightarrow> octets6 i = replicate 15 0 @ [1]"

definition ipv4_unspecified :: ipv4 where
  "ipv4_unspecified = Ipv4Addr 0 0 0 0"

lemma sockaddr_new_sel [simp]:
  "sa_ip (sockaddr_new i p) = i" "sa_port (sockaddr_new i p) = p"
  "sa_is_ipv4 (sockaddr_new i p) = ip_is_v4 i"
  by (cases i; simp)+

lemma sockaddr_new_inject [simp]:
  "sockaddr_new i p = sockaddr_new j q \<longleftrightarrow> i = j \<and> p = q"
  by (metis sockaddr_new_sel(1,2))

lemma ip_is_v4_sa_ip [simp]: "ip_is_v4 (sa_ip a) = sa_is_ipv4 a"
  by (cases a) auto

section \<open>Errors of the standard library and of the vendored crates\<close>

datatype io_kind =
    AddrInUse | PermissionDenied | NotFound | NetworkUnreachable | HostUnreachable | NetworkDown
  | AddrNotAvailable | UnexpectedEof | OtherKind

datatype io_error = IoError (io_error_kind: io_kind) (io_error_text: string)

text \<open>\<open>vendor/wireguard-netstack/src/error.rs\<close>.\<close>

datatype ns_error =
    ConfigParse string
  | InvalidKey string
  | InvalidEndpoint string
  | InvalidAddress string
  | DnsResolution string string
  | DnsAllServersFailed
  | DnsNoRecords string
  | DnsError u16
  | DnsResponseTooShort
  | DnsNameTooLong
  | DnsLabelTooLong string
  | InvalidHttpResponse string
  | DohServerError string
  | HandshakeTimeout duration
  | TunnelCreation string
  | TcpConnect sockaddr string
  | TcpConnectGeneric string
  | TcpTimeout
  | TcpSend string
  | TcpRecv string
  | UdpSendBufferFull
  | UdpSendTimeout duration
  | UdpPacketTooLarge string nat nat
  | UdpSend string
  | UdpFragmentFlush nat
  | UdpRecv string
  | ReadTimeout
  | WriteTimeout
  | ShortWrite nat nat
  | ConnectionClosed
  | Ipv6NotSupported
  | NsIo io_error
  | ChannelClosed
  | TlsHandshake string

text \<open>\<open>vendor/warp-wireguard-gen/src/error.rs\<close>.\<close>

datatype warp_error =
    Http string
  | Api int string
  | InvalidResponse string
  | WarpInvalidEndpoint string
  | WarpInvalidAddress string
  | WarpInvalidKey string
  | Tls string
  | WarpDnsResolution string
  | TeamsEnrollment string

section \<open>Errors of the crate\<close>

text \<open>The rejections of \<open>Config::validate_with\<close>, in the order the code tests them.\<close>

datatype config_error =
    OpenProxyRefused sockaddr (container_hint: bool)
  | MtuOutOfRange u16
  | HealthQuorumRange nat nat
  | HealthZeroDuration
  | RecoveryThresholdOrder
  | RecoveryBackoffOrder
  | TcpBufferTooSmall nat
  | TcpBufferTooLarge nat
  | RelayBufferTooSmall nat
  | RelayBufferTooLarge nat
  | MaxConnectionsRange nat
  | PendingDialsRange nat nat
  | ConnectTimeoutZero
  | HandshakeIdleTimeoutZero
  | HappyEyeballsDelayZero
  | DialCandidatesRange
  | ParallelDialsRange
  | DialPortCapacity
  | DnsCacheEntriesRange
  | DnsTimeoutZero
  | DnsServersEmpty
  | MemoryGuard nat nat
  | AuthEmpty
  | PasswordTooShort nat
  | PasswordWeak

datatype error =
    Io io_error
  | Config config_error
  | WarpApi warp_error
  | Netstack ns_error
  | TunnelNotReady
  | DnsNoIpv4 string
  | Socks
  | SocksServer
  | Dial sockaddr ns_error
  | Json
  | Toml
  | Figment
  | Other message
and message =
    Text string
  | NoAaaaRecord string
  | DnsSystemTimeout u16 string
  | DnsQueryTimeout sockaddr
  | InvalidDnsLabel string
  | DnsRcode u16
  | NoQtypeRecord u16
  | UnknownAtyp u8
  | NoUsableFamily string
  | ProbeTimeout duration
  | EgressQuorumFailed nat nat "(sockaddr option \<times> error option) list"
  | RegisterCooldown nat
  | RegisterCooldownAttempt nat
  | IdentityDisappeared string
  | PathHasNoParent string
  | AllEndpointsFailed "(sockaddr \<times> string) list" "ipaddr list"
  | UpstreamDialTimeout duration nat
  | AllUpstreamFailed nat "error option"
  | DialTaskFailed
  | BindAddrInUse sockaddr
  | BindPermissionDenied sockaddr bool
  | ServiceExited string
  | ServiceFailed string error
  | ServiceTaskFailed
  | AllServicesExited
  | BackgroundTaskExited
  | BackgroundTaskFailed

type_synonym 'a res = "('a, error) result"
type_synonym 'a ns_res = "('a, ns_error) result"

abbreviation other :: "string \<Rightarrow> error" where
  "other s \<equiv> Other (Text s)"

end
