(* ===== verification/Float64.thy ===== *)
theory Float64
  imports Complex_Main "HOL-Library.Log_Nat"
begin

text \<open>
  The fragment of IEEE 754 binary64 that the sources compute with: conversion of an unsigned
  integer, division, and comparison with a literal. A positive finite double is the rational it
  denotes; \<open>f64_round\<close> rounds to 53 significant bits, ties to even. The quotients that occur lie
  between \<open>2 powr -64\<close> and \<open>2 powr 64\<close>, so neither overflow nor subnormal numbers arise.
\<close>

section \<open>Rounding\<close>

definition round_half_even :: "rat \<Rightarrow> int" where
  "round_half_even x =
     (let f = \<lfloor>x\<rfloor>; d = x - of_int f
      in if d < 1 / 2 then f else if d > 1 / 2 then f + 1 else if even f then f else f + 1)"

definition pow2 :: "int \<Rightarrow> rat" where
  "pow2 e = (if 0 \<le> e then 2 ^ nat e else 1 / 2 ^ nat (- e))"

text \<open>Binary exponent of a positive rational \<open>m / n\<close>: \<open>2 ^ e \<le> m / n < 2 ^ (e + 1)\<close>.\<close>

definition ratio_exponent :: "nat \<Rightarrow> nat \<Rightarrow> int" where
  "ratio_exponent m n =
     (let e = int (floorlog 2 m) - int (floorlog 2 n)
      in if of_nat n * pow2 e \<le> of_nat m then e else e - 1)"

definition f64_round_ratio :: "nat \<Rightarrow> nat \<Rightarrow> rat" where
  "f64_round_ratio m n =
     (if m = 0 then 0
      else let e = ratio_exponent m n
           in of_int (round_half_even (of_nat m / of_nat n * pow2 (52 - e))) * pow2 (e - 52))"

definition f64_of_nat :: "nat \<Rightarrow> rat" where
  "f64_of_nat n = f64_round_ratio n 1"

definition f64_div :: "rat \<Rightarrow> rat \<Rightarrow> rat" where
  "f64_div x y =
     (case quotient_of (x / y) of (p, q) \<Rightarrow> f64_round_ratio (nat p) (nat q))"

text \<open>The literals \<open>0.8\<close> and \<open>0.5\<close> of the sources.\<close>

definition f64_0_8 :: rat where
  "f64_0_8 = f64_round_ratio 4 5"

definition f64_0_5 :: rat where
  "f64_0_5 = f64_round_ratio 1 2"

section \<open>Exponents\<close>

lemma pow2_pos [simp]: "0 < pow2 e"
  by (simp add: pow2_def)

lemma pow2_neq_0 [simp]: "pow2 e \<noteq> 0" and pow2_nonneg [simp]: "0 \<le> pow2 e"
  by (simp_all add: pow2_def)

lemma pow2_add: "pow2 (a + b) = pow2 a * pow2 b"
proof -
  have "pow2 e = 2 powi e" for e
    by (simp add: pow2_def power_int_def field_simps)
  then show ?thesis by (simp add: power_int_add)
qed

lemma pow2_0 [simp]: "pow2 0 = 1"
  by (simp add: pow2_def)

lemma pow2_1: "pow2 1 = 2"
  by (simp add: pow2_def)

lemma pow2_nat: "pow2 (int k) = 2 ^ k"
  by (simp add: pow2_def)

lemma pow2_diff: "pow2 (a - b) = pow2 a / pow2 b"
  using pow2_add [of "a - b" b] by (simp add: field_simps)

lemma pow2_mono: "a \<le> b \<Longrightarrow> pow2 a \<le> pow2 b"
proof -
  assume "a \<le> b"
  then have "pow2 b = pow2 a * 2 ^ nat (b - a)"
    using pow2_add [of a "b - a"] pow2_nat [of "nat (b - a)"] by simp
  then show ?thesis by simp
qed

lemma floorlog_pow2_bounds:
  assumes "0 < m"
  shows "pow2 (int (floorlog 2 m) - 1) \<le> of_nat m" "of_nat m < pow2 (int (floorlog 2 m))"
proof -
  have b: "2 ^ (floorlog 2 m - 1) \<le> m" "m < 2 ^ floorlog 2 m"
    using floorlog_bounds [of m 2] assms by auto
  have "0 < floorlog 2 m" using assms by (simp add: floorlog_def)
  then have "int (floorlog 2 m) - 1 = int (floorlog 2 m - 1)" by simp
  moreover have "(2 ^ (floorlog 2 m - 1) :: rat) \<le> of_nat m"
    using b(1) by (metis of_nat_le_iff of_nat_numeral of_nat_power)
  ultimately show "pow2 (int (floorlog 2 m) - 1) \<le> of_nat m"
    by (metis pow2_nat)
  have "(of_nat m :: rat) < 2 ^ floorlog 2 m"
    using b(2) by (metis of_nat_less_iff of_nat_numeral of_nat_power)
  then show "of_nat m < pow2 (int (floorlog 2 m))" by (simp add: pow2_nat)
qed

lemma ratio_exponent_bounds:
  assumes "0 < m" "0 < n"
  shows "pow2 (ratio_exponent m n) \<le> of_nat m / of_nat n"
    and "of_nat m / of_nat n < pow2 (ratio_exponent m n + 1)"
proof -
  define a b where "a = int (floorlog 2 m)" and "b = int (floorlog 2 n)"
  have m: "pow2 (a - 1) \<le> of_nat m" "of_nat m < pow2 a"
    and n: "pow2 (b - 1) \<le> of_nat n" "of_nat n < pow2 b"
    using floorlog_pow2_bounds assms by (auto simp: a_def b_def)
  have lo: "pow2 (a - b - 1) * of_nat n \<le> of_nat m"
  proof -
    have "pow2 (a - b - 1) * of_nat n \<le> pow2 (a - b - 1) * pow2 b"
      using n(2) by (intro mult_left_mono) auto
    also have "\<dots> = pow2 (a - 1)" using pow2_add [of "a - b - 1" b] by simp
    finally show ?thesis using m(1) by simp
  qed
  have hi: "of_nat m < pow2 (a - b + 1) * of_nat n"
  proof -
    have "pow2 a = pow2 (a - b + 1) * pow2 (b - 1)" using pow2_add [of "a - b + 1" "b - 1"] by simp
    also have "\<dots> \<le> pow2 (a - b + 1) * of_nat n" using n(1) by (intro mult_left_mono) auto
    finally show ?thesis using m(2) by simp
  qed
  have np: "(0 :: rat) < of_nat n" using assms by simp
  show "pow2 (ratio_exponent m n) \<le> of_nat m / of_nat n"
    using lo np by (auto simp: ratio_exponent_def a_def [symmetric] b_def [symmetric] Let_def
        pos_le_divide_eq mult.commute)
  show "of_nat m / of_nat n < pow2 (ratio_exponent m n + 1)"
    using hi np by (auto simp: ratio_exponent_def a_def [symmetric] b_def [symmetric] Let_def
        pos_divide_less_eq mult.commute)
qed

section \<open>Half-even rounding against an integer bound\<close>

lemma round_half_even_of_int [simp]: "round_half_even (of_int k) = k"
  by (simp add: round_half_even_def)

lemma round_half_even_mono_bound: "of_int k \<le> x \<Longrightarrow> k \<le> round_half_even x"
proof -
  assume "of_int k \<le> x"
  then have "k \<le> \<lfloor>x\<rfloor>" by (simp add: le_floor_iff)
  then show ?thesis by (simp add: round_half_even_def Let_def)
qed

lemma round_half_even_upper: "x \<le> of_int k \<Longrightarrow> round_half_even x \<le> k"
proof -
  assume x: "x \<le> of_int k"
  show ?thesis
  proof (cases "\<lfloor>x\<rfloor> < k")
    case True
    then show ?thesis by (simp add: round_half_even_def Let_def)
  next
    case False
    then have "of_int k \<le> x" by (simp add: le_floor_iff [symmetric])
    with x have "x = of_int k" by simp
    then show ?thesis by simp
  qed
qed

text \<open>For an even bound, reaching it is the same as reaching its lower midpoint.\<close>

lemma round_half_even_ge_even:
  assumes "even k"
  shows "k \<le> round_half_even x \<longleftrightarrow> of_int k - 1 / 2 \<le> x"
proof
  assume le: "of_int k - 1 / 2 \<le> x"
  show "k \<le> round_half_even x"
  proof (cases "of_int k \<le> x")
    case False
    with le have "\<lfloor>x\<rfloor> = k - 1" by (simp add: floor_eq_iff)
    with le assms show ?thesis by (auto simp: round_half_even_def Let_def)
  qed (rule round_half_even_mono_bound)
next
  assume r: "k \<le> round_half_even x"
  show "of_int k - 1 / 2 \<le> x"
  proof (rule ccontr)
    assume x: "\<not> of_int k - 1 / 2 \<le> x"
    then have "x < of_int k" by simp
    then have f: "\<lfloor>x\<rfloor> \<le> k - 1" by (simp add: floor_less_iff [symmetric])
    show False
    proof (cases "\<lfloor>x\<rfloor> = k - 1")
      case True
      with x have "x - of_int \<lfloor>x\<rfloor> < 1 / 2" by simp
      with True r show ?thesis by (simp add: round_half_even_def Let_def)
    next
      case False
      with f r show ?thesis by (auto simp: round_half_even_def Let_def split: if_splits)
    qed
  qed
qed

section \<open>Conversion and division\<close>

lemma f64_of_nat_exact: "n < 2 ^ 53 \<Longrightarrow> f64_of_nat n = of_nat n"
proof (cases "n = 0")
  case False
  assume n: "n < 2 ^ 53"
  define e where "e = ratio_exponent n (Suc 0)"
  have b: "pow2 e \<le> of_nat n" using ratio_exponent_bounds(1) [of n 1] False by (simp add: e_def)
  have "e \<le> 52"
  proof (rule ccontr)
    assume "\<not> e \<le> 52"
    then have "pow2 53 \<le> pow2 e" by (intro pow2_mono) simp
    with b have "(2 :: rat) ^ 53 \<le> of_nat n" by (simp add: pow2_def)
    with n show False by (metis not_less of_nat_le_iff of_nat_numeral of_nat_power)
  qed
  then have i: "of_nat n * pow2 (52 - e) = of_int (int n * 2 ^ nat (52 - e))"
    by (simp add: pow2_def)
  have "f64_of_nat n = of_int (int n * 2 ^ nat (52 - e)) * pow2 (e - 52)"
    using False by (simp add: f64_of_nat_def f64_round_ratio_def e_def [symmetric] Let_def i
        del: of_int_mult of_int_power)
  also have "\<dots> = of_nat n * (pow2 (52 - e) * pow2 (e - 52))"
    unfolding i [symmetric] by (simp add: mult.assoc)
  also have "pow2 (52 - e) * pow2 (e - 52) = 1" by (simp flip: pow2_add)
  finally show ?thesis by simp
qed (simp add: f64_of_nat_def f64_round_ratio_def)

lemma ratio_exponent_4_5: "ratio_exponent 4 5 = -1"
  by (simp add: ratio_exponent_def compute_floorlog pow2_def)

lemma f64_0_8_eq: "f64_0_8 = 7205759403792794 / 2 ^ 53"
proof -
  have f: "\<lfloor>4 / 5 * pow2 53\<rfloor> = 7205759403792793"
    by (simp add: floor_eq_iff pow2_def)
  have "round_half_even (4 / 5 * pow2 53) = 7205759403792794"
    unfolding round_half_even_def f by (simp add: pow2_def)
  then show ?thesis
    by (simp add: f64_0_8_def f64_round_ratio_def ratio_exponent_4_5) (simp add: pow2_def)
qed

text \<open>
  Rounding keeps a quotient between the powers of two around it, and a quotient in the binade of
  \<open>0.8\<close> reaches the literal exactly when it reaches the midpoint below it.
\<close>

lemma f64_round_ratio_binade:
  assumes "0 < m" "0 < n"
  shows "pow2 (ratio_exponent m n) \<le> f64_round_ratio m n"
    and "f64_round_ratio m n \<le> pow2 (ratio_exponent m n + 1)"
proof -
  define e where "e = ratio_exponent m n"
  define x :: rat where "x = of_nat m / of_nat n"
  note b = ratio_exponent_bounds [OF assms, folded e_def x_def]
  define r where "r = round_half_even (x * pow2 (52 - e))"
  have eq: "f64_round_ratio m n = of_int r * pow2 (e - 52)"
    using assms by (simp add: f64_round_ratio_def e_def x_def r_def Let_def)
  have "of_int (2 ^ 52) = pow2 e * pow2 (52 - e)"
    using pow2_add [of e "52 - e"] by (simp add: pow2_def [of 52])
  also have "\<dots> \<le> x * pow2 (52 - e)" using b(1) by (intro mult_right_mono) auto
  finally have lo: "2 ^ 52 \<le> r" unfolding r_def by (rule round_half_even_mono_bound)
  have "x * pow2 (52 - e) \<le> pow2 (e + 1) * pow2 (52 - e)" using b(2) by (intro mult_right_mono) auto
  also have "\<dots> = of_int (2 ^ 53)"
    using pow2_add [of "e + 1" "52 - e"] by (simp add: pow2_def [of 53])
  finally have hi: "r \<le> 2 ^ 53" unfolding r_def by (rule round_half_even_upper)
  have "pow2 e = of_int (2 ^ 52) * pow2 (e - 52)"
    using pow2_add [of 52 "e - 52"] by (simp add: pow2_def [of 52])
  also have "\<dots> \<le> of_int r * pow2 (e - 52)" using lo by (intro mult_right_mono) (simp_all only: of_int_le_iff pow2_nonneg)
  finally show "pow2 (ratio_exponent m n) \<le> f64_round_ratio m n" by (simp add: eq e_def)
  have "of_int r * pow2 (e - 52) \<le> of_int (2 ^ 53) * pow2 (e - 52)"
    using hi by (intro mult_right_mono) (simp_all only: of_int_le_iff pow2_nonneg)
  also have "\<dots> = pow2 (e + 1)"
    using pow2_add [of 53 "e - 52"] by (simp add: pow2_def [of 53] add.commute)
  finally show "f64_round_ratio m n \<le> pow2 (ratio_exponent m n + 1)" by (simp add: eq e_def)
qed

lemma f64_round_ratio_ge_0_8:
  assumes "0 < n"
  shows "f64_0_8 \<le> f64_round_ratio m n
    \<longleftrightarrow> 14411518807585587 / 2 ^ 54 \<le> (of_nat m / of_nat n :: rat)"
proof (cases "m = 0")
  case True
  then show ?thesis by (simp add: f64_0_8_eq f64_round_ratio_def)
next
  case False
  then have m: "0 < m" by simp
  define e where "e = ratio_exponent m n"
  define x :: rat where "x = of_nat m / of_nat n"
  note b = ratio_exponent_bounds [OF m assms, folded e_def x_def]
  note f = f64_round_ratio_binade [OF m assms, folded e_def]
  consider "e = -1" | "e \<le> -2" | "0 \<le> e" by linarith
  then show ?thesis
  proof cases
    case 1
    have r: "f64_round_ratio m n = of_int (round_half_even (x * pow2 53)) * pow2 (- 53)"
      using False 1 by (simp add: f64_round_ratio_def e_def x_def Let_def)
    have l: "f64_0_8 = of_int 7205759403792794 * pow2 (- 53)"
      by (simp add: f64_0_8_eq pow2_def)
    have "f64_0_8 \<le> f64_round_ratio m n \<longleftrightarrow> 7205759403792794 \<le> round_half_even (x * pow2 53)"
      unfolding r l by (simp only: mult_le_cancel_right_pos pow2_pos of_int_le_iff)
    also have "\<dots> \<longleftrightarrow> 7205759403792794 - 1 / 2 \<le> x * pow2 53"
      using round_half_even_ge_even [of 7205759403792794 "x * pow2 53"] by simp
    finally show ?thesis unfolding x_def [symmetric] by (simp add: pow2_def field_simps)
  next
    case 2
    then have "pow2 (e + 1) \<le> pow2 (- 1)" by (intro pow2_mono) simp
    then have "pow2 (e + 1) \<le> 1 / 2" by (simp add: pow2_def)
    with f(2) b(2) show ?thesis unfolding x_def [symmetric] by (simp add: f64_0_8_eq)
  next
    case 3
    then have "pow2 0 \<le> pow2 e" by (intro pow2_mono) simp
    then have "1 \<le> pow2 e" by simp
    with f(1) b(1) show ?thesis unfolding x_def [symmetric] by (simp add: f64_0_8_eq)
  qed
qed

text \<open>
  The comparison \<open>c as f64 / t as f64 >= 0.8\<close> is the exact integer comparison \<open>5 c \<ge> 4 t\<close> for
  every pair of counts below \<open>2 ^ 53\<close>.
\<close>

lemma f64_div_ge_0_8:
  assumes "0 < t" "t < 2 ^ 53" "c < 2 ^ 53"
  shows "f64_0_8 \<le> f64_div (f64_of_nat c) (f64_of_nat t) \<longleftrightarrow> 4 * t \<le> 5 * c"
proof -
  define x :: rat where "x = of_nat c / of_nat t"
  obtain p q where pq: "quotient_of x = (p, q)" by (cases "quotient_of x")
  have q: "0 < q" using pq by (rule quotient_of_denom_pos)
  have x: "x = of_int p / of_int q" using pq by (rule quotient_of_div)
  have "0 \<le> x" by (simp add: x_def)
  then have p: "0 \<le> p" using q x by (simp add: zero_le_divide_iff)
  have "f64_div (f64_of_nat c) (f64_of_nat t) = f64_round_ratio (nat p) (nat q)"
    using assms by (simp add: f64_div_def f64_of_nat_exact x_def [symmetric] pq)
  then have "f64_0_8 \<le> f64_div (f64_of_nat c) (f64_of_nat t)
      \<longleftrightarrow> 14411518807585587 / 2 ^ 54 \<le> (of_nat (nat p) / of_nat (nat q) :: rat)"
    using q by (simp add: f64_round_ratio_ge_0_8)
  also have "of_nat (nat p) / of_nat (nat q) = x" using p q by (simp add: x of_nat_nat)
  also have "14411518807585587 / 2 ^ 54 \<le> x \<longleftrightarrow> (14411518807585587 :: rat) * of_nat t \<le> 2 ^ 54 * of_nat c"
    using assms(1) by (simp add: x_def field_simps)
  also have "\<dots> \<longleftrightarrow> 14411518807585587 * t \<le> 2 ^ 54 * c"
    by (metis (mono_tags, lifting) of_nat_le_iff of_nat_mult of_nat_numeral of_nat_power)
  also have "\<dots> \<longleftrightarrow> 4 * t \<le> 5 * c"
  proof -
    have p: "(2 :: nat) ^ 53 = 9007199254740992" "(2 :: nat) ^ 54 = 18014398509481984" by simp_all
    show ?thesis using assms unfolding p by (intro iffI) linarith+
  qed
  finally show ?thesis .
qed

end
