(* ===== verification/Egress.thy ===== *)
theory Egress
  imports Prelude Float64
begin

text \<open>
  \<open>src/egress.rs\<close>: the pair of lock-free counters through which the SOCKS5 side reports every
  business dial, and the windows the health probe takes from it. The counters are 64-bit words
  (\<open>AtomicU64::fetch_add\<close> wraps); a window's failure ratio is the double the code computes.
\<close>

section \<open>Model\<close>

record egress_stats =
  es_ok :: u64
  es_failed :: u64

record egress_window =
  ew_ok :: u64
  ew_failed :: u64

definition MIN_SAMPLES :: nat where
  "MIN_SAMPLES = 20"

definition FAIL_RATIO :: rat where
  "FAIL_RATIO = f64_0_8"

definition egress_new :: egress_stats where
  "egress_new = \<lparr>es_ok = 0, es_failed = 0\<rparr>"

definition record_dial :: "bool \<Rightarrow> egress_stats \<Rightarrow> egress_stats" where
  "record_dial success s =
     (if success then s\<lparr>es_ok := es_ok s + 1\<rparr> else s\<lparr>es_failed := es_failed s + 1\<rparr>)"

text \<open>\<open>take_window\<close> is two atomic swaps; another thread may record between them.\<close>

definition swap_ok :: "egress_stats \<Rightarrow> u64 \<times> egress_stats" where
  "swap_ok s = (es_ok s, s\<lparr>es_ok := 0\<rparr>)"

definition swap_failed :: "egress_stats \<Rightarrow> u64 \<times> egress_stats" where
  "swap_failed s = (es_failed s, s\<lparr>es_failed := 0\<rparr>)"

definition take_window :: "egress_stats \<Rightarrow> egress_window \<times> egress_stats" where
  "take_window s =
     (let (a, s1) = swap_ok s; (b, s2) = swap_failed s1
      in (\<lparr>ew_ok = a, ew_failed = b\<rparr>, s2))"

definition ew_total :: "egress_window \<Rightarrow> nat" where
  "ew_total w = saturating_add (unat (ew_ok w)) (unat (ew_failed w))"

definition has_quorum :: "egress_window \<Rightarrow> bool" where
  "has_quorum w \<longleftrightarrow> MIN_SAMPLES \<le> ew_total w"

definition fail_ratio :: "egress_window \<Rightarrow> rat" where
  "fail_ratio w =
     (if ew_total w = 0 then 0
      else f64_div (f64_of_nat (unat (ew_failed w))) (f64_of_nat (ew_total w)))"

definition is_degraded :: "egress_window \<Rightarrow> bool" where
  "is_degraded w \<longleftrightarrow> has_quorum w \<and> FAIL_RATIO \<le> fail_ratio w"

section \<open>Windows\<close>

lemma take_window_simps [simp]:
  "fst (take_window s) = \<lparr>ew_ok = es_ok s, ew_failed = es_failed s\<rparr>"
  "snd (take_window s) = egress_new"
  by (simp_all add: take_window_def swap_ok_def swap_failed_def egress_new_def)

lemma ew_total_exact:
  "unat (ew_ok w) + unat (ew_failed w) < 2 ^ 53 \<Longrightarrow> ew_total w = unat (ew_ok w) + unat (ew_failed w)"
  by (simp add: ew_total_def saturating_add_exact usize_max_def)

lemma empty_window_not_degraded: "\<not> is_degraded \<lparr>ew_ok = 0, ew_failed = 0\<rparr>"
  by (simp add: is_degraded_def has_quorum_def ew_total_def saturating_add_def MIN_SAMPLES_def)

lemma degraded_iff:
  assumes "unat (ew_ok w) + unat (ew_failed w) < 2 ^ 53"
  shows "is_degraded w \<longleftrightarrow>
    20 \<le> unat (ew_ok w) + unat (ew_failed w) \<and>
    4 * (unat (ew_ok w) + unat (ew_failed w)) \<le> 5 * unat (ew_failed w)"
proof -
  define t where "t = unat (ew_ok w) + unat (ew_failed w)"
  have t: "ew_total w = t" "t < 2 ^ 53" "unat (ew_failed w) < 2 ^ 53"
    using assms ew_total_exact [of w] by (simp_all add: t_def)
  show ?thesis
  proof (cases "t = 0")
    case True
    with t(1) show ?thesis
      by (simp add: t_def is_degraded_def has_quorum_def MIN_SAMPLES_def)
  next
    case False
    then show ?thesis using f64_div_ge_0_8 [of t "unat (ew_failed w)"] t
      by (simp add: is_degraded_def has_quorum_def fail_ratio_def FAIL_RATIO_def MIN_SAMPLES_def
          t_def [symmetric])
  qed
qed

text \<open>Property. A window of fewer than \<open>2 ^ 53\<close> dials is judged degraded exactly when it holds at least 20
  dials and at least four fifths of them failed: the double comparison in \<open>is_degraded\<close> never
  disagrees with the exact integer one, the boundary ratio 0.8 included.\<close>

theorem is_degraded_exact:
  assumes "unat (ew_ok w) + unat (ew_failed w) < 2 ^ 53"
  shows "is_degraded w \<longleftrightarrow>
    20 \<le> unat (ew_ok w) + unat (ew_failed w) \<and>
    4 * (unat (ew_ok w) + unat (ew_failed w)) \<le> 5 * unat (ew_failed w)"
  using assms by (rule degraded_iff)

theorem is_degraded_exact_witness:
  "is_degraded \<lparr>ew_ok = 20, ew_failed = 80\<rparr> \<and> \<not> is_degraded \<lparr>ew_ok = 21, ew_failed = 80\<rparr>"
  using is_degraded_exact [of "\<lparr>ew_ok = 20, ew_failed = 80\<rparr>"]
    is_degraded_exact [of "\<lparr>ew_ok = 21, ew_failed = 80\<rparr>"]
  by simp

section \<open>Interleavings of writers and the reader\<close>

text \<open>Every schedule of the atomic operations, with what the reader has collected so far.\<close>

datatype egress_event = EvRecord bool | EvSwapOk | EvSwapFailed

record egress_run =
  er_stats :: egress_stats
  er_ok :: nat
  er_failed :: nat

definition egress_init :: egress_run where
  "egress_init = \<lparr>er_stats = egress_new, er_ok = 0, er_failed = 0\<rparr>"

fun egress_step :: "egress_run \<Rightarrow> egress_event \<Rightarrow> egress_run" where
  "egress_step r (EvRecord b) = r\<lparr>er_stats := record_dial b (er_stats r)\<rparr>"
| "egress_step r EvSwapOk =
     (let (n, s) = swap_ok (er_stats r) in r\<lparr>er_stats := s, er_ok := er_ok r + unat n\<rparr>)"
| "egress_step r EvSwapFailed =
     (let (n, s) = swap_failed (er_stats r) in r\<lparr>er_stats := s, er_failed := er_failed r + unat n\<rparr>)"

definition egress_exec :: "egress_event list \<Rightarrow> egress_run" where
  "egress_exec es = foldl egress_step egress_init es"

lemma unat_inc_u64: "unat (x :: u64) + 1 < 2 ^ 64 \<Longrightarrow> unat (x + 1) = unat x + 1"
  by (simp add: unat_word_ariths)

lemma egress_exec_snoc [simp]: "egress_exec (es @ [e]) = egress_step (egress_exec es) e"
  by (simp add: egress_exec_def)

lemma egress_exec_Nil [simp]: "egress_exec [] = egress_init"
  by (simp add: egress_exec_def)

text \<open>Property. Under every interleaving of recorders with the two swaps of the reader, no dial outcome is
  lost and none is counted twice: what the reader has collected plus what is still in the counters
  is the number of outcomes recorded (for fewer than \<open>2 ^ 64\<close> records).\<close>

theorem egress_conservation:
  assumes "length es < 2 ^ 64"
  shows "er_ok (egress_exec es) + unat (es_ok (er_stats (egress_exec es))) =
           count_list es (EvRecord True)
       \<and> er_failed (egress_exec es) + unat (es_failed (er_stats (egress_exec es))) =
           count_list es (EvRecord False)"
  using assms
proof (induction es rule: rev_induct)
  case Nil
  show ?case by (simp add: egress_init_def egress_new_def)
next
  case (snoc e es)
  let ?r = "egress_exec es"
  from snoc have ih:
    "er_ok ?r + unat (es_ok (er_stats ?r)) = count_list es (EvRecord True)"
    "er_failed ?r + unat (es_failed (er_stats ?r)) = count_list es (EvRecord False)"
    by simp_all
  have "unat (es_ok (er_stats ?r)) + 1 < 2 ^ 64" "unat (es_failed (er_stats ?r)) + 1 < 2 ^ 64"
    using snoc.prems count_le_length [of es "EvRecord True"] count_le_length [of es "EvRecord False"] ih
    by simp_all
  with ih show ?case
    by (cases e)
      (auto simp: record_dial_def swap_ok_def swap_failed_def unat_inc_u64 count_list_append)
qed

theorem egress_conservation_witness:
  "er_ok (egress_exec [EvRecord True, EvSwapOk, EvRecord False, EvRecord True, EvSwapFailed]) +
     unat (es_ok (er_stats (egress_exec
       [EvRecord True, EvSwapOk, EvRecord False, EvRecord True, EvSwapFailed]))) = 2"
  using egress_conservation [of "[EvRecord True, EvSwapOk, EvRecord False, EvRecord True, EvSwapFailed]"]
  by simp

end
