(* ===== verification/Config.thy ===== *)
theory Config
  imports Prelude Rust_Str Net_Types Float64
begin

text \<open>
  \<open>src/config.rs\<close>: the configuration records with their defaults, the memory-adaptive connection
  limit, container detection, and the start-up validation with every rejection, warning and counter
  in source order. Here a configuration is an argument; \<open>Config::load\<close> and its layers are in
  \<open>Process\<close>. Strings are byte strings.
\<close>

section \<open>The configuration records\<close>

record auth_config =
  auth_username :: string
  auth_password :: string

record server_config =
  srv_bind :: sockaddr
  srv_auth :: "auth_config option"

datatype log_format = LogPretty | LogCompact | LogJson

record logging_config =
  log_level :: string
  log_fmt :: log_format

record warp_config =
  wc_data_dir :: string
  wc_device_model :: string
  wc_license_key :: "string option"
  wc_refresh_interval :: duration
  wc_register_cooldown :: duration
  wc_mtu :: u16
  wc_tcp_buffer_size :: nat

record health_config =
  hc_interval :: duration
  hc_timeout :: duration
  hc_targets :: "sockaddr list"
  hc_min_successes :: nat

record recovery_config =
  rc_reconnect_after :: u8
  rc_rebuild_config_after :: u8
  rc_reregister_after :: u8
  rc_rotate_identity_after :: u8
  rc_backoff_min :: duration
  rc_backoff_max :: duration

record metrics_config =
  mc_enabled :: bool
  mc_bind :: sockaddr

record hot_reload_config =
  hr_enabled :: bool

record limits_config =
  lc_max_concurrent_connections :: nat
  lc_max_pending_dials :: nat
  lc_handshake_timeout :: duration
  lc_connect_timeout :: duration
  lc_happy_eyeballs_delay :: duration
  lc_max_dial_candidates :: nat
  lc_max_parallel_dials :: nat
  lc_idle_timeout :: duration
  lc_relay_buffer_size :: nat
  lc_auth_fail_sleep :: duration
  lc_relay_close_grace :: duration

datatype dns_mode = System | Tunnel

record dns_config =
  dc_mode :: dns_mode
  dc_servers :: "sockaddr list"
  dc_timeout :: duration
  dc_cache_ttl :: duration
  dc_negative_ttl :: duration
  dc_max_cache_entries :: nat

record config =
  cfg_server :: server_config
  cfg_logging :: logging_config
  cfg_warp :: warp_config
  cfg_health :: health_config
  cfg_recovery :: recovery_config
  cfg_metrics :: metrics_config
  cfg_hot_reload :: hot_reload_config
  cfg_limits :: limits_config
  cfg_dns :: dns_config

section \<open>Defaults\<close>

definition DEFAULT_TCP_BUFFER_BYTES :: nat where [config_simps]:
  "DEFAULT_TCP_BUFFER_BYTES = 128 * 1024"

definition DEFAULT_RELAY_BUFFER_BYTES :: nat where [config_simps]:
  "DEFAULT_RELAY_BUFFER_BYTES = 32 * 1024"

text \<open>\<open>meminfo\<close> is the content of \<open>/proc/meminfo\<close>, \<open>None\<close> when it cannot be read. The first line
  with the prefix decides, also when its value does not parse.\<close>

definition total_system_memory_bytes :: "string option \<Rightarrow> nat option" where
  "total_system_memory_bytes meminfo =
     (case meminfo of
        None \<Rightarrow> None
      | Some s \<Rightarrow>
         (case List.map_filter (\<lambda>l. strip_prefix l ''MemTotal:'') (str_lines s) of
            [] \<Rightarrow> None
          | rest # _ \<Rightarrow>
             (case parse_unsigned usize_max (trim (trim_end_matches (trim rest) '' kB'')) of
                None \<Rightarrow> None
              | Some kb \<Rightarrow> if kb * 1024 \<le> usize_max then Some (kb * 1024) else None)))"

definition clamp :: "nat \<Rightarrow> nat \<Rightarrow> nat \<Rightarrow> nat" where
  "clamp x lo hi = (if x < lo then lo else if hi < x then hi else x)"

definition default_max_concurrent_connections :: "nat option \<Rightarrow> nat" where
  "default_max_concurrent_connections mem =
     (case mem of
        Some tot \<Rightarrow>
          clamp ((tot div 2) div (2 * DEFAULT_TCP_BUFFER_BYTES + 2 * DEFAULT_RELAY_BUFFER_BYTES))
            1024 16384
      | None \<Rightarrow> 2048)"

definition default_server :: server_config where [config_simps]:
  "default_server = \<lparr>srv_bind = SA4 (Ipv4Addr 127 0 0 1) 1080, srv_auth = None\<rparr>"

definition default_logging :: logging_config where [config_simps]:
  "default_logging =
     \<lparr>log_level = ''warn,warp_rust=info,wireguard_netstack=warn'', log_fmt = LogPretty\<rparr>"

definition default_warp :: warp_config where [config_simps]:
  "default_warp =
     \<lparr>wc_data_dir = ''./data'', wc_device_model = ''warp-rust'', wc_license_key = None,
      wc_refresh_interval = from_secs 86400, wc_register_cooldown = from_secs 600,
      wc_mtu = 1280, wc_tcp_buffer_size = DEFAULT_TCP_BUFFER_BYTES\<rparr>"

definition default_health_targets :: "sockaddr list" where [config_simps]:
  "default_health_targets =
     [SA4 (Ipv4Addr 1 1 1 1) 443, SA4 (Ipv4Addr 8 8 8 8) 53, SA4 (Ipv4Addr 9 9 9 9) 53]"

definition default_health :: health_config where [config_simps]:
  "default_health =
     \<lparr>hc_interval = from_secs 30, hc_timeout = from_secs 8,
      hc_targets = default_health_targets, hc_min_successes = 2\<rparr>"

definition default_recovery :: recovery_config where [config_simps]:
  "default_recovery =
     \<lparr>rc_reconnect_after = 1, rc_rebuild_config_after = 3, rc_reregister_after = 5,
      rc_rotate_identity_after = 10, rc_backoff_min = from_millis 500,
      rc_backoff_max = from_secs 30\<rparr>"

definition default_metrics :: metrics_config where [config_simps]:
  "default_metrics = \<lparr>mc_enabled = True, mc_bind = SA4 (Ipv4Addr 127 0 0 1) 9090\<rparr>"

definition default_hot_reload :: hot_reload_config where [config_simps]:
  "default_hot_reload = \<lparr>hr_enabled = False\<rparr>"

definition default_limits :: "nat option \<Rightarrow> limits_config" where [config_simps]:
  "default_limits mem =
     \<lparr>lc_max_concurrent_connections = default_max_concurrent_connections mem,
      lc_max_pending_dials = 512,
      lc_handshake_timeout = from_secs 10,
      lc_connect_timeout = from_secs 8,
      lc_happy_eyeballs_delay = from_millis 200,
      lc_max_dial_candidates = 8,
      lc_max_parallel_dials = 2,
      lc_idle_timeout = from_secs 300,
      lc_relay_buffer_size = DEFAULT_RELAY_BUFFER_BYTES,
      lc_auth_fail_sleep = from_secs 1,
      lc_relay_close_grace = from_millis 500\<rparr>"

definition default_dns :: dns_config where [config_simps]:
  "default_dns =
     \<lparr>dc_mode = System,
      dc_servers = [SA4 (Ipv4Addr 1 1 1 1) 53, SA4 (Ipv4Addr 1 0 0 1) 53],
      dc_timeout = from_secs 3, dc_cache_ttl = from_secs 60, dc_negative_ttl = from_secs 5,
      dc_max_cache_entries = 4096\<rparr>"

definition default_config :: "nat option \<Rightarrow> config" where [config_simps]:
  "default_config mem =
     \<lparr>cfg_server = default_server, cfg_logging = default_logging, cfg_warp = default_warp,
      cfg_health = default_health, cfg_recovery = default_recovery,
      cfg_metrics = default_metrics, cfg_hot_reload = default_hot_reload,
      cfg_limits = default_limits mem, cfg_dns = default_dns\<rparr>"

section \<open>Container detection\<close>

definition detect_container :: "bool \<Rightarrow> string option \<Rightarrow> bool" where
  "detect_container dockerenv_exists cgroup \<longleftrightarrow>
     dockerenv_exists \<or>
     (case cgroup of
        None \<Rightarrow> False
      | Some cg \<Rightarrow> list_ex (\<lambda>m. str_contains cg m)
                    [''docker'', ''containerd'', ''kubepods'', ''podman'', ''lxc''])"

section \<open>Validation\<close>

text \<open>What validation reads from its surroundings: the two environment variables, the container
  probes and \<open>/proc/meminfo\<close>. What it emits besides its verdict: warnings and counters.\<close>

record host_env =
  he_allow_open_proxy :: "string option"
  he_trusted_host_net :: "string option"
  he_dockerenv :: bool
  he_cgroup :: "string option"
  he_meminfo :: "string option"

datatype validate_event =
    WarnOpenProxyAllowed | WarnContainerTrusted | WarnMetricsExposed | WarnHalfMemory
  | WarnCapacity2GiB | CountOpenProxyAllowed | CountContainerOpenProxy

type_synonym verdict = "validate_event list \<times> (unit, config_error) result"

fun first_err :: "(bool \<times> 'e) list \<Rightarrow> (unit, 'e) result" where
  "first_err [] = Ok ()"
| "first_err ((bad, e) # r) = (if bad then Err e else first_err r)"

fun and_check :: "verdict \<Rightarrow> verdict \<Rightarrow> verdict" where
  "and_check (ev, Ok u) (ev', r) = (ev @ ev', r)"
| "and_check (ev, Err e) v = (ev, Err e)"
| "and_check (ev, Panic) v = (ev, Panic)"

definition check_open_proxy :: "host_env \<Rightarrow> bool \<Rightarrow> bool \<Rightarrow> config \<Rightarrow> verdict" where
  "check_open_proxy env is_container trusted c =
     (let ip = sa_ip (srv_bind (cfg_server c)) in
      if \<not> is_loopback ip \<and> srv_auth (cfg_server c) = None then
        if he_allow_open_proxy env = Some ''1'' then
          ([WarnOpenProxyAllowed, CountOpenProxyAllowed], Ok ())
        else if is_container \<and> ip = V4 ipv4_unspecified \<and> trusted then
          ([WarnContainerTrusted, CountContainerOpenProxy, CountOpenProxyAllowed], Ok ())
        else
          ([], Err (OpenProxyRefused (srv_bind (cfg_server c))
                      (is_container \<and> ip = V4 ipv4_unspecified)))
      else ([], Ok ()))"

definition check_metrics :: "config \<Rightarrow> verdict" where
  "check_metrics c =
     (if mc_enabled (cfg_metrics c) \<and> \<not> is_loopback (sa_ip (mc_bind (cfg_metrics c)))
      then ([WarnMetricsExposed], Ok ()) else ([], Ok ()))"

definition max_dial_ports :: "limits_config \<Rightarrow> nat" where
  "max_dial_ports l =
     saturating_mul (lc_max_pending_dials l) (lc_max_parallel_dials l - 1)"

definition range_checks :: "config \<Rightarrow> (bool \<times> config_error) list" where
  "range_checks c =
     (let w = cfg_warp c; h = cfg_health c; r = cfg_recovery c; l = cfg_limits c; d = cfg_dns c in
      [(wc_mtu w < 576 \<or> 1420 < wc_mtu w, MtuOutOfRange (wc_mtu w)),
       (hc_targets h = [] \<or> hc_min_successes h = 0 \<or> length (hc_targets h) < hc_min_successes h,
          HealthQuorumRange (hc_min_successes h) (length (hc_targets h))),
       (hc_interval h = 0 \<or> hc_timeout h = 0, HealthZeroDuration),
       (rc_reconnect_after r = 0 \<or> rc_rebuild_config_after r < rc_reconnect_after r
          \<or> rc_reregister_after r < rc_rebuild_config_after r
          \<or> rc_rotate_identity_after r < rc_reregister_after r, RecoveryThresholdOrder),
       (rc_backoff_max r < rc_backoff_min r, RecoveryBackoffOrder),
       (wc_tcp_buffer_size w < 65535, TcpBufferTooSmall (wc_tcp_buffer_size w)),
       (8 * 1024 * 1024 < wc_tcp_buffer_size w, TcpBufferTooLarge (wc_tcp_buffer_size w)),
       (lc_relay_buffer_size l < 4096, RelayBufferTooSmall (lc_relay_buffer_size l)),
       (1024 * 1024 < lc_relay_buffer_size l, RelayBufferTooLarge (lc_relay_buffer_size l)),
       (\<not> (1 \<le> lc_max_concurrent_connections l \<and> lc_max_concurrent_connections l \<le> 16384),
          MaxConnectionsRange (lc_max_concurrent_connections l)),
       (lc_max_pending_dials l = 0 \<or> lc_max_concurrent_connections l < lc_max_pending_dials l,
          PendingDialsRange (lc_max_pending_dials l) (lc_max_concurrent_connections l)),
       (lc_connect_timeout l = 0, ConnectTimeoutZero),
       (lc_handshake_timeout l = 0 \<or> lc_idle_timeout l = 0, HandshakeIdleTimeoutZero),
       (lc_happy_eyeballs_delay l = 0, HappyEyeballsDelayZero),
       (\<not> (1 \<le> lc_max_dial_candidates l \<and> lc_max_dial_candidates l \<le> 32), DialCandidatesRange),
       (\<not> (1 \<le> lc_max_parallel_dials l \<and> lc_max_parallel_dials l \<le> 4), ParallelDialsRange),
       (32768 < saturating_add (lc_max_concurrent_connections l) (max_dial_ports l),
          DialPortCapacity),
       (dc_max_cache_entries d = 0 \<or> 1000000 < dc_max_cache_entries d, DnsCacheEntriesRange),
       (dc_timeout d = 0, DnsTimeoutZero),
       (dc_mode d = Tunnel \<and> dc_servers d = [], DnsServersEmpty)])"

definition estimated_capacity :: "config \<Rightarrow> nat" where
  "estimated_capacity c =
     (let t = wc_tcp_buffer_size (cfg_warp c); l = cfg_limits c;
          established = saturating_mul
            (saturating_add (saturating_mul t 2) (saturating_mul (lc_relay_buffer_size l) 2))
            (lc_max_concurrent_connections l);
          extra = saturating_mul (saturating_mul (saturating_mul t 2) (lc_max_parallel_dials l - 1))
            (lc_max_pending_dials l)
      in saturating_add established extra)"

text \<open>The comparison of \<open>capacity as f64 / total as f64\<close> with a double: a zero total gives \<open>inf\<close>
  (or \<open>NaN\<close> for \<open>0 / 0\<close>, which no comparison accepts).\<close>

definition f64_ratio_ge :: "nat \<Rightarrow> nat \<Rightarrow> rat \<Rightarrow> bool" where
  "f64_ratio_ge a b q =
     (if b = 0 then a \<noteq> 0 else q \<le> f64_div (f64_of_nat a) (f64_of_nat b))"

definition check_memory :: "host_env \<Rightarrow> config \<Rightarrow> verdict" where
  "check_memory env c =
     (let capacity = estimated_capacity c in
      case total_system_memory_bytes (he_meminfo env) of
        Some tot \<Rightarrow>
          if f64_ratio_ge capacity tot f64_0_8 then ([], Err (MemoryGuard capacity tot))
          else if f64_ratio_ge capacity tot f64_0_5 then ([WarnHalfMemory], Ok ())
          else ([], Ok ())
      | None \<Rightarrow>
          if 2 * 1024 * 1024 * 1024 < capacity then ([WarnCapacity2GiB], Ok ()) else ([], Ok ()))"

definition is_lower :: "char \<Rightarrow> bool" where
  "is_lower c \<longleftrightarrow> (let n = (of_char c :: nat) in 97 \<le> n \<and> n \<le> 122)"

definition is_upper :: "char \<Rightarrow> bool" where
  "is_upper c \<longleftrightarrow> (let n = (of_char c :: nat) in 65 \<le> n \<and> n \<le> 90)"

definition strong_password :: "string \<Rightarrow> bool" where
  "strong_password p \<longleftrightarrow>
     16 \<le> length p \<and> list_ex is_lower p \<and> list_ex is_upper p \<and> list_ex is_digit p"

definition check_auth :: "config \<Rightarrow> verdict" where
  "check_auth c =
     ([], case srv_auth (cfg_server c) of
            None \<Rightarrow> Ok ()
          | Some a \<Rightarrow>
              first_err
                [(auth_username a = [] \<or> auth_password a = [], AuthEmpty),
                 (length (auth_password a) < 8, PasswordTooShort (length (auth_password a))),
                 (\<not> is_loopback (sa_ip (srv_bind (cfg_server c)))
                    \<and> \<not> strong_password (auth_password a), PasswordWeak)])"

definition validate_with :: "host_env \<Rightarrow> bool \<Rightarrow> bool \<Rightarrow> config \<Rightarrow> verdict" where
  "validate_with env is_container trusted c =
     and_check (check_open_proxy env is_container trusted c)
    (and_check (check_metrics c)
    (and_check ([], first_err (range_checks c))
    (and_check (check_memory env c) (check_auth c))))"

definition validate_with_container :: "host_env \<Rightarrow> bool \<Rightarrow> config \<Rightarrow> verdict" where
  "validate_with_container env is_container c =
     validate_with env is_container (he_trusted_host_net env = Some ''1'') c"

definition validate :: "host_env \<Rightarrow> config \<Rightarrow> verdict" where
  "validate env c =
     validate_with_container env (detect_container (he_dockerenv env) (he_cgroup env)) c"

section \<open>Acceptance as a conjunction\<close>

lemma and_check_Ok [simp]: "snd (and_check v w) = Ok u \<longleftrightarrow> snd v = Ok () \<and> snd w = Ok u"
  by (cases "(v, w)" rule: and_check.cases) auto

lemma first_err_Ok [simp]: "first_err l = Ok u \<longleftrightarrow> list_all (\<lambda>(bad, e). \<not> bad) l"
  by (induction l rule: first_err.induct) auto

declare first_err.simps [simp del]

lemma first_err_no_panic [simp]: "first_err l \<noteq> Panic"
  by (induction l rule: first_err.induct) (auto simp: first_err.simps)

definition open_proxy_ok :: "host_env \<Rightarrow> bool \<Rightarrow> bool \<Rightarrow> config \<Rightarrow> bool" where
  "open_proxy_ok env is_container trusted c \<longleftrightarrow>
     is_loopback (sa_ip (srv_bind (cfg_server c))) \<or> srv_auth (cfg_server c) \<noteq> None \<or>
     he_allow_open_proxy env = Some ''1'' \<or>
     (is_container \<and> trusted \<and> sa_ip (srv_bind (cfg_server c)) = V4 ipv4_unspecified)"

lemma check_open_proxy_Ok [simp]:
  "snd (check_open_proxy env k t c) = Ok u \<longleftrightarrow> open_proxy_ok env k t c"
  by (auto simp: check_open_proxy_def open_proxy_ok_def Let_def)

lemma check_metrics_Ok [simp]: "snd (check_metrics c) = Ok u"
  by (simp add: check_metrics_def)

lemma validate_with_Ok:
  "snd (validate_with env k t c) = Ok () \<longleftrightarrow>
     open_proxy_ok env k t c \<and> first_err (range_checks c) = Ok () \<and>
     snd (check_memory env c) = Ok () \<and> snd (check_auth c) = Ok ()"
  by (simp only: validate_with_def and_check_Ok check_open_proxy_Ok check_metrics_Ok snd_conv
      simp_thms)

lemma check_auth_strong:
  assumes "snd (check_auth c) = Ok ()" "srv_auth (cfg_server c) = Some a"
  shows "auth_username a \<noteq> []" "8 \<le> length (auth_password a)"
    "is_loopback (sa_ip (srv_bind (cfg_server c))) \<or> strong_password (auth_password a)"
  using assms by (auto simp: check_auth_def)

text \<open>C1. Open-proxy safety: a configuration that start-up accepts listens on a loopback address, or
  asks for credentials whose password is strong (16 bytes with lower case, upper case and digit), or
  the operator set \<open>WARP_RUST_ALLOW_OPEN_PROXY=1\<close>, or it listens on exactly \<open>0.0.0.0\<close> inside a
  container with \<open>WARP_RUST_TRUSTED_HOST_NET=1\<close>.\<close>

theorem validate_no_open_proxy:
  assumes "snd (validate env c) = Ok ()"
  shows "is_loopback (sa_ip (srv_bind (cfg_server c)))
    \<or> (\<exists>a. srv_auth (cfg_server c) = Some a \<and> auth_username a \<noteq> [] \<and> strong_password (auth_password a))
    \<or> he_allow_open_proxy env = Some ''1''
    \<or> (he_trusted_host_net env = Some ''1'' \<and> sa_ip (srv_bind (cfg_server c)) = V4 ipv4_unspecified
        \<and> detect_container (he_dockerenv env) (he_cgroup env))"
  using assms check_auth_strong [of c]
  by (auto simp: validate_def validate_with_container_def validate_with_Ok open_proxy_ok_def)

section \<open>Limits of an accepted configuration\<close>

text \<open>The facts the other components rely on, from the range checks alone.\<close>

lemma accepted_ranges:
  assumes "first_err (range_checks c) = Ok ()"
  shows "576 \<le> wc_mtu (cfg_warp c)" "wc_mtu (cfg_warp c) \<le> 1420"
    and "0 < hc_min_successes (cfg_health c)"
    and "hc_min_successes (cfg_health c) \<le> length (hc_targets (cfg_health c))"
    and "0 < rc_reconnect_after (cfg_recovery c)"
    and "rc_reconnect_after (cfg_recovery c) \<le> rc_rebuild_config_after (cfg_recovery c)"
    and "rc_rebuild_config_after (cfg_recovery c) \<le> rc_reregister_after (cfg_recovery c)"
    and "rc_reregister_after (cfg_recovery c) \<le> rc_rotate_identity_after (cfg_recovery c)"
    and "rc_backoff_min (cfg_recovery c) \<le> rc_backoff_max (cfg_recovery c)"
    and "wc_tcp_buffer_size (cfg_warp c) \<le> 8388608"
    and "lc_relay_buffer_size (cfg_limits c) \<le> 1048576"
    and "1 \<le> lc_max_concurrent_connections (cfg_limits c)"
    and "lc_max_concurrent_connections (cfg_limits c) \<le> 16384"
    and "1 \<le> lc_max_pending_dials (cfg_limits c)"
    and "lc_max_pending_dials (cfg_limits c) \<le> lc_max_concurrent_connections (cfg_limits c)"
    and "1 \<le> lc_max_dial_candidates (cfg_limits c)" "lc_max_dial_candidates (cfg_limits c) \<le> 32"
    and "1 \<le> lc_max_parallel_dials (cfg_limits c)" "lc_max_parallel_dials (cfg_limits c) \<le> 4"
    and "0 < dc_max_cache_entries (cfg_dns c)"
    and "0 < wc_tcp_buffer_size (cfg_warp c)" "0 < lc_happy_eyeballs_delay (cfg_limits c)"
  using assms by (auto simp: range_checks_def Let_def word_gt_0)

lemma accepted_max_dial_ports:
  assumes "first_err (range_checks c) = Ok ()"
  shows "max_dial_ports (cfg_limits c) =
    lc_max_pending_dials (cfg_limits c) * (lc_max_parallel_dials (cfg_limits c) - 1)"
proof -
  have "lc_max_pending_dials (cfg_limits c) * (lc_max_parallel_dials (cfg_limits c) - 1) \<le> 16384 * 3"
    using accepted_ranges(13,15,19) [OF assms] by (intro mult_le_mono) auto
  then show ?thesis
    unfolding max_dial_ports_def by (intro saturating_mul_exact) (simp add: usize_max_def)
qed

lemma accepted_port_capacity:
  assumes "first_err (range_checks c) = Ok ()"
  shows "lc_max_concurrent_connections (cfg_limits c) +
    lc_max_pending_dials (cfg_limits c) * (lc_max_parallel_dials (cfg_limits c) - 1) \<le> 32768"
proof -
  have "saturating_add (lc_max_concurrent_connections (cfg_limits c)) (max_dial_ports (cfg_limits c))
      \<le> 32768"
    using assms by (auto simp: range_checks_def Let_def)
  from saturating_add_le [OF this] show ?thesis
    by (simp add: usize_max_def accepted_max_dial_ports [OF assms])
qed

section \<open>The memory guard\<close>

lemma saturating_small:
  "a \<le> A \<Longrightarrow> b \<le> B \<Longrightarrow> A * B \<le> usize_max \<Longrightarrow> saturating_mul a b = a * b"
  by (meson le_trans mult_le_mono saturating_mul_exact)

text \<open>Within the accepted ranges no step of the estimate saturates.\<close>

lemma estimated_capacity_exact:
  assumes "first_err (range_checks c) = Ok ()"
  shows "estimated_capacity c =
      (2 * wc_tcp_buffer_size (cfg_warp c) + 2 * lc_relay_buffer_size (cfg_limits c))
        * lc_max_concurrent_connections (cfg_limits c)
    + 2 * wc_tcp_buffer_size (cfg_warp c) * (lc_max_parallel_dials (cfg_limits c) - 1)
        * lc_max_pending_dials (cfg_limits c)" (is "_ = ?e")
    and "estimated_capacity c < 2 ^ 53" "0 < estimated_capacity c"
proof -
  define t r n d k where
    defs: "t = wc_tcp_buffer_size (cfg_warp c)" "r = lc_relay_buffer_size (cfg_limits c)"
      "n = lc_max_concurrent_connections (cfg_limits c)" "d = lc_max_pending_dials (cfg_limits c)"
      "k = lc_max_parallel_dials (cfg_limits c) - 1"
  have b: "t \<le> 8388608" "r \<le> 1048576" "n \<le> 16384" "d \<le> 16384" "k \<le> 3" "0 < n" "0 < t"
    using accepted_ranges [OF assms] by (auto simp: defs)
  have s: "saturating_mul t 2 = 2 * t" "saturating_mul r 2 = 2 * r"
      "saturating_add (2 * t) (2 * r) = 2 * t + 2 * r"
    using b by (simp_all add: saturating_mul_def saturating_add_def usize_max_def)
  have e1: "(2 * t + 2 * r) * n \<le> 18874368 * 16384" using b by (intro mult_le_mono) auto
  have e2: "2 * t * k * d \<le> 16777216 * 3 * 16384" using b by (intro mult_le_mono) auto
  have m: "saturating_mul (2 * t + 2 * r) n = (2 * t + 2 * r) * n"
    using e1 by (intro saturating_mul_exact) (simp add: usize_max_def)
  have k: "saturating_mul (2 * t) k = 2 * t * k"
    using b by (intro saturating_small [of _ 16777216 _ 3]) (auto simp: usize_max_def)
  have m2: "saturating_mul (2 * t * k) d = 2 * t * k * d"
    using e2 by (intro saturating_mul_exact) (rule le_trans, assumption, simp add: usize_max_def)
  have sum: "(2 * t + 2 * r) * n + 2 * t * k * d < 9007199254740992"
    using add_le_mono [OF e1 e2] by (rule le_less_trans) simp
  have "saturating_add ((2 * t + 2 * r) * n) (2 * t * k * d) = (2 * t + 2 * r) * n + 2 * t * k * d"
    using sum by (intro saturating_add_exact) (simp add: usize_max_def)
  then have cap: "estimated_capacity c = (2 * t + 2 * r) * n + 2 * t * k * d"
    unfolding estimated_capacity_def Let_def defs [symmetric] s m k m2 .
  then show "estimated_capacity c = ?e" by (simp add: defs)
  show "estimated_capacity c < 2 ^ 53" unfolding cap using sum by simp
  show "0 < estimated_capacity c" unfolding cap using b by simp
qed

lemma check_memory_Ok:
  assumes "first_err (range_checks c) = Ok ()"
    and "total_system_memory_bytes (he_meminfo env) = Some tot" "tot < 2 ^ 53"
  shows "snd (check_memory env c) = Ok () \<longleftrightarrow> 5 * estimated_capacity c < 4 * tot"
proof (cases "tot = 0")
  case True
  then show ?thesis using assms estimated_capacity_exact(3) [OF assms(1)]
    by (simp add: check_memory_def f64_ratio_ge_def Let_def)
next
  case False
  then show ?thesis
    using assms f64_div_ge_0_8 [of tot "estimated_capacity c"] estimated_capacity_exact(2) [OF assms(1)]
    by (auto simp: check_memory_def f64_ratio_ge_def Let_def not_le)
qed

text \<open>C25. Memory guard: for a configuration whose other checks pass, on a host that reports \<open>tot\<close>
  bytes of memory, start-up accepts exactly when the buffers of full concurrency
  (\<open>2 tcp + 2 relay\<close> per connection, \<open>2 tcp\<close> per extra parallel dial) stay strictly below 80 percent
  of \<open>tot\<close>: neither the saturating arithmetic nor the division of doubles distorts the verdict.\<close>

theorem memory_guard_exact:
  assumes "first_err (range_checks c) = Ok ()" "open_proxy_ok env k t c" "snd (check_auth c) = Ok ()"
    and "total_system_memory_bytes (he_meminfo env) = Some tot" "tot < 2 ^ 53"
  shows "snd (validate_with env k t c) = Ok () \<longleftrightarrow>
    5 * ((2 * wc_tcp_buffer_size (cfg_warp c) + 2 * lc_relay_buffer_size (cfg_limits c))
           * lc_max_concurrent_connections (cfg_limits c)
         + 2 * wc_tcp_buffer_size (cfg_warp c) * (lc_max_parallel_dials (cfg_limits c) - 1)
           * lc_max_pending_dials (cfg_limits c)) < 4 * tot"
  using assms check_memory_Ok [OF assms(1,4,5)]
  unfolding estimated_capacity_exact(1) [OF assms(1), symmetric] by (simp add: validate_with_Ok)

section \<open>The defaults\<close>

lemma clamp_bounds: "lo \<le> hi \<Longrightarrow> lo \<le> clamp x lo hi \<and> clamp x lo hi \<le> hi"
  by (auto simp: clamp_def)

lemma default_max_range:
  "1024 \<le> default_max_concurrent_connections mem" "default_max_concurrent_connections mem \<le> 16384"
  using clamp_bounds [of 1024 16384] by (auto simp: default_max_concurrent_connections_def split: option.splits)

lemma default_checks:
  "first_err (range_checks (default_config mem)) = Ok ()"
  "open_proxy_ok env k t (default_config mem)" "snd (check_auth (default_config mem)) = Ok ()"
  using default_max_range [of mem]
  by (auto simp: range_checks_def config_simps Let_def open_proxy_ok_def check_auth_def
      max_dial_ports_def saturating_mul_def saturating_add_def usize_max_def from_secs_def
      from_millis_def first_err.simps)

lemma default_capacity:
  "estimated_capacity (default_config mem) =
     327680 * default_max_concurrent_connections mem + 134217728"
  unfolding estimated_capacity_exact(1) [OF default_checks(1)] by (simp add: config_simps)

lemma adaptive_guard:
  "5 * (327680 * default_max_concurrent_connections (Some tot) + 134217728) < 4 * tot
     \<longleftrightarrow> 587202560 < tot"
proof -
  define q where "q = tot div 2 div 327680"
  have q: "q * 327680 \<le> tot div 2" "tot div 2 < (q + 1) * 327680"
    unfolding q_def by (simp_all add: dividend_less_div_times mult.commute)
  have "default_max_concurrent_connections (Some tot) =
      (if q < 1024 then 1024 else if 16384 < q then 16384 else q)"
    by (simp add: default_max_concurrent_connections_def clamp_def config_simps q_def)
  with q show ?thesis by auto
qed

text \<open>Property. The shipped defaults against their own memory guard. The adaptive connection limit is
  always within the validated range, and on a host that reports \<open>tot\<close> bytes the default
  configuration is accepted exactly above 560 MiB: the floor of 1024 connections makes a smaller
  host refuse to start.\<close>

theorem default_config_accepted_iff:
  assumes "total_system_memory_bytes (he_meminfo env) = Some tot" "tot < 2 ^ 53"
  shows "1024 \<le> default_max_concurrent_connections (Some tot)
    \<and> default_max_concurrent_connections (Some tot) \<le> 16384
    \<and> (snd (validate env (default_config (Some tot))) = Ok () \<longleftrightarrow> 560 * 1024 * 1024 < tot)"
  using check_memory_Ok [OF default_checks(1) assms] default_checks default_max_range [of "Some tot"]
    adaptive_guard [of tot]
  by (simp add: validate_def validate_with_container_def validate_with_Ok default_capacity)

section \<open>Witnesses\<close>

lemma meminfo_lines:
  "List.map_filter (\<lambda>l. strip_prefix l ''MemTotal:'') (str_lines ''MemTotal: 573441 kB'') = ['' 573441 kB'']"
  "List.map_filter (\<lambda>l. strip_prefix l ''MemTotal:'') (str_lines ''MemTotal: 524288 kB'') = ['' 524288 kB'']"
  "trim (trim_end_matches (trim '' 573441 kB'') '' kB'') = ''573441''"
  "trim (trim_end_matches (trim '' 524288 kB'') '' kB'') = ''524288''"
  by code_simp+

lemma total_memory_examples:
  "total_system_memory_bytes (Some ''MemTotal: 573441 kB'') = Some 587203584"
  "total_system_memory_bytes (Some ''MemTotal: 524288 kB'') = Some 536870912"
  unfolding total_system_memory_bytes_def
  by (simp_all add: meminfo_lines parse_unsigned_def is_digit_def usize_max_def)

lemma range_checks_server [simp]: "range_checks (c\<lparr>cfg_server := s\<rparr>) = range_checks c"
  by (simp add: range_checks_def)

definition witness_env :: host_env where
  "witness_env = \<lparr>he_allow_open_proxy = None, he_trusted_host_net = None, he_dockerenv = False,
     he_cgroup = None, he_meminfo = None\<rparr>"

definition witness_public :: config where
  "witness_public = default_config None
     \<lparr>cfg_server := \<lparr>srv_bind = SA4 ipv4_unspecified 1080,
        srv_auth = Some \<lparr>auth_username = ''u'', auth_password = ''MyStrongPass123!''\<rparr>\<rparr>\<rparr>"

theorem validate_no_open_proxy_witness:
  "snd (validate witness_env witness_public) = Ok ()
   \<and> (\<exists>a. srv_auth (cfg_server witness_public) = Some a \<and> strong_password (auth_password a))"
proof -
  have "snd (check_auth witness_public) = Ok ()" "open_proxy_ok witness_env False False witness_public"
    by (simp_all add: check_auth_def open_proxy_ok_def witness_public_def strong_password_def
        is_lower_def is_upper_def is_digit_def)
  then have ok: "snd (validate witness_env witness_public) = Ok ()"
    using default_checks(1) [of None]
    by (simp add: validate_def validate_with_container_def validate_with_Ok detect_container_def
        witness_env_def witness_public_def check_memory_def total_system_memory_bytes_def Let_def)
  have "\<not> is_loopback (sa_ip (srv_bind (cfg_server witness_public)))"
    "he_allow_open_proxy witness_env \<noteq> Some ''1''" "he_trusted_host_net witness_env \<noteq> Some ''1''"
    by (simp_all add: witness_public_def witness_env_def ipv4_unspecified_def)
  with ok validate_no_open_proxy [OF ok] show ?thesis by blast
qed

definition witness_mem_env :: host_env where
  "witness_mem_env = witness_env\<lparr>he_meminfo := Some ''MemTotal: 573441 kB''\<rparr>"

theorem memory_guard_exact_witness:
  "snd (validate_with witness_mem_env False False (default_config (Some 587203584))) = Ok ()"
proof -
  let ?c = "default_config (Some 587203584)"
  have "first_err (range_checks ?c) = Ok ()" "open_proxy_ok witness_mem_env False False ?c"
    "snd (check_auth ?c) = Ok ()"
    by (rule default_checks)+
  moreover have "total_system_memory_bytes (he_meminfo witness_mem_env) = Some 587203584"
    by (simp add: witness_mem_env_def total_memory_examples)
  ultimately show ?thesis
    using memory_guard_exact [of ?c witness_mem_env False False 587203584]
    by (simp add: config_simps default_max_concurrent_connections_def clamp_def)
qed

theorem default_config_accepted_iff_witness:
  "snd (validate (witness_env\<lparr>he_meminfo := Some ''MemTotal: 524288 kB''\<rparr>)
     (default_config (Some 536870912))) \<noteq> Ok ()"
proof -
  have "total_system_memory_bytes
      (he_meminfo (witness_env\<lparr>he_meminfo := Some ''MemTotal: 524288 kB''\<rparr>)) = Some 536870912"
    by (simp add: total_memory_examples)
  from default_config_accepted_iff [OF this] show ?thesis by simp
qed

end
