(* ===== verification/Dns_Wire.thy ===== *)
theory Dns_Wire
  imports Prelude Rust_Str Net_Types
begin

text \<open>
  The hand-written DNS wire format of \<open>src/dns.rs\<close>: \<open>build_dns_query\<close>, \<open>skip_name\<close> and
  \<open>parse_dns_answers\<close>. Every index and slice of the source is checked here, so that parsing an
  attacker's datagram without a panic is a theorem. A reply encoder serves as the specification of
  what a server may send, and parsing inverts it.
\<close>

section \<open>Model\<close>

definition QTYPE_A :: u16 where "QTYPE_A = 1"

definition QTYPE_AAAA :: u16 where "QTYPE_AAAA = 28"

lemma qtypes_differ [simp]: "QTYPE_A \<noteq> QTYPE_AAAA" "QTYPE_AAAA \<noteq> QTYPE_A"
  by (simp_all add: QTYPE_A_def QTYPE_AAAA_def)

definition is_ascii :: "string \<Rightarrow> bool" where
  "is_ascii s \<longleftrightarrow> list_all (\<lambda>c. (of_char c :: nat) < 128) s"

definition as_bytes :: "string \<Rightarrow> bytes" where
  "as_bytes s = map of_char s"

fun push_labels :: "string \<Rightarrow> bytes \<Rightarrow> string list \<Rightarrow> bytes res" where
  "push_labels host buf [] = Ok buf"
| "push_labels host buf (label # rest) =
     (if label = [] \<or> 63 < length label then Err (Other (InvalidDnsLabel host))
      else let buf' = buf @ [word_of_nat (length label)] @ as_bytes label in
        if 255 < length buf' - 12 + 1 then Err (other ''DNS name exceeds 255 wire bytes'')
        else push_labels host buf' rest)"

definition build_dns_query :: "string \<Rightarrow> u16 \<Rightarrow> u16 \<Rightarrow> bytes res" where
  "build_dns_query host0 qtype txid =
     (let host = (case strip_suffix host0 ''.'' of Some h \<Rightarrow> h | None \<Rightarrow> host0) in
      if host = [] \<or> \<not> is_ascii host then Err (other ''DNS host must be non-empty ASCII/punycode'')
      else
        let buf = to_be16 txid @ to_be16 0x0100 @ to_be16 1 @ to_be16 0 @ to_be16 0 @ to_be16 0 in
        and_then (push_labels host buf (split_on (CHR ''.'') host)) (\<lambda>buf.
          Ok (buf @ [0] @ to_be16 qtype @ to_be16 1)))"

function skip_name :: "bytes \<Rightarrow> nat \<Rightarrow> nat res" where
  "skip_name buf off =
     (if length buf \<le> off then Err (other ''DNS name out of bounds'')
      else
        let b = buf ! off in
        if b = 0 then Ok (off + 1)
        else if b AND 0xC0 = 0xC0 then
          (case checked_add off 2 of
             None \<Rightarrow> Err (other ''DNS compression pointer overflow'')
           | Some e \<Rightarrow>
               if length buf < e then Err (other ''DNS compression pointer truncated'') else Ok e)
        else if b AND 0xC0 \<noteq> 0 then Err (other ''invalid DNS label tag'')
        else
          (case checked_add off (1 + unat b) of
             None \<Rightarrow> Err (other ''DNS name offset overflow'')
           | Some off' \<Rightarrow> skip_name buf off'))"
  by pat_completeness auto

termination
  by (relation "measure (\<lambda>(buf, off). length buf - off)") auto

declare skip_name.simps [simp del]

definition u16_at :: "bytes \<Rightarrow> nat \<Rightarrow> u16 res" where
  "u16_at buf i = and_then (idx buf i) (\<lambda>hi. and_then (idx buf (i + 1)) (\<lambda>lo. Ok (be16 hi lo)))"

fun skip_questions :: "bytes \<Rightarrow> nat \<Rightarrow> nat \<Rightarrow> nat res" where
  "skip_questions reply 0 off = Ok off"
| "skip_questions reply (Suc n) off =
     and_then (skip_name reply off) (\<lambda>off.
     and_then (ok_or (checked_add off 4) (other ''DNS truncated'')) (\<lambda>off.
       skip_questions reply n off))"

definition answer_record :: "bytes \<Rightarrow> u16 \<Rightarrow> nat \<Rightarrow> nat \<Rightarrow> ipaddr option res" where
  "answer_record reply qtype rdlen off =
     (if qtype = QTYPE_A \<and> rdlen = 4 then
        and_then (idx reply off) (\<lambda>a. and_then (idx reply (off + 1)) (\<lambda>b.
        and_then (idx reply (off + 2)) (\<lambda>c. and_then (idx reply (off + 3)) (\<lambda>d.
          Ok (Some (V4 (Ipv4Addr a b c d)))))))
      else if qtype = QTYPE_AAAA \<and> rdlen = 16 then
        and_then (slice reply off (off + 16)) (\<lambda>o'. Ok (Some (V6 (ipv6_from o'))))
      else Ok None)"

fun collect_answers :: "bytes \<Rightarrow> u16 \<Rightarrow> nat \<Rightarrow> nat \<Rightarrow> ipaddr list \<Rightarrow> ipaddr list res" where
  "collect_answers reply qtype 0 off records = Ok records"
| "collect_answers reply qtype (Suc n) off records =
     and_then (skip_name reply off) (\<lambda>off.
     and_then (ok_or (checked_add off 10) (other ''DNS answer offset overflow'')) (\<lambda>header_end.
     if length reply < header_end then Err (other ''DNS answer truncated'')
     else
       and_then (u16_at reply off) (\<lambda>rtype.
       and_then (u16_at reply (off + 2)) (\<lambda>cls.
       and_then (u16_at reply (off + 8)) (\<lambda>rdlen.
       and_then (ok_or (checked_add header_end (unat rdlen)) (other ''DNS rdata offset overflow''))
         (\<lambda>rdata_end.
       if length reply < rdata_end then Err (other ''DNS rdata truncated'')
       else
         and_then
           (if cls = 1 \<and> rtype = qtype
            then map_res (\<lambda>o'. case o' of Some ip \<Rightarrow> push_unique records ip | None \<Rightarrow> records)
                   (answer_record reply qtype (unat rdlen) header_end)
            else Ok records)
           (\<lambda>records. collect_answers reply qtype n rdata_end records)))))))"

definition parse_dns_answers :: "bytes \<Rightarrow> u16 \<Rightarrow> u16 \<Rightarrow> ipaddr list res" where
  "parse_dns_answers reply qtype expected_id =
     (if length reply < 12 then Err (other ''DNS reply too short'')
      else
        and_then (u16_at reply 0) (\<lambda>txid.
        if txid \<noteq> expected_id then Err (other ''DNS transaction ID mismatch'')
        else
          and_then (u16_at reply 2) (\<lambda>flags.
          if flags AND 0x8000 = 0 then Err (other ''DNS packet is not a response'')
          else if flags AND 0x0200 \<noteq> 0 then Err (other ''truncated DNS UDP response'')
          else if flags AND 0x000F \<noteq> 0 then Err (Other (DnsRcode (flags AND 0x000F)))
          else
            and_then (u16_at reply 4) (\<lambda>qd.
            and_then (u16_at reply 6) (\<lambda>an.
            if an = 0 then Err (other ''DNS reply has no answer (NXDOMAIN or empty)'')
            else
              and_then (skip_questions reply (unat qd) 12) (\<lambda>off.
              and_then (collect_answers reply qtype (unat an) off []) (\<lambda>records.
              if records = [] then Err (Other (NoQtypeRecord qtype)) else Ok records)))))))"

section \<open>No panics, and what a successful parse guarantees\<close>

lemma skip_name_no_panic [no_panic]: "skip_name buf off \<noteq> Panic"
proof (induction buf off rule: skip_name.induct)
  case (1 buf off)
  then show ?case
    by (subst skip_name.simps) (auto simp: Let_def split: option.splits if_splits)
qed

lemma skip_name_bounds: "skip_name buf off = Ok e \<Longrightarrow> off < e \<and> e \<le> length buf"
proof (induction buf off rule: skip_name.induct)
  case (1 buf off)
  have "off < length buf \<Longrightarrow> buf ! off \<noteq> 0 \<Longrightarrow> buf ! off AND 0xC0 = 0 \<Longrightarrow>
      Suc (off + unat (buf ! off)) \<le> usize_max \<Longrightarrow>
      skip_name buf (Suc (off + unat (buf ! off))) = Ok e \<Longrightarrow>
      Suc (off + unat (buf ! off)) < e \<and> e \<le> length buf"
    using 1(1) [OF _ refl] by simp
  with 1(2) show ?case
    by (subst (asm) skip_name.simps) (auto simp: Let_def not_le split: option.splits if_splits)
qed

lemma u16_at_no_panic [no_panic]: "i + 1 < length buf \<Longrightarrow> u16_at buf i \<noteq> Panic"
  by (simp add: u16_at_def)

lemma u16_at_Ok: "i + 1 < length buf \<Longrightarrow> u16_at buf i = Ok (be16 (buf ! i) (buf ! (i + 1)))"
  by (simp add: u16_at_def)

lemma skip_questions_no_panic [no_panic]: "skip_questions reply n off \<noteq> Panic"
  by (induction n arbitrary: off) (auto simp: no_panic)

lemma answer_record_no_panic [no_panic]:
  "off + rdlen \<le> length reply \<Longrightarrow> answer_record reply qtype rdlen off \<noteq> Panic"
  by (auto simp: answer_record_def)

lemma collect_answers_no_panic [no_panic]: "collect_answers reply qtype n off records \<noteq> Panic"
  by (induction n arbitrary: off records) (auto simp: no_panic)

definition in_family :: "u16 \<Rightarrow> ipaddr \<Rightarrow> bool" where
  "in_family qtype ip \<longleftrightarrow>
     (qtype = QTYPE_A \<and> ip_is_v4 ip) \<or> (qtype = QTYPE_AAAA \<and> \<not> ip_is_v4 ip)"

lemma answer_record_family:
  "answer_record reply qtype rdlen off = Ok (Some ip) \<Longrightarrow> in_family qtype ip"
  by (auto simp: answer_record_def in_family_def split: if_splits)

definition good_records :: "u16 \<Rightarrow> ipaddr list \<Rightarrow> bool" where
  "good_records qtype rs \<longleftrightarrow> distinct rs \<and> list_all (in_family qtype) rs"

lemma good_records_Nil [simp]: "good_records qtype []"
  by (simp add: good_records_def)

lemma good_records_push:
  "good_records qtype rs \<Longrightarrow> in_family qtype ip \<Longrightarrow> good_records qtype (push_unique rs ip)"
  by (auto simp: good_records_def list_all_iff)

lemma collect_answers_step:
  assumes "collect_answers reply qtype (Suc n) off rs = Ok rs'"
  obtains off1 rdlen rs1 where "skip_name reply off = Ok off1"
    "off1 + 10 + unat (rdlen :: u16) \<le> length reply"
    "rs1 = rs \<or> (\<exists>ip. rs1 = push_unique rs ip \<and> in_family qtype ip)"
    "collect_answers reply qtype n (off1 + 10 + unat rdlen) rs1 = Ok rs'"
  using assms
  by (auto simp: not_less split: if_split_asm option.split_asm)
    (blast dest: answer_record_family intro: that)+

text \<open>Each answer takes at least twelve bytes, so the reply's length also bounds the records.\<close>

lemma collect_answers_good:
  assumes "collect_answers reply qtype n off rs = Ok rs'" "good_records qtype rs"
  shows "good_records qtype rs' \<and> length rs' \<le> length rs + n
    \<and> (off \<le> length reply \<longrightarrow> 11 * length rs' + off \<le> 11 * length rs + length reply)"
  using assms
proof (induction n arbitrary: off rs)
  case (Suc n)
  from Suc.prems(1) obtain off1 rdlen rs1 where
    s: "skip_name reply off = Ok off1" and h: "off1 + 10 + unat (rdlen :: u16) \<le> length reply"
    and rs1: "rs1 = rs \<or> (\<exists>ip. rs1 = push_unique rs ip \<and> in_family qtype ip)"
    and rest: "collect_answers reply qtype n (off1 + 10 + unat rdlen) rs1 = Ok rs'"
    by (rule collect_answers_step)
  have l: "length rs1 \<le> length rs + 1" using rs1 by (auto simp: push_unique_def)
  have "good_records qtype rs1" using rs1 Suc.prems(2) by (auto intro: good_records_push)
  with Suc.IH [OF rest] h skip_name_bounds [OF s] l show ?case by auto
qed auto

lemma collect_answers_Suc:
  "collect_answers reply qtype (unat an) off [] = Ok rs \<Longrightarrow> rs \<noteq> [] \<Longrightarrow>
     \<exists>n. collect_answers reply qtype (Suc n) off [] = Ok rs"
  by (metis collect_answers.simps(1) not0_implies_Suc result.inject(1))

lemma parse_dns_answers_good:
  assumes "parse_dns_answers reply qtype txid = Ok rs"
  shows "rs \<noteq> [] \<and> distinct rs \<and> list_all (in_family qtype) rs \<and> 11 * length rs \<le> length reply"
proof -
  from assms obtain off n where ne: "rs \<noteq> []" and c: "collect_answers reply qtype (Suc n) off [] = Ok rs"
    by (auto simp: parse_dns_answers_def unat_eq_0 split: if_splits dest!: collect_answers_Suc)
  note g = collect_answers_good [OF c good_records_Nil]
  from c obtain off1 where "skip_name reply off = Ok off1" by auto
  with g skip_name_bounds have "11 * length rs \<le> length reply" by fastforce
  with ne g show ?thesis by (simp add: good_records_def)
qed

lemma parse_dns_answers_no_panic [no_panic]: "parse_dns_answers reply qtype txid \<noteq> Panic"
  unfolding parse_dns_answers_def by (auto simp: no_panic not_less)

text \<open>C20. Robustness of the DNS parser: whatever bytes arrive, \<open>parse_dns_answers\<close> returns and never
  indexes out of range; and a successful parse yields a non-empty, duplicate-free list of addresses
  of the queried family only, whose length the datagram's own size bounds.\<close>

theorem parse_dns_answers_safe:
  "case parse_dns_answers reply qtype txid of
     Ok rs \<Rightarrow> rs \<noteq> [] \<and> distinct rs \<and> list_all (in_family qtype) rs \<and> 11 * length rs \<le> length reply
   | Err e \<Rightarrow> True
   | Panic \<Rightarrow> False"
  using parse_dns_answers_good [of reply qtype txid]
  by (cases "parse_dns_answers reply qtype txid") (simp_all add: no_panic)

section \<open>The query builder\<close>

definition encode_labels :: "string list \<Rightarrow> bytes" where
  "encode_labels ls = concat (map (\<lambda>l. word_of_nat (length l) # as_bytes l) ls)"

definition label_ok :: "string \<Rightarrow> bool" where
  "label_ok l \<longleftrightarrow> l \<noteq> [] \<and> length l \<le> 63"

lemma encode_labels_simps [simp]:
  "encode_labels [] = []"
  "encode_labels (l # ls) = word_of_nat (length l) # as_bytes l @ encode_labels ls"
  by (simp_all add: encode_labels_def)

lemma length_as_bytes [simp, bytes_simps]: "length (as_bytes s) = length s"
  by (simp add: as_bytes_def)

lemma push_labels_Ok:
  "12 \<le> length buf \<Longrightarrow>
   push_labels host buf ls = Ok buf' \<longleftrightarrow>
     list_all label_ok ls \<and> buf' = buf @ encode_labels ls \<and>
     (ls = [] \<or> length buf + length (encode_labels ls) \<le> 266)"
proof (induction host buf ls rule: push_labels.induct)
  case (2 host buf label rest)
  define buf1 where "buf1 = buf @ [word_of_nat (length label)] @ as_bytes label"
  have "push_labels host buf (label # rest) = Ok buf' \<longleftrightarrow>
      label_ok label \<and> length buf1 \<le> 266 \<and> push_labels host buf1 rest = Ok buf'"
    using 2(2) by (auto simp: buf1_def label_ok_def Let_def)
  moreover have "label_ok label \<Longrightarrow> length buf1 \<le> 266 \<Longrightarrow> push_labels host buf1 rest = Ok buf' \<longleftrightarrow>
      list_all label_ok rest \<and> buf' = buf1 @ encode_labels rest \<and>
      (rest = [] \<or> length buf1 + length (encode_labels rest) \<le> 266)"
    using 2(1) [of buf1] 2(2) by (auto simp: buf1_def label_ok_def [of label])
  ultimately show ?case by (auto simp: buf1_def)
qed auto

definition query_host :: "string \<Rightarrow> string" where
  "query_host host = (case strip_suffix host ''.'' of Some h \<Rightarrow> h | None \<Rightarrow> host)"

definition query_header :: "u16 \<Rightarrow> bytes" where
  "query_header txid =
     to_be16 txid @ to_be16 0x0100 @ to_be16 1 @ to_be16 0 @ to_be16 0 @ to_be16 0"

lemma length_query_header [simp]: "length (query_header txid) = 12"
  by (simp add: query_header_def)

lemma build_dns_query_Ok:
  "build_dns_query host qtype txid = Ok buf \<longleftrightarrow>
     query_host host \<noteq> [] \<and> is_ascii (query_host host) \<and>
     list_all label_ok (split_on (CHR ''.'') (query_host host)) \<and>
     length (encode_labels (split_on (CHR ''.'') (query_host host))) + 1 \<le> 255 \<and>
     buf = query_header txid @ encode_labels (split_on (CHR ''.'') (query_host host)) @ [0] @
       to_be16 qtype @ to_be16 1"
  using push_labels_Ok [of "query_header txid"]
  unfolding build_dns_query_def Let_def query_host_def [symmetric] query_header_def [symmetric]
  by auto

text \<open>A label's length byte is neither the terminator nor a compression pointer.\<close>

lemma label_byte:
  assumes "label_ok l"
  shows "unat (word_of_nat (length l) :: u8) = length l" "(word_of_nat (length l) :: u8) \<noteq> 0"
    "(word_of_nat (length l) :: u8) AND 0xC0 = 0"
proof -
  have l: "0 < length l" "length l < 64" using assms by (auto simp: label_ok_def)
  then show u: "unat (word_of_nat (length l) :: u8) = length l" by (simp add: unat_of_nat)
  show "(word_of_nat (length l) :: u8) \<noteq> 0" using u l by (metis less_not_refl unat_0)
  have "\<forall>w :: u8. w < 64 \<longrightarrow> w AND 0xC0 = 0"
  proof (intro allI impI bit_word_eqI)
    fix w :: u8 and n :: nat assume "w < 64" "n < LENGTH(8)"
    then have "take_bit 6 w = w" by (simp add: word_less_nat_alt take_bit_eq_mod word_unat_eq_iff unat_mod)
    then have "bit w n \<Longrightarrow> n < 6" by (metis bit_take_bit_iff)
    moreover have "(0xC0 :: u8) = push_bit 6 3" by simp
    ultimately show "bit (w AND 0xC0) n = bit 0 n"
      by (simp only: bit_and_iff bit_push_bit_iff) auto
  qed
  moreover have "(word_of_nat (length l) :: u8) < 64" using u l by (simp add: word_less_nat_alt)
  ultimately show "(word_of_nat (length l) :: u8) AND 0xC0 = 0" by blast
qed

lemma skip_name_labels:
  assumes "list_all label_ok ls" "length (pre @ encode_labels ls @ 0 # suf) \<le> usize_max"
  shows "skip_name (pre @ encode_labels ls @ 0 # suf) (length pre)
    = Ok (length pre + length (encode_labels ls) + 1)"
  using assms
proof (induction ls arbitrary: pre)
  case Nil
  show ?case by (subst skip_name.simps) (simp add: nth_append)
next
  case (Cons l ls)
  let ?pre = "pre @ word_of_nat (length l) # as_bytes l"
  have "skip_name (?pre @ encode_labels ls @ 0 # suf) (length ?pre)
      = Ok (length ?pre + length (encode_labels ls) + 1)"
    using Cons.IH [of ?pre] Cons.prems by simp
  with Cons.prems label_byte [of l] show ?case
    by (subst skip_name.simps) (simp add: nth_append checked_add_def)
qed

text \<open>Property. Soundness of outgoing queries: \<open>build_dns_query\<close> succeeds exactly for non-empty ASCII names
  (one trailing dot ignored) whose labels have 1 to 63 bytes and whose wire form has at most 255, and
  the datagram then is the header, the length-prefixed labels, the root label, the type and class
  \<open>IN\<close>; the crate's own name scanner stops exactly after the name.\<close>

theorem build_dns_query_correct:
  "((\<exists>buf. build_dns_query host qtype txid = Ok buf) \<longleftrightarrow>
     query_host host \<noteq> [] \<and> is_ascii (query_host host) \<and>
     list_all label_ok (split_on (CHR ''.'') (query_host host)) \<and>
     length (encode_labels (split_on (CHR ''.'') (query_host host))) < 255) \<and>
   (\<forall>buf. build_dns_query host qtype txid = Ok buf \<longrightarrow>
     buf = query_header txid @ encode_labels (split_on (CHR ''.'') (query_host host)) @ [0] @
       to_be16 qtype @ to_be16 1 \<and>
     length buf \<le> 271 \<and> skip_name buf 12 = Ok (length buf - 4))"
  (is "?iff \<and> (\<forall>buf. ?B buf \<longrightarrow> ?Q buf)")
proof
  show ?iff by (auto simp: build_dns_query_Ok)
  show "\<forall>buf. ?B buf \<longrightarrow> ?Q buf"
  proof (rule allI, rule impI)
    fix buf assume b: "?B buf"
    let ?ls = "split_on (CHR ''.'') (query_host host)"
    have "skip_name (query_header txid @ encode_labels ?ls @ 0 # to_be16 qtype @ to_be16 1)
        (length (query_header txid)) = Ok (length (query_header txid) + length (encode_labels ?ls) + 1)"
      using b by (intro skip_name_labels) (auto simp: build_dns_query_Ok usize_max_def)
    with b show "?Q buf" by (auto simp: build_dns_query_Ok)
  qed
qed

theorem build_dns_query_correct_witness:
  "build_dns_query ''a.io.'' 1 0x1234 = Ok [0x12, 0x34, 1, 0, 0, 1, 0, 0, 0, 0, 0, 0,
     1, 97, 2, 105, 111, 0, 0, 1, 0, 1]
   \<and> (\<nexists>buf. build_dns_query ''a..io'' 1 0x1234 = Ok buf)"
proof -
  have "build_dns_query ''a.io.'' 1 0x1234 = Ok [0x12, 0x34, 1, 0, 0, 1, 0, 0, 0, 0, 0, 0,
     1, 97, 2, 105, 111, 0, 0, 1, 0, 1]" by code_simp
  moreover have "\<not> list_all label_ok (split_on (CHR ''.'') (query_host ''a..io''))" by code_simp
  ultimately show ?thesis using build_dns_query_correct [of "''a..io''" 1 "0x1234"] by blast
qed

section \<open>Parsing inverts the encoding of a reply\<close>

text \<open>A resource record as a server sends it, its owner name compressed to the question's.\<close>

record resource_record =
  rr_type :: u16
  rr_class :: u16
  rr_ttl :: bytes
  rr_data :: bytes

definition encode_rr :: "resource_record \<Rightarrow> bytes" where
  "encode_rr r = [0xC0, 0x0C] @ to_be16 (rr_type r) @ to_be16 (rr_class r) @ rr_ttl r @
     to_be16 (word_of_nat (length (rr_data r))) @ rr_data r"

definition encode_reply :: "u16 \<Rightarrow> bytes \<Rightarrow> resource_record list \<Rightarrow> bytes" where
  "encode_reply txid question rs =
     to_be16 txid @ to_be16 0x8180 @ to_be16 1 @ to_be16 (word_of_nat (length rs)) @
     to_be16 0 @ to_be16 0 @ question @ concat (map encode_rr rs)"

definition rr_ok :: "resource_record \<Rightarrow> bool" where
  "rr_ok r \<longleftrightarrow> length (rr_ttl r) = 4 \<and> length (rr_data r) < 65536"

definition data_addr :: "u16 \<Rightarrow> bytes \<Rightarrow> ipaddr option" where
  "data_addr qtype d =
     (if qtype = QTYPE_A \<and> length d = 4 then Some (V4 (Ipv4Addr (d ! 0) (d ! 1) (d ! 2) (d ! 3)))
      else if qtype = QTYPE_AAAA \<and> length d = 16 then Some (V6 (ipv6_from d))
      else None)"

definition rr_addr :: "u16 \<Rightarrow> resource_record \<Rightarrow> ipaddr option" where
  "rr_addr qtype r = (if rr_class r = 1 \<and> rr_type r = qtype then data_addr qtype (rr_data r) else None)"

lemma u16_at_append: "i = length pre \<Longrightarrow> u16_at (pre @ to_be16 w @ suf) i = Ok w"
  by (simp add: u16_at_def to_be16_def nth_append)

lemma answer_record_append:
  "i = length pre \<Longrightarrow> n = length d \<Longrightarrow> answer_record (pre @ d @ suf) qtype n i = Ok (data_addr qtype d)"
  by (simp add: answer_record_def data_addr_def nth_append)

lemma skip_name_pointer:
  "length pre + 2 \<le> usize_max \<Longrightarrow> skip_name (pre @ 0xC0 # b # suf) (length pre) = Ok (length pre + 2)"
  by (subst skip_name.simps) (simp add: nth_append checked_add_def)

lemma collect_answers_one:
  assumes "skip_name reply off = Ok p" "p + 10 + unat n \<le> length reply" "length reply \<le> usize_max"
    and "u16_at reply p = Ok t" "u16_at reply (p + 2) = Ok c" "u16_at reply (p + 8) = Ok n"
    and "answer_record reply qtype (unat n) (p + 10) = Ok a"
  shows "collect_answers reply qtype (Suc k) off rs =
    collect_answers reply qtype k (p + 10 + unat n)
      (case if c = 1 \<and> t = qtype then a else None of Some ip \<Rightarrow> push_unique rs ip | None \<Rightarrow> rs)"
  using assms by (simp add: checked_add_def ok_or_def)

lemma collect_answers_encode:
  assumes "list_all rr_ok rrs" "length (pre @ concat (map encode_rr rrs)) \<le> usize_max"
  shows "collect_answers (pre @ concat (map encode_rr rrs)) qtype (length rrs) (length pre) rs
    = Ok (push_all_unique rs (List.map_filter (rr_addr qtype) rrs))"
  using assms
proof (induction rrs arbitrary: pre rs)
  case (Cons r rrs)
  define suf where "suf = concat (map encode_rr rrs)"
  define n :: u16 where "n = word_of_nat (length (rr_data r))"
  define p where "p = length pre"
  let ?t = "to_be16 (rr_type r)" and ?c = "to_be16 (rr_class r)" and ?n = "to_be16 n"
  let ?reply = "pre @ [0xC0, 0x0C] @ ?t @ ?c @ rr_ttl r @ ?n @ rr_data r @ suf"
  have n: "unat n = length (rr_data r)" and ttl: "length (rr_ttl r) = 4"
    using Cons.prems(1) by (auto simp: n_def rr_ok_def unat_of_nat)
  have len: "length ?reply \<le> usize_max"
    using Cons.prems(2) by (simp add: suf_def encode_rr_def [of r] n_def)
  have *: "u16_at ?reply (p + 2) = Ok (rr_type r)" "u16_at ?reply (p + 2 + 2) = Ok (rr_class r)"
    "u16_at ?reply (p + 2 + 8) = Ok n"
    "answer_record ?reply qtype (unat n) (p + 2 + 10) = Ok (data_addr qtype (rr_data r))"
    using u16_at_append [of "p + 2" "pre @ [0xC0, 0x0C]" "rr_type r"]
      u16_at_append [of "p + 2 + 2" "pre @ [0xC0, 0x0C] @ ?t" "rr_class r"]
      u16_at_append [of "p + 2 + 8" "pre @ [0xC0, 0x0C] @ ?t @ ?c @ rr_ttl r" n]
      answer_record_append [of "p + 2 + 10" "pre @ [0xC0, 0x0C] @ ?t @ ?c @ rr_ttl r @ ?n"
        "unat n" "rr_data r"]
    by (simp_all add: n ttl p_def)
  have s: "skip_name ?reply p = Ok (p + 2)"
    using skip_name_pointer [of pre "0x0C" "?t @ ?c @ rr_ttl r @ ?n @ rr_data r @ suf"] len
    by (simp add: p_def)
  define rs1 where "rs1 = (case rr_addr qtype r of Some ip \<Rightarrow> push_unique rs ip | None \<Rightarrow> rs)"
  have "collect_answers ?reply qtype (Suc (length rrs)) p rs
      = collect_answers ?reply qtype (length rrs) (p + 2 + 10 + unat n) rs1"
    unfolding rs1_def rr_addr_def using len
    by (intro collect_answers_one) (use s * in \<open>simp_all only:\<close>, simp add: n ttl p_def)
  also have "\<dots> = Ok (push_all_unique rs1 (List.map_filter (rr_addr qtype) rrs))"
    using Cons.IH [of "pre @ encode_rr r" rs1] Cons.prems
    by (simp add: suf_def encode_rr_def [of r] n_def [symmetric] n ttl p_def ac_simps)
  finally have "collect_answers ?reply qtype (Suc (length rrs)) p rs =
      Ok (push_all_unique rs1 (List.map_filter (rr_addr qtype) rrs))" .
  moreover have "pre @ concat (map encode_rr (r # rrs)) = ?reply"
    by (simp add: suf_def encode_rr_def [of r] n_def)
  moreover have "push_all_unique rs1 (List.map_filter (rr_addr qtype) rrs) =
      push_all_unique rs (List.map_filter (rr_addr qtype) (r # rrs))"
    by (simp add: rs1_def map_filter_simps split: option.splits)
  ultimately show ?case by (simp only: p_def length_Cons)
qed (simp add: map_filter_simps)

lemma be16_consts: "be16 129 128 = 0x8180" "be16 0 1 = 1"
  by (simp_all add: be16_def)

lemma question_skipped:
  assumes "build_dns_query host qtype txid = Ok q" "length hdr = 12"
    and "length (hdr @ drop 12 q @ suf) \<le> usize_max"
  shows "skip_questions (hdr @ drop 12 q @ suf) 1 12 = Ok (length q)"
proof -
  let ?ls = "split_on (CHR ''.'') (query_host host)"
  have q: "drop 12 q = encode_labels ?ls @ 0 # to_be16 qtype @ to_be16 1"
    "length q = 12 + length (encode_labels ?ls) + 5" "list_all label_ok ?ls"
    using assms(1) by (auto simp: build_dns_query_Ok)
  with skip_name_labels [of ?ls hdr "to_be16 qtype @ to_be16 1 @ suf"] assms(2,3) show ?thesis
    by (simp add: q ok_or_def checked_add_def One_nat_def)
qed

text \<open>C21. Round trip through a server: take any query the builder accepts, and any answer section of up
  to 65535 records (other types, other classes and odd lengths included) that holds at least one
  address of the queried type. Parsing the reply gives exactly the addresses of that type and class,
  first occurrences in order.\<close>

theorem dns_roundtrip:
  assumes "build_dns_query host qtype txid = Ok q"
    and "list_all rr_ok rrs" "length rrs < 65536"
    and "length (encode_reply txid (drop 12 q) rrs) \<le> usize_max"
    and "List.map_filter (rr_addr qtype) rrs \<noteq> []"
  shows "parse_dns_answers (encode_reply txid (drop 12 q) rrs) qtype txid =
    Ok (push_all_unique [] (List.map_filter (rr_addr qtype) rrs))"
proof -
  define an :: u16 where "an = word_of_nat (length rrs)"
  have an: "unat an = length rrs" using assms(3) by (simp add: an_def unat_of_nat)
  have "rrs \<noteq> []" using assms(5) by (auto simp: map_filter_simps)
  with an have an0: "an \<noteq> 0" by auto
  define hdr where "hdr = to_be16 txid @ to_be16 0x8180 @ to_be16 1 @ to_be16 an @ to_be16 0 @ to_be16 0"
  define reply where "reply = hdr @ drop 12 q @ concat (map encode_rr rrs)"
  have reply: "encode_reply txid (drop 12 q) rrs = reply"
    by (simp add: reply_def hdr_def encode_reply_def an_def)
  have hl: "length hdr = 12" by (simp add: hdr_def)
  have ql: "12 \<le> length q" using assms(1) by (auto simp: build_dns_query_Ok)
  have f: "u16_at reply 0 = Ok txid" "u16_at reply 2 = Ok 0x8180" "u16_at reply 4 = Ok 1"
    "u16_at reply 6 = Ok an" "\<not> length reply < 12"
    by (simp_all add: reply_def hdr_def u16_at_def to_be16_def nth_append be16_consts)
  have len: "length reply \<le> usize_max" using assms(4) by (simp add: reply)
  have sq: "skip_questions reply 1 12 = Ok (length q)"
    using question_skipped [OF assms(1) hl] len by (simp add: reply_def)
  have ca: "collect_answers reply qtype (unat an) (length q) [] =
      Ok (push_all_unique [] (List.map_filter (rr_addr qtype) rrs))"
    using collect_answers_encode [of rrs "hdr @ drop 12 q" qtype "[]"] assms(2) len hl ql
    by (simp add: reply_def an)
  have "push_all_unique [] (List.map_filter (rr_addr qtype) rrs) \<noteq> []"
    using assms(5) set_push_all_unique [of "[]" "List.map_filter (rr_addr qtype) rrs"] by force
  then show ?thesis using f sq ca an0
    by (auto simp: reply parse_dns_answers_def)
qed

definition witness_rrs :: "resource_record list" where
  "witness_rrs =
     [\<lparr>rr_type = 5, rr_class = 1, rr_ttl = [0, 0, 0, 60], rr_data = [1, 120, 0]\<rparr>,
      \<lparr>rr_type = 1, rr_class = 1, rr_ttl = [0, 0, 0, 60], rr_data = [93, 184, 216, 34]\<rparr>,
      \<lparr>rr_type = 1, rr_class = 1, rr_ttl = [0, 0, 0, 60], rr_data = [93, 184, 216, 34]\<rparr>]"

theorem dns_roundtrip_witness:
  "\<exists>q. build_dns_query ''a.io'' 1 7 = Ok q \<and>
     parse_dns_answers (encode_reply 7 (drop 12 q) witness_rrs) 1 7 = Ok [V4 (Ipv4Addr 93 184 216 34)]"
proof -
  let ?q = "[0, 7, 1, 0, 0, 1, 0, 0, 0, 0, 0, 0, 1, 97, 2, 105, 111, 0, 0, 1, 0, 1] :: bytes"
  have q: "build_dns_query ''a.io'' 1 7 = Ok ?q" by code_simp
  have a: "List.map_filter (rr_addr 1) witness_rrs =
      [V4 (Ipv4Addr 93 184 216 34), V4 (Ipv4Addr 93 184 216 34)]"
    by code_simp
  have "list_all rr_ok witness_rrs" "length witness_rrs < 65536"
    "length (encode_reply 7 (drop 12 ?q) witness_rrs) \<le> usize_max"
    by (simp_all add: witness_rrs_def rr_ok_def encode_reply_def encode_rr_def usize_max_def)
  from dns_roundtrip [OF q this] a q show ?thesis by (auto simp: push_unique_def)
qed

end
