(* ===== verification/Dns_Cache.thy ===== *)
theory Dns_Cache
  imports Prelude Net_Types "HOL-Library.AList"
begin

text \<open>
  The record cache of \<open>src/dns.rs\<close>: positive and negative entries with their expiry, lazy removal on
  lookup, and constant-time eviction at the hard limit. A \<open>HashMap\<close> is an association list with
  distinct keys; which key \<open>keys().next()\<close> yields is unspecified, so the chooser \<open>first_key\<close> is an
  argument, and all it promises is that it names a present key of a non-empty table.
\<close>

section \<open>Model\<close>

type_synonym cache_key = "string \<times> u16"
type_synonym record_set = "ipaddr list"

record cache_entry =
  ce_records :: "record_set option"
  ce_expires :: instant

type_synonym cache = "(cache_key \<times> cache_entry) list"

record cache_limits =
  cl_ttl :: duration
  cl_negative_ttl :: duration
  cl_max_entries :: nat

definition lookup_cache :: "instant \<Rightarrow> cache_key \<Rightarrow> cache \<Rightarrow> record_set option option \<times> cache" where
  "lookup_cache now k cache =
     (case map_of cache k of
        Some e \<Rightarrow> if now < ce_expires e then (Some (ce_records e), cache) else (None, AList.delete k cache)
      | None \<Rightarrow> (None, cache))"

definition store_cache ::
  "(cache \<Rightarrow> cache_key option) \<Rightarrow> cache_limits \<Rightarrow> instant \<Rightarrow> cache_key \<Rightarrow> record_set option \<Rightarrow> cache \<Rightarrow> cache"
where
  "store_cache first_key lim now k records cache =
     (let ttl = (if records \<noteq> None then cl_ttl lim else cl_negative_ttl lim);
          cache = (if cl_max_entries lim \<le> length cache \<and> map_of cache k = None
                   then (case first_key cache of Some victim \<Rightarrow> AList.delete victim cache | None \<Rightarrow> cache)
                   else cache)
      in AList.update k \<lparr>ce_records = records, ce_expires = now + ttl\<rparr> cache)"

section \<open>The interface of a bounded expiring cache\<close>

text \<open>What the resolver relies on: a lookup sees the last value stored under its key until the entry
  expires or is evicted, never an expired one; and a limit on the entries that no operation exceeds.\<close>

locale expiring_cache =
  fixes lookup :: "nat \<Rightarrow> 'k \<Rightarrow> 'c \<Rightarrow> 'v option \<times> 'c"
    and store :: "nat \<Rightarrow> 'k \<Rightarrow> 'v \<Rightarrow> 'c \<Rightarrow> 'c"
    and ttl :: "'v \<Rightarrow> nat"
    and inv :: "'c \<Rightarrow> bool"
    and entries :: "'c \<Rightarrow> nat"
    and view :: "'c \<Rightarrow> 'k \<Rightarrow> ('v \<times> nat) option"
    and capacity :: nat
    and empty :: 'c
  assumes inv_empty: "inv empty"
    and inv_lookup: "inv c \<Longrightarrow> inv (snd (lookup t k c))"
    and inv_store: "inv c \<Longrightarrow> inv (store t k v c)"
    and inv_capacity: "inv c \<Longrightarrow> entries c \<le> capacity"
    and view_empty: "view empty k = None"
    and lookup_view: "inv c \<Longrightarrow> fst (lookup t k c) =
      (case view c k of Some (v, e) \<Rightarrow> if t < e then Some v else None | None \<Rightarrow> None)"
    and lookup_keeps: "inv c \<Longrightarrow> view (snd (lookup t k c)) k' = view c k' \<or>
      (view (snd (lookup t k c)) k' = None \<and> (\<exists>v e. view c k' = Some (v, e) \<and> e \<le> t))"
    and store_view: "inv c \<Longrightarrow> view (store t k v c) k = Some (v, t + ttl v)"
    and store_others: "inv c \<Longrightarrow> k' \<noteq> k \<Longrightarrow> view (store t k v c) k' = view c k' \<or> view (store t k v c) k' = None"
begin

lemma lookup_after_store:
  assumes "inv c"
  shows "fst (lookup t' k (store t k v c)) = (if t' < t + ttl v then Some v else None)"
  by (simp add: assms inv_store lookup_view store_view)

text \<open>A history of operations, each at its own time.\<close>

definition apply_op :: "'c \<Rightarrow> nat \<times> 'k \<times> 'v option \<Rightarrow> 'c" where
  "apply_op c op = (case op of (t, k, Some v) \<Rightarrow> store t k v c | (t, k, None) \<Rightarrow> snd (lookup t k c))"

lemma inv_apply_op: "inv c \<Longrightarrow> inv (apply_op c op)"
  by (auto simp: apply_op_def inv_store inv_lookup split: prod.splits option.splits)

lemma inv_history: "inv c \<Longrightarrow> inv (foldl apply_op c ops)"
  by (induction ops arbitrary: c) (auto simp: inv_apply_op)

lemma history_bounded: "entries (foldl apply_op empty ops) \<le> capacity"
  by (intro inv_capacity inv_history inv_empty)

lemma view_apply_op:
  assumes "inv c" "view (apply_op c (t, k, vo)) k' = Some (v, e)"
  shows "view c k' = Some (v, e) \<or> (k' = k \<and> vo = Some v \<and> e = t + ttl v)"
proof (cases vo)
  case None
  with assms lookup_keeps [of c t k k'] show ?thesis by (auto simp: apply_op_def)
next
  case (Some r)
  with assms store_view [of c t k r] store_others [of c k' k t r] show ?thesis
    by (cases "k' = k") (auto simp: apply_op_def)
qed

text \<open>Nothing is invented: a visible value was stored under that key, with the expiry of that store.\<close>

lemma history_provenance:
  "view (foldl apply_op empty ops) k = Some (v, e) \<Longrightarrow> \<exists>t. (t, k, Some v) \<in> set ops \<and> e = t + ttl v"
proof (induction ops rule: rev_induct)
  case (snoc op ops)
  obtain t' k' vo where op: "op = (t', k', vo)" by (cases op)
  from view_apply_op [OF inv_history [OF inv_empty, of ops], of t' k' vo k v e] snoc op
  show ?case by auto
qed (simp add: view_empty)

lemma history_lookup:
  assumes "fst (lookup now k (foldl apply_op empty ops)) = Some v"
  shows "\<exists>t. (t, k, Some v) \<in> set ops \<and> now < t + ttl v"
  using assms history_provenance [of ops k]
  by (fastforce simp: lookup_view inv_history inv_empty split: option.splits if_splits)

end

section \<open>The resolver's cache implements it\<close>

definition cache_inv :: "nat \<Rightarrow> cache \<Rightarrow> bool" where
  "cache_inv cap c \<longleftrightarrow> distinct (map fst c) \<and> length c \<le> cap"

definition cache_view :: "cache \<Rightarrow> cache_key \<Rightarrow> (record_set option \<times> instant) option" where
  "cache_view c k = map_option (\<lambda>e. (ce_records e, ce_expires e)) (map_of c k)"

text \<open>What \<open>keys().next()\<close> promises.\<close>

definition picks_present :: "(cache \<Rightarrow> cache_key option) \<Rightarrow> bool" where
  "picks_present first_key \<longleftrightarrow>
     (\<forall>c. c \<noteq> [] \<longrightarrow> (\<exists>k. first_key c = Some k \<and> k \<in> fst ` set c))"

definition head_key :: "cache \<Rightarrow> cache_key option" where
  "head_key c = (case c of [] \<Rightarrow> None | (k, e) # _ \<Rightarrow> Some k)"

lemma picks_present_head: "picks_present head_key"
  by (auto simp: picks_present_def head_key_def neq_Nil_conv)

lemma length_delete_present: "k \<in> fst ` set c \<Longrightarrow> length (AList.delete k c) < length c"
  unfolding AList.delete_eq by (rule imageE, assumption) (rule length_filter_less, assumption, auto)

lemma length_delete_le: "length (AList.delete k c) \<le> length c"
  by (simp add: AList.delete_eq)

lemma length_update_le:
  "length (AList.update k v c) \<le> (if map_of c k = None then Suc (length c) else length c)"
  by (induction c) auto

lemma map_of_delete: "map_of (AList.delete k c) = (map_of c)(k := None)"
  by (rule AList.delete_conv')

lemma map_of_update: "map_of (AList.update k v c) = (map_of c)(k \<mapsto> v)"
  by (rule AList.update_conv')

lemma lookup_cache_inv: "cache_inv cap c \<Longrightarrow> cache_inv cap (snd (lookup_cache now k c))"
  using length_delete_le [of k c]
  by (auto simp: cache_inv_def lookup_cache_def distinct_delete split: option.splits)

lemma store_cache_inv:
  assumes "picks_present first_key" "0 < cl_max_entries lim" "cache_inv (cl_max_entries lim) c"
  shows "cache_inv (cl_max_entries lim) (store_cache first_key lim now k r c)"
proof -
  define c' where "c' = (if cl_max_entries lim \<le> length c \<and> map_of c k = None
    then (case first_key c of Some victim \<Rightarrow> AList.delete victim c | None \<Rightarrow> c) else c)"
  have d: "distinct (map fst c')"
    using assms(3) by (auto simp: c'_def cache_inv_def distinct_delete split: option.splits)
  have "length (AList.update k v c') \<le> cl_max_entries lim" for v
  proof (cases "cl_max_entries lim \<le> length c \<and> map_of c k = None")
    case True
    then have "c \<noteq> []" using assms(2) by auto
    then obtain victim where "first_key c = Some victim" "victim \<in> fst ` set c"
      using assms(1) unfolding picks_present_def by blast
    with True length_delete_present [of victim c] have "length c' < length c" by (simp add: c'_def)
    with length_update_le [of k v c'] assms(3) show ?thesis
      by (auto simp: cache_inv_def split: if_splits)
  next
    case False
    then have "c' = c" by (auto simp: c'_def)
    with False length_update_le [of k v c] assms(3) show ?thesis
      by (auto simp: cache_inv_def split: if_splits)
  qed
  with d show ?thesis
    by (simp add: cache_inv_def store_cache_def Let_def c'_def [symmetric] distinct_update)
qed

lemma store_cache_view:
  "cache_view (store_cache first_key lim now k r c) k' =
     (if k' = k then Some (r, now + (if r \<noteq> None then cl_ttl lim else cl_negative_ttl lim))
      else if cl_max_entries lim \<le> length c \<and> map_of c k = None \<and> first_key c = Some k' then None
      else cache_view c k')"
  by (auto simp: store_cache_def cache_view_def Let_def map_of_update map_of_delete split: option.splits)

lemma lookup_cache_view:
  "fst (lookup_cache now k c) =
     (case cache_view c k of Some (v, e) \<Rightarrow> if now < e then Some v else None | None \<Rightarrow> None)"
  "cache_view (snd (lookup_cache now k c)) k' =
     (case cache_view c k of
        Some (v, e) \<Rightarrow> if k' = k \<and> e \<le> now then None else cache_view c k'
      | None \<Rightarrow> cache_view c k')"
  by (auto simp: lookup_cache_def cache_view_def map_of_delete split: option.splits)

text \<open>Any table limit and any iteration order give the interface.\<close>

locale resolver_cache =
  fixes first_key :: "cache \<Rightarrow> cache_key option" and lim :: cache_limits
  assumes present: "picks_present first_key" and some_room: "0 < cl_max_entries lim"

sublocale resolver_cache \<subseteq> expiring_cache lookup_cache "store_cache first_key lim"
  "\<lambda>r. if r \<noteq> None then cl_ttl lim else cl_negative_ttl lim" "cache_inv (cl_max_entries lim)"
  length cache_view "cl_max_entries lim" "[]"
proof
  show "cache_inv (cl_max_entries lim) []" by (simp add: cache_inv_def)
  show "cache_inv (cl_max_entries lim) c \<Longrightarrow> length c \<le> cl_max_entries lim" for c
    by (simp add: cache_inv_def)
  show "cache_view [] k = None" for k by (simp add: cache_view_def)
qed (use present some_room in
    \<open>auto simp: lookup_cache_inv store_cache_inv lookup_cache_view store_cache_view split: option.splits\<close>)

definition default_cache_limits :: cache_limits where
  "default_cache_limits =
     \<lparr>cl_ttl = from_secs 60, cl_negative_ttl = from_secs 5, cl_max_entries = 4096\<rparr>"

interpretation shipped_cache: resolver_cache head_key default_cache_limits
  by unfold_locales (simp_all add: picks_present_head default_cache_limits_def)

text \<open>A history of lookups and stores on a fresh cache.\<close>

datatype cache_op = Lookup instant cache_key | Store instant cache_key "record_set option"

fun cache_step :: "(cache \<Rightarrow> cache_key option) \<Rightarrow> cache_limits \<Rightarrow> cache \<Rightarrow> cache_op \<Rightarrow> cache" where
  "cache_step fk lim c (Lookup t k) = snd (lookup_cache t k c)"
| "cache_step fk lim c (Store t k r) = store_cache fk lim t k r c"

definition cache_run :: "(cache \<Rightarrow> cache_key option) \<Rightarrow> cache_limits \<Rightarrow> cache_op list \<Rightarrow> cache" where
  "cache_run fk lim ops = foldl (cache_step fk lim) [] ops"

fun op_code :: "cache_op \<Rightarrow> nat \<times> cache_key \<times> record_set option option" where
  "op_code (Lookup t k) = (t, k, None)"
| "op_code (Store t k r) = (t, k, Some r)"

context resolver_cache
begin

lemma apply_op_code: "apply_op c (op_code op) = cache_step first_key lim c op"
  by (cases op) (simp_all add: apply_op_def)

lemma cache_run_history: "cache_run first_key lim ops = foldl apply_op [] (map op_code ops)"
  by (simp add: cache_run_def foldl_map apply_op_code)

lemma cache_run_bounded: "length (cache_run first_key lim ops) \<le> cl_max_entries lim"
  by (simp only: cache_run_history history_bounded)

lemma cache_run_distinct: "distinct (map fst (cache_run first_key lim ops))"
  using inv_history [OF inv_empty] by (simp add: cache_run_history cache_inv_def)

lemma op_code_Store: "(t, k, Some r) \<in> set (map op_code ops) \<Longrightarrow> Store t k r \<in> set ops"
  by (auto elim: op_code.elims [OF sym])

lemma cache_run_lookup:
  assumes "fst (lookup_cache now k (cache_run first_key lim ops)) = Some r"
  shows "\<exists>t. Store t k r \<in> set ops \<and> now < t + (if r \<noteq> None then cl_ttl lim else cl_negative_ttl lim)"
  using history_lookup [OF assms [unfolded cache_run_history]] op_code_Store by blast

end

text \<open>When a store throws out the entry of another key: the table is full and the iteration order has it
  first.\<close>

fun evicts :: "(cache \<Rightarrow> cache_key option) \<Rightarrow> cache_limits \<Rightarrow> cache \<Rightarrow> cache_op \<Rightarrow> cache_key \<Rightarrow> bool" where
  "evicts fk lim c (Lookup t k') k \<longleftrightarrow> False"
| "evicts fk lim c (Store t k' r) k \<longleftrightarrow>
     cl_max_entries lim \<le> length c \<and> map_of c k' = None \<and> fk c = Some k"

definition stored_keys :: "cache_op list \<Rightarrow> cache_key set" where
  "stored_keys ops = {k. \<exists>t r. Store t k r \<in> set ops}"

lemma cache_run_simps [simp]:
  "cache_run fk lim [] = []" "cache_run fk lim (ops @ [op]) = cache_step fk lim (cache_run fk lim ops) op"
  by (simp_all add: cache_run_def)

text \<open>Steps that neither store the key again nor evict it leave its entry, unless it has expired.\<close>

lemma cache_step_keeps:
  assumes "cache_view c k = Some (r, e)" "\<And>t r. op \<noteq> Store t k r" "\<And>t. op = Lookup t k \<Longrightarrow> t < e"
    "\<not> evicts fk lim c op k"
  shows "cache_view (cache_step fk lim c op) k = Some (r, e)"
  using assms by (cases op) (auto simp: lookup_cache_view store_cache_view split: option.splits)

lemma cache_step_never_renews:
  assumes "cache_view c k \<in> {None, Some (r, e)}" "\<And>t r. op \<noteq> Store t k r"
  shows "cache_view (cache_step fk lim c op) k \<in> {None, Some (r, e)}"
  using assms by (cases op) (auto simp: lookup_cache_view store_cache_view split: option.splits)

lemma cache_run_never_renews:
  assumes "cache_view (cache_run fk lim ops) k \<in> {None, Some (r, e)}" "\<And>t r. Store t k r \<notin> set after"
  shows "cache_view (cache_run fk lim (ops @ after)) k \<in> {None, Some (r, e)}"
  using assms(2)
proof (induction after rule: rev_induct)
  case (snoc op after)
  then have "cache_view (cache_step fk lim (cache_run fk lim (ops @ after)) op) k \<in> {None, Some (r, e)}"
    by (intro cache_step_never_renews) auto
  then show ?case by (simp only: append_assoc [symmetric] cache_run_simps)
qed (use assms(1) in simp)

lemma cache_run_keeps:
  assumes "cache_view (cache_run fk lim ops) k = Some (r, e)" "\<And>t r. Store t k r \<notin> set after"
    "\<And>t. Lookup t k \<in> set after \<Longrightarrow> t < e"
    "\<And>xs op ys. after = xs @ op # ys \<Longrightarrow> \<not> evicts fk lim (cache_run fk lim (ops @ xs)) op k"
  shows "cache_view (cache_run fk lim (ops @ after)) k = Some (r, e)"
  using assms(2-)
proof (induction after rule: rev_induct)
  case (snoc op after)
  have "cache_view (cache_run fk lim (ops @ after)) k = Some (r, e)"
  proof (rule snoc.IH)
    fix xs op' ys assume "after = xs @ op' # ys"
    then show "\<not> evicts fk lim (cache_run fk lim (ops @ xs)) op' k" using snoc.prems(3) [of xs op' "ys @ [op]"] by simp
  qed (use snoc.prems in auto)
  then have "cache_view (cache_step fk lim (cache_run fk lim (ops @ after)) op) k = Some (r, e)"
    by (rule cache_step_keeps) (use snoc.prems snoc.prems(3) [of after op "[]"] in auto)
  then show ?case by (simp only: append_assoc [symmetric] cache_run_simps)
qed (use assms(1) in simp)

text \<open>The keys of the table were stored, so no more keys than the table has room for means no eviction.\<close>

lemma cache_run_keys: "fst ` set (cache_run fk lim ops) \<subseteq> stored_keys ops"
proof (induction ops rule: rev_induct)
  case (snoc op ops)
  have del: "fst ` set (AList.delete k' c) \<subseteq> fst ` set c" for k' and c :: cache
    by (auto simp: AList.delete_eq)
  define c where "c = cache_run fk lim ops"
  have "fst ` set (cache_step fk lim c op) \<subseteq> fst ` set c \<union> stored_keys [op]"
  proof (cases op)
    case (Lookup t k)
    then show ?thesis using del [of k c] by (auto simp: lookup_cache_def split: option.splits)
  next
    case (Store t k r)
    define c' where "c' = (if cl_max_entries lim \<le> length c \<and> map_of c k = None
      then (case fk c of Some victim \<Rightarrow> AList.delete victim c | None \<Rightarrow> c) else c)"
    have "fst ` set c' \<subseteq> fst ` set c" using del [of _ c] by (simp add: c'_def split: option.split)
    moreover have "fst ` set (cache_step fk lim c op) = insert k (fst ` set c')"
      by (simp add: Store store_cache_def Let_def AList.dom_update c'_def)
    moreover have "k \<in> stored_keys [op]" by (simp add: stored_keys_def Store)
    ultimately show ?thesis by auto
  qed
  moreover have "stored_keys (ops @ [op]) = stored_keys ops \<union> stored_keys [op]"
    by (auto simp: stored_keys_def)
  ultimately show ?case using snoc by (auto simp: c_def)
qed simp

lemma no_eviction_with_room:
  assumes run: "distinct (map fst (cache_run fk lim xs))"
    and room: "card (stored_keys (xs @ op # ys)) \<le> cl_max_entries lim"
  shows "\<not> evicts fk lim (cache_run fk lim xs) op k"
proof
  let ?c = "cache_run fk lim xs"
  assume ev: "evicts fk lim ?c op k"
  then obtain t k' r where op: "op = Store t k' r" and new: "map_of ?c k' = None" and full: "cl_max_entries lim \<le> length ?c"
    by (cases op) auto
  let ?keys = "stored_keys (xs @ op # ys)"
  have fin: "finite ?keys"
  proof (rule finite_subset)
    show "?keys \<subseteq> (\<lambda>op. case op of Store t k r \<Rightarrow> k | Lookup t k \<Rightarrow> k) ` set (xs @ op # ys)"
      by (force simp: stored_keys_def)
  qed simp
  have "insert k' (fst ` set ?c) \<subseteq> ?keys"
    using cache_run_keys [of fk lim xs] unfolding stored_keys_def op set_append list.set by blast
  then have "card (insert k' (fst ` set ?c)) \<le> card ?keys" by (rule card_mono [OF fin])
  moreover have "card (fst ` set ?c) = length ?c" using distinct_card [OF run] by simp
  moreover have "k' \<notin> fst ` set ?c" using new by (simp add: map_of_eq_None_iff)
  ultimately show False using room full by simp
qed

text \<open>C22. The DNS cache after any history of lookups and stores, whatever order the hash table
  iterates in. It never exceeds \<open>max_cache_entries\<close>. A value stored under a key is what every later lookup
  of that key returns, whatever other lookups and stores come in between, until its own TTL (the
  positive or the negative one) has passed and not a tick longer, as long as the key is not stored again
  and its entry is not the one a store of another key evicts from a full table; and no entry is ever
  evicted while at most \<open>max_cache_entries\<close> different keys are stored. Any hit at all was stored under
  that very name and record type within its TTL.\<close>

theorem dns_cache_correct:
  assumes "picks_present first_key" "0 < cl_max_entries lim"
  shows "length (cache_run first_key lim ops) \<le> cl_max_entries lim
    \<and> (\<forall>before t r after. ops = before @ Store t k r # after \<and> (\<forall>t r. Store t k r \<notin> set after) \<and>
         (\<forall>t. Lookup t k \<in> set after \<longrightarrow> t \<le> now) \<and>
         (\<forall>xs op ys. after = xs @ op # ys \<longrightarrow>
            \<not> evicts first_key lim (cache_run first_key lim (before @ Store t k r # xs)) op k) \<longrightarrow>
         fst (lookup_cache now k (cache_run first_key lim ops)) =
           (if now < t + (if r \<noteq> None then cl_ttl lim else cl_negative_ttl lim) then Some r else None))
    \<and> (card (stored_keys ops) \<le> cl_max_entries lim \<longrightarrow>
         (\<forall>xs op ys. ops = xs @ op # ys \<longrightarrow> \<not> evicts first_key lim (cache_run first_key lim xs) op k))
    \<and> (\<forall>v. fst (lookup_cache now k (cache_run first_key lim ops)) = Some v \<longrightarrow>
         (\<exists>t. Store t k v \<in> set ops \<and>
              now < t + (if v \<noteq> None then cl_ttl lim else cl_negative_ttl lim)))"
proof (intro conjI allI impI)
  have rc: "resolver_cache first_key lim" using assms by unfold_locales
  show "length (cache_run first_key lim ops) \<le> cl_max_entries lim"
    by (rule resolver_cache.cache_run_bounded [OF rc])
  show "\<exists>t. Store t k v \<in> set ops \<and> now < t + (if v \<noteq> None then cl_ttl lim else cl_negative_ttl lim)"
    if "fst (lookup_cache now k (cache_run first_key lim ops)) = Some v" for v
    by (rule resolver_cache.cache_run_lookup [OF rc that])
  show "\<not> evicts first_key lim (cache_run first_key lim xs) op k"
    if "card (stored_keys ops) \<le> cl_max_entries lim" "ops = xs @ op # ys" for xs op ys
    using that no_eviction_with_room [OF resolver_cache.cache_run_distinct [OF rc], of xs op ys k] by blast
next
  fix before t r after
  let ?e = "t + (if r \<noteq> None then cl_ttl lim else cl_negative_ttl lim)" and ?b = "before @ [Store t k r]"
  assume a: "ops = before @ Store t k r # after \<and> (\<forall>t r. Store t k r \<notin> set after) \<and>
    (\<forall>t. Lookup t k \<in> set after \<longrightarrow> t \<le> now) \<and>
    (\<forall>xs op ys. after = xs @ op # ys \<longrightarrow>
       \<not> evicts first_key lim (cache_run first_key lim (before @ Store t k r # xs)) op k)"
  then have ops: "ops = ?b @ after" by simp
  have b: "cache_view (cache_run first_key lim ?b) k = Some (r, ?e)" by (simp add: store_cache_view)
  show "fst (lookup_cache now k (cache_run first_key lim ops)) = (if now < ?e then Some r else None)"
  proof (cases "now < ?e")
    case True
    have "cache_view (cache_run first_key lim (?b @ after)) k = Some (r, ?e)"
      by (rule cache_run_keeps [OF b]) (use a True in \<open>auto intro: le_less_trans\<close>)
    with True show ?thesis by (simp add: lookup_cache_view ops)
  next
    case False
    have "cache_view (cache_run first_key lim (?b @ after)) k \<in> {None, Some (r, ?e)}"
      by (rule cache_run_never_renews) (use a b in auto)
    with False show ?thesis by (auto simp: lookup_cache_view ops)
  qed
qed

theorem dns_cache_correct_witness:
  "length (cache_run head_key default_cache_limits
     [Store 0 (''a.io'', 1) (Some [V4 (Ipv4Addr 1 2 3 4)]), Lookup 5 (''a.io'', 1)]) \<le> 4096
   \<and> fst (lookup_cache 7 (''b.io'', 1) (cache_run head_key default_cache_limits
       [Store 6 (''b.io'', 1) None, Lookup 6 (''b.io'', 1)])) = Some None"
proof -
  have "\<not> evicts head_key default_cache_limits
      (cache_run head_key default_cache_limits ([] @ Store 6 (''b.io'', 1) None # xs)) op (''b.io'', 1)"
    if "[Lookup 6 (''b.io'', 1)] = xs @ op # ys" for xs op ys
    using that by (cases xs) auto
  then show ?thesis
    using dns_cache_correct [OF picks_present_head, of default_cache_limits
        "[Store 0 (''a.io'', 1) (Some [V4 (Ipv4Addr 1 2 3 4)]), Lookup 5 (''a.io'', 1)]"]
      conjunct1 [OF conjunct2 [OF dns_cache_correct [OF picks_present_head, of default_cache_limits
        "[Store 6 (''b.io'', 1) None, Lookup 6 (''b.io'', 1)]" "(''b.io'', 1)" 7]],
        THEN spec, of "[]", THEN spec, of 6, THEN spec, of None, THEN spec, of "[Lookup 6 (''b.io'', 1)]"]
    by (simp add: default_cache_limits_def from_secs_def)
qed

end
