(* ===== verification/Singleflight.thy ===== *)
theory Singleflight
  imports Dns_Cache Dns_Wire
begin

text \<open>
  \<open>Resolver::query_record_dedup\<close> of \<open>src/dns.rs\<close> as a concurrent protocol: any number of tasks, one
  atomic step per critical section or channel operation, cancellation at every await. Task states
  follow the source: role decision under the lock, the leader's query, cache write, broadcast and the
  two drops (slot guard, then sender), the waiter's wake-up and its fallback query when the sender is
  gone. The outcome of a query is arbitrary.
\<close>

section \<open>State\<close>

type_synonym chan = nat
type_synonym tid = nat

datatype sf_task =
    Idle
  | Enter cache_key
  | Leading cache_key chan
  | Stored cache_key chan "record_set res"
  | Sent cache_key chan "record_set res"
  | Dropping cache_key chan "record_set res option"
  | Waiting cache_key chan
  | Requery cache_key
  | Done cache_key "record_set res"
  | Cancelled

text \<open>\<open>sf_answers\<close> is a ghost history of the queries that returned, newest first. A published value is
  \<open>Some None\<close> for the source's \<open>Err(())\<close>.\<close>

record sf_state =
  sf_in_flight :: "cache_key \<Rightarrow> chan option"
  sf_next :: chan
  sf_value :: "chan \<Rightarrow> record_set option option"
  sf_sender :: "chan \<Rightarrow> bool"
  sf_cache :: cache
  sf_tasks :: "tid \<Rightarrow> sf_task"
  sf_answers :: "(cache_key \<times> record_set res) list"

definition sf_init :: sf_state where
  "sf_init = \<lparr>sf_in_flight = \<lambda>_. None, sf_next = 0, sf_value = \<lambda>_. None, sf_sender = \<lambda>_. False,
     sf_cache = [], sf_tasks = \<lambda>_. Idle, sf_answers = []\<rparr>"

fun neg_err :: "cache_key \<Rightarrow> error" where
  "neg_err (host, qtype) =
     (if qtype = QTYPE_A then DnsNoIpv4 host else Other (NoAaaaRecord host))"

section \<open>Atomic steps\<close>

definition sf_set_task :: "tid \<Rightarrow> sf_task \<Rightarrow> sf_state \<Rightarrow> sf_state" where
  "sf_set_task t x s = s\<lparr>sf_tasks := (sf_tasks s)(t := x)\<rparr>"

definition sf_enter :: "tid \<Rightarrow> cache_key \<Rightarrow> sf_state \<Rightarrow> sf_state" where
  "sf_enter t k s =
     (case sf_in_flight s k of
        Some ch \<Rightarrow> sf_set_task t (Waiting k ch) s
      | None \<Rightarrow>
          sf_set_task t (Leading k (sf_next s))
            (s\<lparr>sf_in_flight := (sf_in_flight s)(k \<mapsto> sf_next s),
               sf_sender := (sf_sender s)(sf_next s := True),
               sf_next := Suc (sf_next s)\<rparr>))"

definition sf_store ::
  "(cache \<Rightarrow> cache_key option) \<Rightarrow> cache_limits \<Rightarrow> instant \<Rightarrow> tid \<Rightarrow> cache_key \<Rightarrow> chan \<Rightarrow> record_set res
    \<Rightarrow> sf_state \<Rightarrow> sf_state"
where
  "sf_store fk lim now t k ch r s =
     sf_set_task t (Stored k ch r)
       (s\<lparr>sf_cache := store_cache fk lim now k (ok r) (sf_cache s),
          sf_answers := (k, r) # sf_answers s\<rparr>)"

definition sf_publish :: "tid \<Rightarrow> cache_key \<Rightarrow> chan \<Rightarrow> record_set res \<Rightarrow> sf_state \<Rightarrow> sf_state" where
  "sf_publish t k ch r s =
     sf_set_task t (Sent k ch r) (s\<lparr>sf_value := (sf_value s)(ch \<mapsto> ok r)\<rparr>)"

definition sf_release :: "tid \<Rightarrow> cache_key \<Rightarrow> chan \<Rightarrow> record_set res option \<Rightarrow> sf_state \<Rightarrow> sf_state" where
  "sf_release t k ch r s =
     sf_set_task t (Dropping k ch r) (s\<lparr>sf_in_flight := (sf_in_flight s)(k := None)\<rparr>)"

definition sf_drop_sender :: "tid \<Rightarrow> cache_key \<Rightarrow> chan \<Rightarrow> record_set res option \<Rightarrow> sf_state \<Rightarrow> sf_state" where
  "sf_drop_sender t k ch r s =
     sf_set_task t (case r of Some x \<Rightarrow> Done k x | None \<Rightarrow> Cancelled)
       (s\<lparr>sf_sender := (sf_sender s)(ch := False)\<rparr>)"

definition sf_wake :: "tid \<Rightarrow> cache_key \<Rightarrow> record_set option \<Rightarrow> sf_state \<Rightarrow> sf_state" where
  "sf_wake t k v s =
     sf_set_task t (Done k (case v of Some rs \<Rightarrow> Ok rs | None \<Rightarrow> Err (neg_err k))) s"

definition sf_answer_alone :: "tid \<Rightarrow> cache_key \<Rightarrow> record_set res \<Rightarrow> sf_state \<Rightarrow> sf_state" where
  "sf_answer_alone t k r s = sf_set_task t (Done k r) (s\<lparr>sf_answers := (k, r) # sf_answers s\<rparr>)"

inductive sf_step ::
  "(cache \<Rightarrow> cache_key option) \<Rightarrow> cache_limits \<Rightarrow> sf_state \<Rightarrow> sf_state \<Rightarrow> bool"
  for fk :: "cache \<Rightarrow> cache_key option" and lim :: cache_limits
where
  arrive: "sf_tasks s t = Idle \<Longrightarrow> sf_step fk lim s (sf_set_task t (Enter k) s)"
| enter: "sf_tasks s t = Enter k \<Longrightarrow> sf_step fk lim s (sf_enter t k s)"
| returned: "sf_tasks s t = Leading k ch \<Longrightarrow> r \<noteq> Panic \<Longrightarrow>
    sf_step fk lim s (sf_store fk lim now t k ch r s)"
| publish: "sf_tasks s t = Stored k ch r \<Longrightarrow> sf_step fk lim s (sf_publish t k ch r s)"
| release: "sf_tasks s t = Sent k ch r \<Longrightarrow> sf_step fk lim s (sf_release t k ch (Some r) s)"
| cancel_leader: "sf_tasks s t = Leading k ch \<Longrightarrow> sf_step fk lim s (sf_release t k ch None s)"
| drop_sender: "sf_tasks s t = Dropping k ch r \<Longrightarrow> sf_step fk lim s (sf_drop_sender t k ch r s)"
| wake: "sf_tasks s t = Waiting k ch \<Longrightarrow> sf_value s ch = Some v \<Longrightarrow> sf_step fk lim s (sf_wake t k v s)"
| closed: "sf_tasks s t = Waiting k ch \<Longrightarrow> sf_value s ch = None \<Longrightarrow> \<not> sf_sender s ch \<Longrightarrow>
    sf_step fk lim s (sf_set_task t (Requery k) s)"
| requeried: "sf_tasks s t = Requery k \<Longrightarrow> r \<noteq> Panic \<Longrightarrow> sf_step fk lim s (sf_answer_alone t k r s)"
| cancel_waiter: "sf_tasks s t = Waiting k ch \<or> sf_tasks s t = Requery k \<Longrightarrow>
    sf_step fk lim s (sf_set_task t Cancelled s)"

inductive sf_reachable :: "(cache \<Rightarrow> cache_key option) \<Rightarrow> cache_limits \<Rightarrow> sf_state \<Rightarrow> bool"
  for fk :: "cache \<Rightarrow> cache_key option" and lim :: cache_limits
where
  init: "sf_reachable fk lim sf_init"
| step: "sf_reachable fk lim s \<Longrightarrow> sf_step fk lim s s' \<Longrightarrow> sf_reachable fk lim s'"

section \<open>Invariant\<close>

text \<open>The slot a task holds in \<open>in_flight\<close>, and the sender it owns.\<close>

fun holds :: "sf_task \<Rightarrow> (cache_key \<times> chan) option" where
  "holds (Leading k ch) = Some (k, ch)"
| "holds (Stored k ch r) = Some (k, ch)"
| "holds (Sent k ch r) = Some (k, ch)"
| "holds _ = None"

fun owns :: "sf_task \<Rightarrow> (cache_key \<times> chan) option" where
  "owns (Dropping k ch r) = Some (k, ch)"
| "owns x = holds x"

text \<open>What the channel of a task shows, given the answers so far.\<close>

fun task_ok :: "sf_state \<Rightarrow> sf_task \<Rightarrow> bool" where
  "task_ok s (Leading k ch) \<longleftrightarrow> sf_value s ch = None"
| "task_ok s (Stored k ch r) \<longleftrightarrow> sf_value s ch = None \<and> (k, r) \<in> set (sf_answers s)"
| "task_ok s (Sent k ch r) \<longleftrightarrow> sf_value s ch = Some (ok r) \<and> (k, r) \<in> set (sf_answers s)"
| "task_ok s (Dropping k ch r) \<longleftrightarrow>
     (case r of Some x \<Rightarrow> sf_value s ch = Some (ok x) \<and> (k, x) \<in> set (sf_answers s)
      | None \<Rightarrow> sf_value s ch = None)"
| "task_ok s (Waiting k ch) \<longleftrightarrow> ch < sf_next s \<and>
     (\<forall>v. sf_value s ch = Some v \<longrightarrow> (\<exists>r. (k, r) \<in> set (sf_answers s) \<and> ok r = v)) \<and>
     (\<forall>t k'. owns (sf_tasks s t) = Some (k', ch) \<longrightarrow> k' = k)"
| "task_ok s (Done k r) \<longleftrightarrow> (\<exists>r'. (k, r') \<in> set (sf_answers s) \<and> ok r' = ok r)"
| "task_ok s _ \<longleftrightarrow> True"

definition slots_ok :: "sf_state \<Rightarrow> bool" where
  "slots_ok s \<longleftrightarrow> (\<forall>k ch. sf_in_flight s k = Some ch \<longleftrightarrow> (\<exists>t. holds (sf_tasks s t) = Some (k, ch)))"

definition senders_ok :: "sf_state \<Rightarrow> bool" where
  "senders_ok s \<longleftrightarrow>
     (\<forall>ch. sf_sender s ch \<longleftrightarrow> (\<exists>t k. owns (sf_tasks s t) = Some (k, ch))) \<and>
     (\<forall>t t' k k' ch. owns (sf_tasks s t) = Some (k, ch) \<longrightarrow> owns (sf_tasks s t') = Some (k', ch) \<longrightarrow> t = t') \<and>
     (\<forall>t k ch. owns (sf_tasks s t) = Some (k, ch) \<longrightarrow> ch < sf_next s)"

definition cache_answered :: "sf_state \<Rightarrow> bool" where
  "cache_answered s \<longleftrightarrow>
     (\<forall>k e. map_of (sf_cache s) k = Some e \<longrightarrow>
        (\<exists>r. (k, r) \<in> set (sf_answers s) \<and> ce_records e = ok r))"

definition sf_inv :: "sf_state \<Rightarrow> bool" where
  "sf_inv s \<longleftrightarrow> slots_ok s \<and> senders_ok s \<and> cache_answered s \<and>
     (\<forall>ch. sf_next s \<le> ch \<longrightarrow> sf_value s ch = None) \<and> (\<forall>t. task_ok s (sf_tasks s t))"

lemmas step_defs = sf_set_task_def sf_enter_def sf_store_def sf_publish_def sf_release_def
  sf_drop_sender_def sf_wake_def sf_answer_alone_def

lemma holds_owns: "holds x = Some p \<Longrightarrow> owns x = Some p"
  by (cases x) auto

lemma task_ok_frame:
  assumes "task_ok s x" "set (sf_answers s) \<subseteq> set (sf_answers s')" "sf_next s \<le> sf_next s'"
    and "sf_value s' = sf_value s"
    and "\<And>t k ch. owns (sf_tasks s' t) = Some (k, ch) \<Longrightarrow> owns (sf_tasks s t) = Some (k, ch) \<or> sf_next s \<le> ch"
  shows "task_ok s' x"
proof (cases x)
  case (Waiting k ch)
  then have w: "ch < sf_next s" "\<And>v. sf_value s ch = Some v \<Longrightarrow> \<exists>r. (k, r) \<in> set (sf_answers s) \<and> ok r = v"
    "\<And>t k'. owns (sf_tasks s t) = Some (k', ch) \<Longrightarrow> k' = k"
    using assms(1) by auto
  have "k' = k" if "owns (sf_tasks s' t) = Some (k', ch)" for t k'
    using assms(5) [OF that] w by auto
  moreover have "\<exists>r. (k, r) \<in> set (sf_answers s') \<and> ok r = v" if "sf_value s' ch = Some v" for v
  proof -
    from that assms(4) have "sf_value s ch = Some v" by simp
    from w(2) [OF this] assms(2) show ?thesis by blast
  qed
  ultimately show ?thesis using Waiting w(1) assms(3) by simp
qed (use assms(1,2,4) in \<open>auto split: option.splits\<close>)

text \<open>A step that leaves the slot and the sender of every task alone keeps both tables right.\<close>

lemma slots_frame:
  assumes "slots_ok s" "\<And>t. holds (sf_tasks s' t) = holds (sf_tasks s t)" "sf_in_flight s' = sf_in_flight s"
  shows "slots_ok s'"
  using assms by (simp add: slots_ok_def)

lemma senders_frame:
  assumes "senders_ok s" "\<And>t. owns (sf_tasks s' t) = owns (sf_tasks s t)" "sf_sender s' = sf_sender s"
    and "sf_next s' = sf_next s"
  shows "senders_ok s'"
  using assms by (simp add: senders_ok_def)

lemma cache_answered_mono:
  "cache_answered s \<Longrightarrow> sf_cache s' = sf_cache s \<Longrightarrow> set (sf_answers s) \<subseteq> set (sf_answers s') \<Longrightarrow>
     cache_answered s'"
  by (fastforce simp: cache_answered_def)

lemma store_cache_map_of:
  "map_of (store_cache fk lim now k r c) k' = Some e \<Longrightarrow>
     (k' = k \<and> ce_records e = r) \<or> map_of c k' = Some e"
  by (auto simp: store_cache_def Let_def map_of_update map_of_delete split: if_splits option.splits)

text \<open>Steps that change one task, the cache and the answers only.\<close>

lemma quiet_step:
  assumes "sf_inv s" "holds x = holds (sf_tasks s t)" "owns x = owns (sf_tasks s t)"
    and "s' = s\<lparr>sf_tasks := (sf_tasks s)(t := x), sf_cache := c, sf_answers := as @ sf_answers s\<rparr>"
    and "task_ok s' x" "cache_answered s'"
  shows "sf_inv s'"
proof -
  have "slots_ok s'" "senders_ok s'"
    using assms(1-4) by (auto simp: sf_inv_def intro!: slots_frame [of s] senders_frame [of s])
  moreover have "task_ok s' (sf_tasks s' t')" for t'
  proof (cases "t' = t")
    case False
    have "task_ok s' (sf_tasks s t')"
    proof (rule task_ok_frame)
      show "task_ok s (sf_tasks s t')" using assms(1) by (simp add: sf_inv_def)
    qed (simp_all add: assms(3,4) split: if_splits)
    with False show ?thesis by (simp add: assms(4))
  qed (use assms(4,5) in simp)
  ultimately show ?thesis using assms(1,4,6) by (simp add: sf_inv_def)
qed

lemma sf_inv_parts:
  assumes "sf_inv s"
  shows "slots_ok s" "senders_ok s" "cache_answered s" "sf_next s \<le> ch \<Longrightarrow> sf_value s ch = None"
    "task_ok s (sf_tasks s t)"
  using assms unfolding sf_inv_def by blast+

lemma sender_facts:
  assumes "senders_ok s"
  shows "sf_sender s ch \<longleftrightarrow> (\<exists>t k. owns (sf_tasks s t) = Some (k, ch))"
    and "owns (sf_tasks s t) = Some (k, ch) \<Longrightarrow> owns (sf_tasks s t') = Some (k', ch) \<Longrightarrow> t = t'"
    and "owns (sf_tasks s t) = Some (k, ch) \<Longrightarrow> ch < sf_next s"
  using assms unfolding senders_ok_def by blast+

lemma slot_iff: "slots_ok s \<Longrightarrow> sf_in_flight s k = Some ch \<longleftrightarrow> (\<exists>t. holds (sf_tasks s t) = Some (k, ch))"
  unfolding slots_ok_def by blast

lemma ex_upd_take:
  assumes "g (f t) = None"
  shows "(\<exists>u. g ((f(t := x)) u) = Some p) \<longleftrightarrow> g x = Some p \<or> (\<exists>u. g (f u) = Some p)"
  by (rule iffI) (use assms in \<open>auto split: if_splits simp: fun_upd_def intro: exI [of _ t]\<close>, force)

lemma ex_upd_give:
  assumes "g x = None"
  shows "(\<exists>u. g ((f(t := x)) u) = Some p) \<longleftrightarrow> (\<exists>u. u \<noteq> t \<and> g (f u) = Some p)"
  using assms by (auto simp: fun_upd_def split: if_splits)

lemma slots_take:
  assumes "slots_ok s" "holds (sf_tasks s t) = None" "sf_in_flight s k = None"
    and "holds x = Some (k, ch)" "sf_tasks s' = (sf_tasks s)(t := x)"
    and "sf_in_flight s' = (sf_in_flight s)(k \<mapsto> ch)"
  shows "slots_ok s'"
  unfolding slots_ok_def
proof (intro allI)
  fix k' ch'
  show "sf_in_flight s' k' = Some ch' \<longleftrightarrow> (\<exists>t. holds (sf_tasks s' t) = Some (k', ch'))"
    unfolding assms(5,6) ex_upd_take [of holds "sf_tasks s", OF assms(2)] slot_iff [OF assms(1), symmetric]
    using assms(3,4) by auto
qed

lemma slots_give:
  assumes "slots_ok s" "holds (sf_tasks s t) = Some (k, ch)" "holds x = None"
    and "\<And>t'. holds (sf_tasks s t') = Some (k, ch) \<Longrightarrow> t' = t"
    and "sf_tasks s' = (sf_tasks s)(t := x)" "sf_in_flight s' = (sf_in_flight s)(k := None)"
  shows "slots_ok s'"
  unfolding slots_ok_def
proof (intro allI)
  fix k' ch'
  have "sf_in_flight s k = Some ch" using slot_iff [OF assms(1)] assms(2) by blast
  then have only: "t' = t" if "holds (sf_tasks s t') = Some (k, ch'')" for t' ch''
    using slot_iff [OF assms(1), of k ch''] that assms(4) by auto
  show "sf_in_flight s' k' = Some ch' \<longleftrightarrow> (\<exists>t. holds (sf_tasks s' t) = Some (k', ch'))"
  proof (cases "k' = k")
    case True
    then show ?thesis unfolding assms(5,6) ex_upd_give [of holds, OF assms(3)] using only by auto
  next
    case False
    then show ?thesis unfolding assms(5,6) ex_upd_give [of holds, OF assms(3)]
      using assms(2) slot_iff [OF assms(1), of k' ch'] by force
  qed
qed

lemma senders_take:
  assumes "senders_ok s" "owns (sf_tasks s t) = None" "owns x = Some (k, sf_next s)"
    and "sf_tasks s' = (sf_tasks s)(t := x)" "sf_sender s' = (sf_sender s)(sf_next s := True)"
    and "sf_next s' = Suc (sf_next s)"
  shows "senders_ok s'"
  unfolding senders_ok_def
proof (intro conjI allI impI)
  fix ch
  have "(\<exists>k' t'. owns (sf_tasks s' t') = Some (k', ch)) \<longleftrightarrow>
      (\<exists>k'. owns x = Some (k', ch)) \<or> (\<exists>k' t'. owns (sf_tasks s t') = Some (k', ch))"
    unfolding assms(4) ex_upd_take [of owns "sf_tasks s", OF assms(2)] by blast
  then show "sf_sender s' ch \<longleftrightarrow> (\<exists>t' k'. owns (sf_tasks s' t') = Some (k', ch))"
    unfolding assms(5) using sender_facts(1) [OF assms(1), of ch] assms(3) by auto
next
  fix t1 t2 k1 k2 ch
  assume "owns (sf_tasks s' t1) = Some (k1, ch)" "owns (sf_tasks s' t2) = Some (k2, ch)"
  then show "t1 = t2"
    unfolding assms(4) using assms(3)
    by (auto simp: fun_upd_def split: if_splits dest: sender_facts(3) [OF assms(1)]
        intro: sender_facts(2) [OF assms(1)])
next
  fix t1 k1 ch assume "owns (sf_tasks s' t1) = Some (k1, ch)"
  then show "ch < sf_next s'"
    unfolding assms(4,6) using sender_facts(3) [OF assms(1)] assms(3)
    by (auto simp: fun_upd_def less_Suc_eq split: if_splits)
qed

lemma senders_give:
  assumes "senders_ok s" "owns (sf_tasks s t) = Some (k, ch)" "owns x = None"
    and "sf_tasks s' = (sf_tasks s)(t := x)" "sf_sender s' = (sf_sender s)(ch := False)"
    and "sf_next s' = sf_next s"
  shows "senders_ok s'"
  unfolding senders_ok_def
proof (intro conjI allI impI)
  fix c
  have "(\<exists>k' t'. owns (sf_tasks s' t') = Some (k', c)) \<longleftrightarrow>
      (\<exists>k' t'. t' \<noteq> t \<and> owns (sf_tasks s t') = Some (k', c))"
    unfolding assms(4) ex_upd_give [of owns, OF assms(3)] by blast
  also have "\<dots> \<longleftrightarrow> c \<noteq> ch \<and> (\<exists>k' t'. owns (sf_tasks s t') = Some (k', c))"
    using sender_facts(2) [OF assms(1)] assms(2) by (metis option.inject prod.inject)
  finally show "sf_sender s' c \<longleftrightarrow> (\<exists>t' k'. owns (sf_tasks s' t') = Some (k', c))"
    unfolding assms(5) using sender_facts(1) [OF assms(1), of c] by auto
qed (use sender_facts(2,3) [OF assms(1)] assms(3) in
    \<open>auto simp: assms(4,6) fun_upd_def split: if_splits\<close>)

lemma quiet_task:
  assumes "sf_inv s" "holds x = holds (sf_tasks s t)" "owns x = owns (sf_tasks s t)"
    and "task_ok (sf_set_task t x s) x"
  shows "sf_inv (sf_set_task t x s)"
proof (rule quiet_step [OF assms(1-3) _ assms(4), where c = "sf_cache s" and as = "[]"])
  show "cache_answered (sf_set_task t x s)"
    using sf_inv_parts(3) [OF assms(1)] by (simp add: cache_answered_def sf_set_task_def)
qed (simp add: sf_set_task_def)

lemma inv_store:
  assumes "sf_inv s" "sf_tasks s t = Leading k ch"
  shows "sf_inv (sf_store fk lim now t k ch r s)"
proof (rule quiet_step [OF assms(1), where t = t and x = "Stored k ch r" and as = "[(k, r)]"
      and c = "store_cache fk lim now k (ok r) (sf_cache s)"])
  show "cache_answered (sf_store fk lim now t k ch r s)"
    using assms(1)
    by (auto simp: sf_inv_def cache_answered_def step_defs dest!: store_cache_map_of) blast+
  have "sf_value s ch = None" using assms by (auto simp: sf_inv_def dest!: spec [of _ t])
  then show "task_ok (sf_store fk lim now t k ch r s) (Stored k ch r)" by (simp add: step_defs)
qed (simp_all add: assms(2) step_defs)

lemma inv_answer_alone:
  assumes "sf_inv s" "sf_tasks s t = Requery k"
  shows "sf_inv (sf_answer_alone t k r s)"
proof (rule quiet_step [OF assms(1), where t = t and x = "Done k r" and as = "[(k, r)]"
      and c = "sf_cache s"])
  show "cache_answered (sf_answer_alone t k r s)"
    using assms(1) by (auto simp: sf_inv_def step_defs elim!: cache_answered_mono)
qed (auto simp: assms(2) step_defs)

lemma inv_wake:
  assumes "sf_inv s" "sf_tasks s t = Waiting k ch" "sf_value s ch = Some v"
  shows "sf_inv (sf_wake t k v s)"
proof -
  have "task_ok s (Waiting k ch)" using assms(1,2) by (metis sf_inv_def)
  with assms show ?thesis unfolding sf_wake_def
    by (intro quiet_task) (auto simp: sf_set_task_def split: option.splits)
qed

lemma inv_enter:
  assumes "sf_inv s" "sf_tasks s t = Enter k"
  shows "sf_inv (sf_enter t k s)"
proof (cases "sf_in_flight s k")
  case (Some ch)
  with assms(1) obtain t' where t': "holds (sf_tasks s t') = Some (k, ch)"
    using slot_iff [OF sf_inv_parts(1)] by blast
  have o': "owns (sf_tasks s t') = Some (k, ch)" using t' by (rule holds_owns)
  have key: "k' = k" if "owns (sf_tasks s t'') = Some (k', ch)" for t'' k'
  proof -
    have "t'' = t'" using assms(1) that o' unfolding sf_inv_def senders_ok_def by blast
    with that o' show ?thesis by simp
  qed
  have "ch < sf_next s" using assms(1) o' unfolding sf_inv_def senders_ok_def by blast
  moreover have "task_ok s (sf_tasks s t')" using assms(1) by (simp add: sf_inv_def)
  ultimately have "task_ok s (Waiting k ch)"
    using t' key by (cases "sf_tasks s t'") auto
  then have "task_ok (sf_set_task t (Waiting k ch) s) (Waiting k ch)"
    by (rule task_ok_frame) (auto simp: sf_set_task_def split: if_splits)
  with assms Some show ?thesis unfolding sf_enter_def by (auto intro!: quiet_task)
next
  case None
  let ?c = "sf_next s"
  define s' where "s' = sf_enter t k s"
  have s': "s' = s\<lparr>sf_tasks := (sf_tasks s)(t := Leading k ?c), sf_in_flight := (sf_in_flight s)(k \<mapsto> ?c),
      sf_sender := (sf_sender s)(?c := True), sf_next := Suc ?c\<rparr>"
    using None by (simp add: s'_def step_defs)
  have lt: "owns (sf_tasks s t') = Some (k', ch) \<Longrightarrow> ch < ?c" for t' k' ch
    using assms(1) unfolding sf_inv_def senders_ok_def by blast
  have slots: "slots_ok s'"
    using sf_inv_parts(1) [OF assms(1)] _ None
    by (rule slots_take [where t = t and x = "Leading k ?c" and ch = ?c]) (simp_all add: s' assms(2))
  have senders: "senders_ok s'"
    using sf_inv_parts(2) [OF assms(1)]
    by (rule senders_take [where t = t and x = "Leading k ?c" and k = k]) (simp_all add: s' assms(2))
  have "task_ok s' (sf_tasks s' t')" for t'
  proof (cases "t' = t")
    case True
    then show ?thesis using assms(1) by (simp add: s' sf_inv_def)
  next
    case False
    have "task_ok s' (sf_tasks s t')"
    proof (rule task_ok_frame)
      show "task_ok s (sf_tasks s t')" using assms(1) by (simp add: sf_inv_def)
    qed (auto simp: s' split: if_splits)
    with False show ?thesis by (simp add: s')
  qed
  with slots senders assms(1) show ?thesis
    unfolding s'_def [symmetric] by (auto simp: sf_inv_def s' cache_answered_def)
qed

lemma owner_key:
  assumes "sf_inv s" "owns (sf_tasks s t) = Some (k, ch)" "sf_tasks s t' = Waiting k' ch"
  shows "k' = k"
proof -
  have "task_ok s (Waiting k' ch)" using sf_inv_parts(5) [OF assms(1), of t'] assms(3) by simp
  then have "\<forall>u k''. owns (sf_tasks s u) = Some (k'', ch) \<longrightarrow> k'' = k'" unfolding task_ok.simps by blast
  with assms(2) show ?thesis by blast
qed

lemma inv_publish:
  assumes "sf_inv s" "sf_tasks s t = Stored k ch r"
  shows "sf_inv (sf_publish t k ch r s)"
proof -
  define s' where "s' = sf_publish t k ch r s"
  have s': "s' = s\<lparr>sf_tasks := (sf_tasks s)(t := Sent k ch r), sf_value := (sf_value s)(ch \<mapsto> ok r)\<rparr>"
    by (simp add: s'_def step_defs)
  note inv = sf_inv_parts [OF assms(1)]
  have own: "owns (sf_tasks s t) = Some (k, ch)" using assms(2) by simp
  have r: "(k, r) \<in> set (sf_answers s)" using inv(5) [of t] assms(2) by simp
  have o': "owns (sf_tasks s' u) = owns (sf_tasks s u)" for u using assms(2) by (simp add: s')
  have tables: "slots_ok s'" "senders_ok s'"
    by (rule slots_frame [OF inv(1)] senders_frame [OF inv(2)]; simp add: s' assms(2))+
  have "task_ok s' (sf_tasks s u)" if "u \<noteq> t" for u
  proof (cases "\<exists>k'. owns (sf_tasks s u) = Some (k', ch)")
    case True
    with sender_facts(2) [OF inv(2) own] that show ?thesis by blast
  next
    case False
    show ?thesis
    proof (cases "sf_tasks s u")
      case (Waiting k' c)
      have w: "task_ok s (Waiting k' c)" using inv(5) [of u] Waiting by simp
      have "\<exists>x. (k', x) \<in> set (sf_answers s) \<and> ok x = v" if "sf_value s' c = Some v" for v
      proof (cases "c = ch")
        case True
        with owner_key [OF assms(1) own] Waiting r that show ?thesis by (auto simp: s')
      qed (use w that in \<open>auto simp: s'\<close>)
      moreover have "\<forall>t k''. owns (sf_tasks s' t) = Some (k'', c) \<longrightarrow> k'' = k'"
        unfolding o' using w by simp
      ultimately show ?thesis using Waiting w by (simp add: s')
    qed (use inv(5) [of u] False in \<open>auto simp: s' split: option.splits\<close>)
  qed
  then have "task_ok s' (sf_tasks s' u)" for u using r by (cases "u = t") (auto simp: s')
  moreover have "sf_next s' \<le> c \<Longrightarrow> sf_value s' c = None" for c
    using sender_facts(3) [OF inv(2) own] inv(4) [of c] by (simp add: s')
  moreover have "cache_answered s'" using inv(3) by (simp add: s' cache_answered_def)
  ultimately show ?thesis using tables unfolding s'_def [symmetric] sf_inv_def by blast
qed

text \<open>The two drops give the slot and the sender back; nobody's channel value changes.\<close>

lemma inv_give:
  assumes "sf_inv s" "slots_ok s'" "senders_ok s'" "sf_tasks s' = (sf_tasks s)(t := x)" "task_ok s' x"
    and "sf_next s' = sf_next s" "sf_value s' = sf_value s" "sf_cache s' = sf_cache s"
    and "sf_answers s' = sf_answers s"
    and "\<And>p. owns x = Some p \<Longrightarrow> owns (sf_tasks s t) = Some p"
  shows "sf_inv s'"
proof -
  have "task_ok s' (sf_tasks s' u)" for u
  proof (cases "u = t")
    case False
    have "task_ok s' (sf_tasks s u)"
    proof (rule task_ok_frame)
      show "task_ok s (sf_tasks s u)" using assms(1) by (rule sf_inv_parts)
    qed (use assms(4,6,7,9,10) in \<open>simp_all split: if_splits\<close>)
    with False assms(4) show ?thesis by simp
  qed (use assms(4,5) in simp)
  then show ?thesis
    using assms(2,3,6,7,8,9) sf_inv_parts(3,4) [OF assms(1)] by (simp add: sf_inv_def cache_answered_def)
qed

lemma inv_release:
  assumes "sf_inv s" "holds (sf_tasks s t) = Some (k, ch)"
    and "task_ok (sf_release t k ch r s) (Dropping k ch r)"
  shows "sf_inv (sf_release t k ch r s)"
proof -
  define s' where "s' = sf_release t k ch r s"
  have s': "s' = s\<lparr>sf_tasks := (sf_tasks s)(t := Dropping k ch r), sf_in_flight := (sf_in_flight s)(k := None)\<rparr>"
    by (simp add: s'_def step_defs)
  note inv = sf_inv_parts [OF assms(1)] and own = holds_owns [OF assms(2)]
  have "slots_ok s'"
    using inv(1) assms(2) _ sender_facts(2) [OF inv(2) holds_owns own]
    by (rule slots_give [where x = "Dropping k ch r"]) (simp_all add: s')
  moreover have "senders_ok s'"
    using inv(2) by (rule senders_frame) (simp_all add: s' own)
  ultimately show ?thesis unfolding s'_def [symmetric]
    using assms(3) own
    by (intro inv_give [OF assms(1), where t = t and x = "Dropping k ch r"]) (simp_all add: s' s'_def [symmetric])
qed

lemma inv_drop_sender:
  assumes "sf_inv s" "sf_tasks s t = Dropping k ch r"
  shows "sf_inv (sf_drop_sender t k ch r s)"
proof -
  let ?x = "case r of Some x \<Rightarrow> Done k x | None \<Rightarrow> Cancelled"
  define s' where "s' = sf_drop_sender t k ch r s"
  have s': "s' = s\<lparr>sf_tasks := (sf_tasks s)(t := ?x), sf_sender := (sf_sender s)(ch := False)\<rparr>"
    by (simp add: s'_def step_defs)
  note inv = sf_inv_parts [OF assms(1)]
  have x: "holds ?x = None" "owns ?x = None" by (simp_all split: option.split)
  have "slots_ok s'"
    using inv(1) by (rule slots_frame) (simp_all add: s' assms(2) x)
  moreover have "senders_ok s'"
    using inv(2) _ x(2) by (rule senders_give [where t = t and k = k and ch = ch]) (simp_all add: s' assms(2))
  moreover have "task_ok s' ?x" using inv(5) [of t] assms(2) by (auto simp: s' split: option.splits)
  ultimately show ?thesis unfolding s'_def [symmetric]
    using x(2) by (intro inv_give [OF assms(1), where t = t and x = ?x]) (simp_all add: s')
qed

lemma inv_step: "sf_step fk lim s s' \<Longrightarrow> sf_inv s \<Longrightarrow> sf_inv s'"
proof (induction rule: sf_step.induct)
  case (release s t k ch r)
  have "task_ok s (Sent k ch r)" using sf_inv_parts(5) [OF release(2), of t] release(1) by simp
  then show ?case using release by (intro inv_release) (simp_all add: step_defs)
next
  case (cancel_leader s t k ch)
  have "task_ok s (Leading k ch)"
    using sf_inv_parts(5) [OF cancel_leader(2), of t] cancel_leader(1) by simp
  then show ?case using cancel_leader by (intro inv_release) (simp_all add: step_defs)
next
  case (cancel_waiter s t k ch)
  then show ?case by (intro quiet_task) auto
qed (auto intro: quiet_task inv_enter inv_store inv_publish inv_drop_sender inv_wake inv_answer_alone)

lemma inv_init: "sf_inv sf_init"
  by (simp add: sf_inv_def sf_init_def slots_ok_def senders_ok_def cache_answered_def)

lemma sf_reachable_inv: "sf_reachable fk lim s \<Longrightarrow> sf_inv s"
  by (induction rule: sf_reachable.induct) (auto intro: inv_init inv_step)

text \<open>A task with a query of its own in flight as the leader of its key.\<close>

fun leads :: "sf_task \<Rightarrow> cache_key option" where
  "leads (Leading k ch) = Some k"
| "leads (Stored k ch r) = Some k"
| "leads (Sent k ch r) = Some k"
| "leads _ = None"

lemma leads_holds: "leads x = Some k \<longleftrightarrow> (\<exists>ch. holds x = Some (k, ch))"
  by (cases x) auto

lemma unique_holder:
  assumes "sf_inv s" "holds (sf_tasks s t) = Some (k, ch)" "holds (sf_tasks s t') = Some (k, ch')"
  shows "t = t'"
proof -
  note inv = sf_inv_parts [OF assms(1)]
  have "sf_in_flight s k = Some ch" "sf_in_flight s k = Some ch'"
    using slot_iff [OF inv(1)] assms(2,3) by blast+
  then have "ch = ch'" by simp
  with sender_facts(2) [OF inv(2) holds_owns [OF assms(2)]] holds_owns [OF assms(3)]
  show ?thesis by blast
qed

text \<open>C3. Singleflight safety in every reachable state of the concurrent resolver, for any schedule,
  any query outcomes and any cancellations: at most one task leads the query of a name and type; a
  task that finished, as leader, waiter or by its own fallback query, reports the outcome of a query
  that was really made for that same name and type; and so does every cache entry.\<close>

theorem singleflight_safe:
  assumes "sf_reachable fk lim s"
  shows "(\<forall>t t' k. leads (sf_tasks s t) = Some k \<and> leads (sf_tasks s t') = Some k \<longrightarrow> t = t')
    \<and> (\<forall>t k r. sf_tasks s t = Done k r \<longrightarrow> (\<exists>r'. (k, r') \<in> set (sf_answers s) \<and> ok r' = ok r))
    \<and> (\<forall>k e. map_of (sf_cache s) k = Some e \<longrightarrow>
         (\<exists>r. (k, r) \<in> set (sf_answers s) \<and> ce_records e = ok r))"
proof -
  have inv: "sf_inv s" using assms by (rule sf_reachable_inv)
  have "t = t'" if "leads (sf_tasks s t) = Some k" "leads (sf_tasks s t') = Some k" for t t' k
    using that unique_holder [OF inv] unfolding leads_holds by blast
  moreover have "\<exists>r'. (k, r') \<in> set (sf_answers s) \<and> ok r' = ok r" if "sf_tasks s t = Done k r" for t k r
  proof -
    have "task_ok s (Done k r)" using sf_inv_parts(5) [OF inv, of t] that by simp
    then show ?thesis unfolding task_ok.simps .
  qed
  ultimately show ?thesis using sf_inv_parts(3) [OF inv] unfolding cache_answered_def by blast
qed

text \<open>A concrete schedule: task 1 leads, task 2 waits for it and takes over its answer.\<close>

definition witness_schedule :: sf_state where
  "witness_schedule =
     (let k = (''a.io'', QTYPE_A); r = Ok [V4 (Ipv4Addr 1 2 3 4)];
          s1 = sf_enter 2 k (sf_set_task 2 (Enter k) (sf_enter 1 k (sf_set_task 1 (Enter k) sf_init)));
          s2 = sf_publish 1 k 0 r (sf_store head_key default_cache_limits 0 1 k 0 r s1)
      in sf_wake 2 k (Some [V4 (Ipv4Addr 1 2 3 4)]) s2)"

lemma witness_schedule_reachable: "sf_reachable head_key default_cache_limits witness_schedule"
  unfolding witness_schedule_def Let_def
  by (intro sf_reachable.step [OF _ sf_step.wake] sf_reachable.step [OF _ sf_step.publish]
      sf_reachable.step [OF _ sf_step.returned] sf_reachable.step [OF _ sf_step.enter]
      sf_reachable.step [OF _ sf_step.arrive] sf_reachable.init)
    (simp_all add: step_defs sf_init_def)

lemma witness_schedule_tasks:
  "sf_tasks witness_schedule 2 = Done (''a.io'', QTYPE_A) (Ok [V4 (Ipv4Addr 1 2 3 4)])"
  "leads (sf_tasks witness_schedule 1) = Some (''a.io'', QTYPE_A)"
  by (simp_all add: witness_schedule_def step_defs sf_init_def Let_def)

theorem singleflight_safe_witness:
  "sf_tasks witness_schedule 2 = Done (''a.io'', QTYPE_A) (Ok [V4 (Ipv4Addr 1 2 3 4)]) \<and>
   (\<exists>r'. ((''a.io'', QTYPE_A), r') \<in> set (sf_answers witness_schedule) \<and>
      ok r' = Some [V4 (Ipv4Addr 1 2 3 4)])"
  using singleflight_safe [OF witness_schedule_reachable] witness_schedule_tasks(1) by fastforce

section \<open>No waiter is left behind\<close>

text \<open>C23. Singleflight progress: in every reachable state a waiting task can take a step itself (a
  value is published, or the sender is gone), or the leader that owns its channel is still there,
  working for the same name and type; and that leader always has a step that brings it nearer to
  the wake-up. No lost notification and no wait on a dead channel.\<close>

theorem waiter_never_stuck:
  assumes "sf_reachable fk lim s" "sf_tasks s t = Waiting k ch"
  shows "(\<exists>v. sf_value s ch = Some v \<and> sf_step fk lim s (sf_wake t k v s))
    \<or> (\<not> sf_sender s ch \<and> sf_step fk lim s (sf_set_task t (Requery k) s))
    \<or> (\<exists>t'. owns (sf_tasks s t') = Some (k, ch) \<and>
         (sf_tasks s t' = Leading k ch
          \<or> (\<exists>r. sf_tasks s t' = Stored k ch r \<and> sf_step fk lim s (sf_publish t' k ch r s))
          \<or> (\<exists>r. sf_tasks s t' = Dropping k ch r \<and> sf_step fk lim s (sf_drop_sender t' k ch r s))))"
proof -
  have inv: "sf_inv s" using assms(1) by (rule sf_reachable_inv)
  note wake = sf_step.wake [OF assms(2)] and closed = sf_step.closed [OF assms(2)]
  show ?thesis
  proof (cases "sf_value s ch = None \<and> sf_sender s ch")
    case True
    then obtain t' k' where o': "owns (sf_tasks s t') = Some (k', ch)"
      using sender_facts(1) [OF sf_inv_parts(2) [OF inv]] by blast
    have "k' = k" using owner_key [OF inv o' assms(2)] by simp
    with o' True sf_inv_parts(5) [OF inv, of t'] have
      "sf_tasks s t' = Leading k ch \<or> (\<exists>r. sf_tasks s t' = Stored k ch r) \<or> (\<exists>r. sf_tasks s t' = Dropping k ch r)"
      by (cases "sf_tasks s t'") auto
    then show ?thesis using o' \<open>k' = k\<close> sf_step.publish sf_step.drop_sender by blast
  next
    case False
    then show ?thesis using wake closed by (cases "sf_value s ch") auto
  qed
qed

theorem waiter_never_stuck_witness:
  "let k = (''a.io'', QTYPE_A);
       s = sf_enter 2 k (sf_set_task 2 (Enter k) (sf_enter 1 k (sf_set_task 1 (Enter k) sf_init)))
   in sf_tasks s 2 = Waiting k 0 \<and> (\<exists>t'. owns (sf_tasks s t') = Some (k, 0))"
proof -
  let ?k = "(''a.io'', QTYPE_A)"
  define s where "s = sf_enter 2 ?k (sf_set_task 2 (Enter ?k) (sf_enter 1 ?k (sf_set_task 1 (Enter ?k) sf_init)))"
  have r: "sf_reachable head_key default_cache_limits s"
    unfolding s_def
    by (intro sf_reachable.step [OF _ sf_step.enter] sf_reachable.step [OF _ sf_step.arrive]
        sf_reachable.init) (simp_all add: step_defs sf_init_def)
  have w: "sf_tasks s 2 = Waiting ?k 0" and v: "sf_value s 0 = None" "sf_sender s 0"
    by (simp_all add: s_def step_defs sf_init_def)
  from waiter_never_stuck [OF r w] v w show ?thesis unfolding Let_def s_def [symmetric] by auto
qed

end
