(* ===== verification/Std_Net.thy ===== *)
theory Std_Net
  imports Prelude Rust_Str Net_Types
begin

text \<open>
  \<open>str::parse\<close> of \<open>std::net\<close> addresses (\<open>core::net::parser\<close>): dotted IPv4 without leading zeros,
  IPv6 with one \<open>::\<close> and an optional embedded IPv4 tail, and socket addresses with brackets, scope
  id and port. A reader takes a prefix of the text and returns the value with the text left.
\<close>

section \<open>Readers\<close>

definition to_digit :: "nat \<Rightarrow> char \<Rightarrow> nat option" where
  "to_digit radix c =
     (let n = (of_char c :: nat);
          d = (if 48 \<le> n \<and> n \<le> 57 then n - 48
               else if 97 \<le> n \<and> n \<le> 122 then n - 87
               else if 65 \<le> n \<and> n \<le> 90 then n - 55 else 36)
      in if d < radix then Some d else None)"

fun read_digits :: "nat \<Rightarrow> string \<Rightarrow> nat list \<times> string" where
  "read_digits radix [] = ([], [])"
| "read_digits radix (c # cs) =
     (case to_digit radix c of
        Some d \<Rightarrow> let (ds, rest) = read_digits radix cs in (d # ds, rest)
      | None \<Rightarrow> ([], c # cs))"

text \<open>\<open>read_number\<close>: at least one digit, at most \<open>max_digits\<close>, no leading zero unless allowed, and a
  value the integer type holds.\<close>

definition read_number :: "nat \<Rightarrow> nat option \<Rightarrow> bool \<Rightarrow> nat \<Rightarrow> string \<Rightarrow> (nat \<times> string) option" where
  "read_number radix max_digits allow_zero_prefix type_max s =
     (let (ds, rest) = read_digits radix s;
          v = foldl (\<lambda>acc d. acc * radix + d) 0 ds
      in if (case max_digits of Some m \<Rightarrow> m < length ds | None \<Rightarrow> False) then None
         else if ds = [] then None
         else if \<not> allow_zero_prefix \<and> hd ds = 0 \<and> 1 < length ds then None
         else if type_max < v then None
         else Some (v, rest))"

fun read_char :: "char \<Rightarrow> string \<Rightarrow> string option" where
  "read_char c [] = None"
| "read_char c (d # s) = (if d = c then Some s else None)"

definition read_separator ::
  "char \<Rightarrow> nat \<Rightarrow> (string \<Rightarrow> ('a \<times> string) option) \<Rightarrow> string \<Rightarrow> ('a \<times> string) option" where
  "read_separator sep index inner s =
     (if 0 < index then (case read_char sep s of Some s' \<Rightarrow> inner s' | None \<Rightarrow> None) else inner s)"

definition read_octet :: "nat \<Rightarrow> string \<Rightarrow> (nat \<times> string) option" where
  "read_octet i = read_separator (CHR ''.'') i (read_number 10 (Some 3) False 255)"

definition read_ipv4 :: "string \<Rightarrow> (ipv4 \<times> string) option" where
  "read_ipv4 s0 =
     (case read_octet 0 s0 of
        None \<Rightarrow> None
      | Some (a, s1) \<Rightarrow>
     (case read_octet 1 s1 of
        None \<Rightarrow> None
      | Some (b, s2) \<Rightarrow>
     (case read_octet 2 s2 of
        None \<Rightarrow> None
      | Some (c, s3) \<Rightarrow>
     (case read_octet 3 s3 of
        None \<Rightarrow> None
      | Some (d, s4) \<Rightarrow>
          Some (Ipv4Addr (word_of_nat a) (word_of_nat b) (word_of_nat c) (word_of_nat d), s4)))))"

text \<open>\<open>read_groups\<close> with \<open>k\<close> groups left, the next one at position \<open>i\<close>; the flag says that an
  embedded IPv4 address ended them.\<close>

fun read_groups :: "nat \<Rightarrow> nat \<Rightarrow> string \<Rightarrow> u16 list \<times> bool \<times> string" where
  "read_groups 0 i s = ([], False, s)"
| "read_groups (Suc k) i s =
     (case (if 0 < k then read_separator (CHR '':'') i read_ipv4 s else None) of
        Some (Ipv4Addr a b c d, s') \<Rightarrow> ([be16 a b, be16 c d], True, s')
      | None \<Rightarrow>
          (case read_separator (CHR '':'') i (read_number 16 (Some 4) True 65535) s of
             None \<Rightarrow> ([], False, s)
           | Some (g, s') \<Rightarrow>
               let (gs, v4, s'') = read_groups k (Suc i) s' in (word_of_nat g # gs, v4, s'')))"

definition ipv6_of_groups :: "u16 list \<Rightarrow> ipv6" where
  "ipv6_of_groups gs = ipv6_from (concat (map to_be16 gs))"

definition read_ipv6 :: "string \<Rightarrow> (ipv6 \<times> string) option" where
  "read_ipv6 s =
     (let (head, head_ipv4, s1) = read_groups 8 0 s
      in if length head = 8 then Some (ipv6_of_groups head, s1)
         else if head_ipv4 then None
         else case read_char (CHR '':'') s1 of
                None \<Rightarrow> None
              | Some s2 \<Rightarrow>
             (case read_char (CHR '':'') s2 of
                None \<Rightarrow> None
              | Some s3 \<Rightarrow>
                  let (tail, tail_ipv4, s4) = read_groups (8 - (length head + 1)) 0 s3
                  in Some (ipv6_of_groups (head @ replicate (8 - length head - length tail) 0 @ tail), s4)))"

definition read_port :: "string \<Rightarrow> (nat \<times> string) option" where
  "read_port s = (case read_char (CHR '':'') s of
     None \<Rightarrow> None | Some s' \<Rightarrow> read_number 10 None True 65535 s')"

definition read_sockaddr_v4 :: "string \<Rightarrow> (sockaddr \<times> string) option" where
  "read_sockaddr_v4 s =
     (case read_ipv4 s of
        None \<Rightarrow> None
      | Some (ip, s1) \<Rightarrow>
     (case read_port s1 of None \<Rightarrow> None | Some (p, s2) \<Rightarrow> Some (SA4 ip (word_of_nat p), s2)))"

definition read_scope :: "string \<Rightarrow> nat \<times> string" where
  "read_scope s =
     (case read_char (CHR ''%'') s of
        None \<Rightarrow> (0, s)
      | Some s' \<Rightarrow> (case read_number 10 None True (2 ^ 32 - 1) s' of None \<Rightarrow> (0, s) | Some r \<Rightarrow> r))"

definition read_sockaddr_v6 :: "string \<Rightarrow> (sockaddr \<times> string) option" where
  "read_sockaddr_v6 s =
     (case read_char (CHR ''['') s of
        None \<Rightarrow> None
      | Some s1 \<Rightarrow>
     (case read_ipv6 s1 of
        None \<Rightarrow> None
      | Some (ip, s2) \<Rightarrow>
          let (scope, s3) = read_scope s2
          in (case read_char (CHR '']'') s3 of
                None \<Rightarrow> None
              | Some s4 \<Rightarrow>
             (case read_port s4 of
                None \<Rightarrow> None
              | Some (p, s5) \<Rightarrow> Some (SA6 ip (word_of_nat p) 0 (word_of_nat scope), s5)))))"

section \<open>Parsers: the whole text is read\<close>

fun parse_with :: "('a \<times> string) option \<Rightarrow> 'a option" where
  "parse_with (Some (x, [])) = Some x"
| "parse_with _ = None"

definition parse_ipv4 :: "string \<Rightarrow> ipv4 option" where
  "parse_ipv4 s = (if 15 < length s then None else parse_with (read_ipv4 s))"

definition parse_ipv6 :: "string \<Rightarrow> ipv6 option" where
  "parse_ipv6 s = parse_with (read_ipv6 s)"

definition parse_ip :: "string \<Rightarrow> ipaddr option" where
  "parse_ip s =
     parse_with (case read_ipv4 s of
        Some (ip, rest) \<Rightarrow> Some (V4 ip, rest)
      | None \<Rightarrow> map_option (\<lambda>(ip, rest). (V6 ip, rest)) (read_ipv6 s))"

definition parse_sockaddr :: "string \<Rightarrow> sockaddr option" where
  "parse_sockaddr s =
     parse_with (case read_sockaddr_v4 s of Some r \<Rightarrow> Some r | None \<Rightarrow> read_sockaddr_v6 s)"

fun show_ipv4 :: "ipv4 \<Rightarrow> string" where
  "show_ipv4 (Ipv4Addr a b c d) =
     show_nat (unat a) @ CHR ''.'' # show_nat (unat b) @ CHR ''.'' # show_nat (unat c) @ CHR ''.'' #
     show_nat (unat d)"

section \<open>Numbers read back\<close>

text \<open>Text that cannot extend a decimal number.\<close>

definition no_digit :: "string \<Rightarrow> bool" where
  "no_digit s \<longleftrightarrow> (case s of [] \<Rightarrow> True | c # cs \<Rightarrow> to_digit 10 c = None)"

lemma no_digit_simps [simp]:
  "no_digit []" "no_digit (CHR ''.'' # s)" "no_digit (CHR '':'' # s)" "no_digit (CHR '']'' # s)"
  by (simp_all add: no_digit_def to_digit_def)

lemma read_char_same [simp]: "read_char c (c # s) = Some s"
  by simp

lemma to_digit_digit [simp]: "n < 10 \<Longrightarrow> to_digit 10 (char_of (48 + n :: nat)) = Some n"
  by (simp add: to_digit_def Let_def)

lemma read_digits_stop: "no_digit s \<Longrightarrow> read_digits 10 s = ([], s)"
  by (cases s) (auto simp: no_digit_def)

lemma read_digits_append:
  "read_digits 10 s = (ds, []) \<Longrightarrow> read_digits 10 (s @ t) = (let (es, r) = read_digits 10 t in (ds @ es, r))"
  by (induction s arbitrary: ds) (auto split: option.splits prod.splits)

definition val :: "nat list \<Rightarrow> nat" where
  "val = foldl (\<lambda>acc d. acc * 10 + d) 0"

lemma val_snoc [simp]: "val (ds @ [d]) = val ds * 10 + d"
  by (simp add: val_def)

lemma show_nat_step: "10 \<le> n \<Longrightarrow> show_nat n = show_nat (n div 10) @ [char_of (48 + n mod 10)]"
  by (subst show_nat.simps) simp

lemma show_nat_digit: "n < 10 \<Longrightarrow> show_nat n = [char_of (48 + n)]"
  by (subst show_nat.simps) simp

lemma read_digits_digit: "n < 10 \<Longrightarrow> read_digits 10 [char_of (48 + n :: nat)] = ([n], [])"
  by (simp only: read_digits.simps to_digit_digit option.case Let_def prod.case)

lemma read_digits_show_nat:
  "\<exists>ds. read_digits 10 (show_nat n) = (ds, []) \<and> val ds = n \<and> ds \<noteq> [] \<and> (0 < n \<longrightarrow> hd ds \<noteq> 0)
     \<and> (n = 0 \<longrightarrow> length ds = 1) \<and> length ds = length (show_nat n)"
proof (induction n rule: show_nat.induct)
  case (1 n)
  show ?case
  proof (cases "n < 10")
    case True
    then show ?thesis
      by (intro exI [of _ "[n]"]) (simp add: show_nat_digit [OF True] read_digits_digit [OF True] val_def
          del: read_digits.simps)
  next
    case False
    then have "0 < n div 10" by simp
    then obtain ds where ds: "read_digits 10 (show_nat (n div 10)) = (ds, [])" "val ds = n div 10" "ds \<noteq> []"
      "hd ds \<noteq> 0" "length ds = length (show_nat (n div 10))"
      using "1.IH" [OF False] by blast
    have s: "show_nat n = show_nat (n div 10) @ [char_of (48 + n mod 10)]"
      using False show_nat_step [of n] by simp
    have "read_digits 10 (show_nat n) = (ds @ [n mod 10], [])"
      unfolding s read_digits_append [OF ds(1)] using read_digits_digit [of "n mod 10"] by simp
    then show ?thesis
      using ds False by (intro exI [of _ "ds @ [n mod 10]"]) (simp add: s del: read_digits.simps)
  qed
qed

lemma length_show_nat_step: "n < 10 * m \<Longrightarrow> (\<And>k. k < m \<Longrightarrow> length (show_nat k) \<le> j) \<Longrightarrow> 0 < j \<Longrightarrow>
    length (show_nat n) \<le> Suc j"
  by (cases "n < 10") (simp_all add: show_nat_digit [of n] show_nat_step [of n] div_less_iff_less_mult mult.commute)

lemma length_show_nat_le3: "n < 1000 \<Longrightarrow> length (show_nat n) \<le> 3"
proof -
  have "length (show_nat k) \<le> Suc 1" if "k < 100" for k
    by (rule length_show_nat_step [where m = 10]) (use that in \<open>simp_all add: show_nat_digit\<close>)
  then have "length (show_nat k) \<le> 2" if "k < 100" for k using that by (simp add: numeral_2_eq_2)
  from length_show_nat_step [where m = 100, OF _ this] show "n < 1000 \<Longrightarrow> length (show_nat n) \<le> 3"
    by (simp add: numeral_3_eq_3 numeral_2_eq_2)
qed

lemma read_number_show_nat:
  assumes "n \<le> mx" "no_digit rest" "case m of Some k \<Rightarrow> length (show_nat n) \<le> k | None \<Rightarrow> True"
  shows "read_number 10 m z mx (show_nat n @ rest) = Some (n, rest)"
proof -
  obtain ds where ds: "read_digits 10 (show_nat n) = (ds, [])" "val ds = n" "ds \<noteq> []" "0 < n \<longrightarrow> hd ds \<noteq> 0"
    "n = 0 \<longrightarrow> length ds = 1" "length ds = length (show_nat n)"
    using read_digits_show_nat [of n] by (elim exE conjE)
  have "read_digits 10 (show_nat n @ rest) = (ds, rest)"
    using read_digits_append [OF ds(1), of rest] read_digits_stop [OF assms(2)] by simp
  then show ?thesis
    using ds assms(1,3) by (auto simp: read_number_def val_def Let_def split: option.splits)
qed

lemma read_octet_show:
  assumes "no_digit rest"
  shows "read_octet 0 (show_nat (unat (a :: u8)) @ rest) = Some (unat a, rest)"
    and "0 < i \<Longrightarrow> read_octet i (CHR ''.'' # show_nat (unat a) @ rest) = Some (unat a, rest)"
  using assms read_number_show_nat [of "unat a" 255 rest "Some 3" False] unat_lt_256 [of a]
    length_show_nat_le3 [of "unat a"]
  by (simp_all add: read_octet_def read_separator_def)

lemma read_ipv4_show: "no_digit rest \<Longrightarrow> read_ipv4 (show_ipv4 ip @ rest) = Some (ip, rest)"
  by (cases ip) (simp add: read_ipv4_def read_octet_show)

lemma length_show_ipv4: "length (show_ipv4 ip) \<le> 15"
proof -
  have l: "length (show_nat (unat (a :: u8))) \<le> 3" for a
    using length_show_nat_le3 [of "unat a"] unat_lt_256 [of a] by simp
  obtain a b c d where "ip = Ipv4Addr a b c d" by (cases ip)
  then show ?thesis using l [of a] l [of b] l [of c] l [of d] by simp
qed

lemma parse_show_ipv4 [simp]: "parse_ipv4 (show_ipv4 ip) = Some ip"
  using read_ipv4_show [of "[]" ip] length_show_ipv4 [of ip] by (simp add: parse_ipv4_def)

lemma parse_ip_show_ipv4 [simp]: "parse_ip (show_ipv4 ip) = Some (V4 ip)"
  using read_ipv4_show [of "[]" ip] by (simp add: parse_ip_def)

lemma read_port_show: "no_digit rest \<Longrightarrow> read_port (CHR '':'' # show_nat (unat (p :: u16)) @ rest) = Some (unat p, rest)"
  using read_number_show_nat [of "unat p" 65535 rest None True] unat_lt_65536 [of p]
  by (simp add: read_port_def)

lemma parse_sockaddr_show [simp]:
  "parse_sockaddr (show_ipv4 ip @ CHR '':'' # show_nat (unat (p :: u16))) = Some (SA4 ip p)"
  using read_ipv4_show [of "CHR '':'' # show_nat (unat p)" ip] read_port_show [of "[]" p]
  by (simp add: parse_sockaddr_def read_sockaddr_v4_def)

text \<open>Eight hexadecimal groups are enough room: a text never yields more.\<close>

lemma length_read_groups: "length (fst (read_groups k i s)) \<le> k"
proof (induction k arbitrary: i s)
  case (Suc k)
  show ?case
  proof (cases "if 0 < k then read_separator (CHR '':'') i read_ipv4 s else None")
    case None
    show ?thesis
    proof (cases "read_separator (CHR '':'') i (read_number 16 (Some 4) True 65535) s")
      case (Some r)
      obtain g s' where r: "r = (g, s')" by fastforce
      show ?thesis using Suc.IH [of "Suc i" s'] unfolding read_groups.simps None Some r
        by (cases "read_groups k (Suc i) s'") simp
    qed (unfold read_groups.simps None, simp)
  next
    case (Some r)
    then obtain a b c d s' where r: "r = (Ipv4Addr a b c d, s')" by (metis ipv4.exhaust surj_pair)
    from Some have "0 < k" by (simp split: if_splits)
    then show ?thesis unfolding read_groups.simps Some r by simp
  qed
qed simp

lemma digit_chars:
  "char_of (48 :: nat) = CHR ''0''"
  "char_of (49 :: nat) = CHR ''1''"
  "char_of (50 :: nat) = CHR ''2''"
  "char_of (51 :: nat) = CHR ''3''"
  "char_of (52 :: nat) = CHR ''4''"
  "char_of (53 :: nat) = CHR ''5''"
  "char_of (54 :: nat) = CHR ''6''"
  "char_of (55 :: nat) = CHR ''7''"
  "char_of (56 :: nat) = CHR ''8''"
  "char_of (57 :: nat) = CHR ''9''"
  by (simp_all add: char_of_def bit_0)

end
