(* ===== verification/Resolver.thy ===== *)
theory Resolver
  imports Dns_Wire Dns_Cache Singleflight Config Std_Net
begin

text \<open>
  The rest of \<open>src/dns.rs\<close>: the system and tunnel lookups, one UDP query with its receive loop, the
  choice by mode, the merge of both families into happy-eyeballs order, and \<open>resolve_dual\<close>. The
  host resolver and the sockets enter as their outcomes, a literal address is parsed as
  \<open>core::net::parser\<close> does (\<open>Std_Net\<close>); time is the sequence of instants the code reads.
\<close>

section \<open>Model\<close>

datatype dns_metric = CacheHit | NegativeCacheHit | QueryStarted | QueryFail | SingleflightDedup

datatype lookup_outcome = LookupTimeout | LookupFailed io_error | Resolved "sockaddr list"

definition family_ip :: "u16 \<Rightarrow> sockaddr \<Rightarrow> ipaddr option" where
  "family_ip qtype sa =
     (case sa of
        SA4 ip port \<Rightarrow> if qtype = QTYPE_A then Some (V4 ip) else None
      | SA6 ip port flow scope \<Rightarrow> if qtype = QTYPE_AAAA then Some (V6 ip) else None)"

definition resolve_system :: "lookup_outcome \<Rightarrow> string \<Rightarrow> u16 \<Rightarrow> record_set res \<times> dns_metric list" where
  "resolve_system outcome host qtype =
     (case outcome of
        LookupTimeout \<Rightarrow> (Err (Other (DnsSystemTimeout qtype host)), [QueryFail])
      | LookupFailed e \<Rightarrow> (Err (Io e), [QueryFail])
      | Resolved addrs \<Rightarrow>
          let records = push_all_unique [] (List.map_filter (family_ip qtype) addrs) in
          if records \<noteq> [] then (Ok records, [])
          else (Err (if qtype = QTYPE_A then DnsNoIpv4 host else Other (NoAaaaRecord host)), [QueryFail]))"

fun resolve_tunnel ::
  "(sockaddr \<Rightarrow> record_set res) \<Rightarrow> sockaddr list \<Rightarrow> string \<Rightarrow> u16 \<Rightarrow> record_set res \<times> dns_metric list"
where
  "resolve_tunnel query_one [] host qtype =
     (Err (if qtype = QTYPE_A then DnsNoIpv4 host else Other (NoAaaaRecord host)), [QueryFail])"
| "resolve_tunnel query_one (server # rest) host qtype =
     (case query_one server of
        Ok records \<Rightarrow> (Ok records, [])
      | Err e \<Rightarrow> resolve_tunnel query_one rest host qtype
      | Panic \<Rightarrow> (Panic, []))"

text \<open>One query's surroundings: whether a tunnel exists, what binding and sending give, the random
  transaction id, the instant of the send, and per loop iteration the instant read and what
  \<open>recv_from\<close> yields (payload and source).\<close>

record dns_io =
  io_tunnel :: bool
  io_bind4 :: "unit res"
  io_bind6 :: "unit option res"
  io_id :: u16
  io_send :: "unit ns_res"
  io_start :: instant
  io_recv :: "(instant \<times> (bytes \<times> sockaddr) ns_res) list"

fun recv_loop ::
  "instant \<Rightarrow> sockaddr \<Rightarrow> u16 \<Rightarrow> u16 \<Rightarrow> (instant \<times> (bytes \<times> sockaddr) ns_res) list \<Rightarrow> record_set res option"
where
  "recv_loop deadline server txid qtype [] = None"
| "recv_loop deadline server txid qtype ((now, r) # rest) =
     (if deadline - now = 0 then Some (Err (Other (DnsQueryTimeout server)))
      else case r of
        Err e \<Rightarrow> Some (Err (Netstack e))
      | Panic \<Rightarrow> Some Panic
      | Ok (reply, src) \<Rightarrow>
          if src \<noteq> server then recv_loop deadline server txid qtype rest
          else if length reply < 2 \<or> be16 (reply ! 0) (reply ! 1) \<noteq> txid
          then recv_loop deadline server txid qtype rest
          else Some (parse_dns_answers reply qtype txid))"

definition query_one :: "duration \<Rightarrow> dns_io \<Rightarrow> string \<Rightarrow> sockaddr \<Rightarrow> u16 \<Rightarrow> record_set res option" where
  "query_one timeout io host server qtype =
     (if \<not> io_tunnel io then Some (Err TunnelNotReady)
      else
        case (if sa_is_ipv4 server then io_bind4 io
              else and_then (io_bind6 io) (\<lambda>o'.
                ok_or o' (other ''DNS server is IPv6 but tunnel has no IPv6 route''))) of
          Err e \<Rightarrow> Some (Err e)
        | Panic \<Rightarrow> Some Panic
        | Ok _ \<Rightarrow>
            (case build_dns_query host qtype (io_id io) of
               Err e \<Rightarrow> Some (Err e)
             | Panic \<Rightarrow> Some Panic
             | Ok query \<Rightarrow>
                 (case io_send io of
                    Err e \<Rightarrow> Some (Err (Netstack e))
                  | Panic \<Rightarrow> Some Panic
                  | Ok _ \<Rightarrow> recv_loop (io_start io + timeout) server (io_id io) qtype (io_recv io))))"

definition query_record ::
  "dns_config \<Rightarrow> lookup_outcome \<Rightarrow> (sockaddr \<Rightarrow> record_set res) \<Rightarrow> string \<Rightarrow> u16 \<Rightarrow> record_set res \<times> dns_metric list"
where
  "query_record cfg sys q host qtype =
     (case dc_mode cfg of
        System \<Rightarrow> resolve_system sys host qtype
      | Tunnel \<Rightarrow> resolve_tunnel q (dc_servers cfg) host qtype)"

definition v6_of :: "ipaddr \<Rightarrow> ipv6 option" where
  "v6_of ip = (case ip of V6 i \<Rightarrow> Some i | V4 i \<Rightarrow> None)"

definition v4_of :: "ipaddr \<Rightarrow> ipv4 option" where
  "v4_of ip = (case ip of V4 i \<Rightarrow> Some i | V6 i \<Rightarrow> None)"

fun interleave :: "u16 \<Rightarrow> ipv6 list \<Rightarrow> ipv4 list \<Rightarrow> sockaddr list" where
  "interleave port [] [] = []"
| "interleave port (a # as) [] = SA6 a port 0 0 # interleave port as []"
| "interleave port [] (b # bs) = SA4 b port # interleave port [] bs"
| "interleave port (a # as) (b # bs) = SA6 a port 0 0 # SA4 b port # interleave port as bs"

definition merge_dual ::
  "record_set option \<Rightarrow> record_set option \<Rightarrow> u16 \<Rightarrow> string \<Rightarrow> sockaddr list res"
where
  "merge_dual v6 v4 port host =
     (let out = interleave port
        (List.map_filter v6_of (case v6 of Some r \<Rightarrow> r | None \<Rightarrow> []))
        (List.map_filter v4_of (case v4 of Some r \<Rightarrow> r | None \<Rightarrow> []))
      in if out = [] then Err (DnsNoIpv4 host) else Ok out)"

record dual_result =
  dr_addrs :: "sockaddr list res"
  dr_cache :: cache
  dr_metrics :: "dns_metric list"
  dr_asked :: "cache_key list"

definition resolve_dual ::
  "instant \<Rightarrow> instant \<Rightarrow> (cache_key \<Rightarrow> record_set res) \<Rightarrow> string \<Rightarrow> u16 \<Rightarrow> cache
    \<Rightarrow> dual_result"
where
  "resolve_dual now4 now6 dedup host port cache =
     (case parse_ip host of
        Some ip \<Rightarrow> \<lparr>dr_addrs = Ok [sockaddr_new ip port], dr_cache = cache, dr_metrics = [], dr_asked = []\<rparr>
      | None \<Rightarrow>
          let key = to_ascii_lowercase host;
              (cached_v4, c1) = lookup_cache now4 (key, QTYPE_A) cache;
              (cached_v6, c2) = lookup_cache now6 (key, QTYPE_AAAA) c1
          in case (cached_v4, cached_v6) of
               (Some v4, Some v6) \<Rightarrow>
                 \<lparr>dr_addrs = merge_dual v6 v4 port host, dr_cache = c2,
                  dr_metrics = CacheHit # (if v4 = None \<and> v6 = None then [NegativeCacheHit] else []),
                  dr_asked = []\<rparr>
             | _ \<Rightarrow>
                 let v4 = (case cached_v4 of
                             Some o' \<Rightarrow> ok (ok_or o' (DnsNoIpv4 host))
                           | None \<Rightarrow> ok (dedup (key, QTYPE_A)));
                     v6 = (case cached_v6 of
                             Some o' \<Rightarrow> ok (ok_or o' (Other (NoAaaaRecord host)))
                           | None \<Rightarrow> ok (dedup (key, QTYPE_AAAA)))
                 in \<lparr>dr_addrs = merge_dual v6 v4 port host, dr_cache = c2, dr_metrics = [QueryStarted],
                     dr_asked = (if cached_v4 = None then [(key, QTYPE_A)] else []) @
                                (if cached_v6 = None then [(key, QTYPE_AAAA)] else [])\<rparr>)"

section \<open>One query ignores everything that is not its server's reply\<close>

definition authentic :: "sockaddr \<Rightarrow> u16 \<Rightarrow> bytes \<times> sockaddr \<Rightarrow> bool" where
  "authentic server txid p \<longleftrightarrow>
     snd p = server \<and> 2 \<le> length (fst p) \<and> be16 (fst p ! 0) (fst p ! 1) = txid"

fun ignorable :: "instant \<Rightarrow> sockaddr \<Rightarrow> u16 \<Rightarrow> instant \<times> (bytes \<times> sockaddr) ns_res \<Rightarrow> bool" where
  "ignorable deadline server txid (now, Ok p) \<longleftrightarrow> now < deadline \<and> \<not> authentic server txid p"
| "ignorable deadline server txid _ \<longleftrightarrow> False"

lemma recv_loop_ignores:
  "list_all (ignorable deadline server txid) noise \<Longrightarrow>
     recv_loop deadline server txid qtype (noise @ es) = recv_loop deadline server txid qtype es"
  by (induction noise) (auto simp: authentic_def elim!: ignorable.elims)

lemma recv_loop_Ok:
  "recv_loop deadline server txid qtype es = Some (Ok rs) \<Longrightarrow>
     \<exists>pre now reply post. es = pre @ (now, Ok (reply, server)) # post
       \<and> list_all (ignorable deadline server txid) pre \<and> now < deadline
       \<and> parse_dns_answers reply qtype txid = Ok rs"
proof (induction es)
  case (Cons e es)
  obtain now r where e: "e = (now, r)" by (cases e)
  show ?case
  proof (cases "\<exists>p. r = Ok p \<and> \<not> authentic server txid p \<and> now < deadline")
    case True
    then have ig: "ignorable deadline server txid e" by (auto simp: e)
    with recv_loop_ignores [of deadline server txid "[e]" qtype es] Cons
    obtain pre now' reply post where "es = pre @ (now', Ok (reply, server)) # post"
      "list_all (ignorable deadline server txid) pre" "now' < deadline"
      "parse_dns_answers reply qtype txid = Ok rs" by auto
    with ig have "e # es = (e # pre) @ (now', Ok (reply, server)) # post"
      "list_all (ignorable deadline server txid) (e # pre)" by auto
    then show ?thesis using \<open>now' < deadline\<close> \<open>parse_dns_answers reply qtype txid = Ok rs\<close> by blast
  next
    case False
    with Cons.prems obtain reply where "r = Ok (reply, server)" "now < deadline"
      "parse_dns_answers reply qtype txid = Ok rs"
      by (auto simp: e authentic_def not_less split: if_splits result.splits prod.splits)
    then show ?thesis by (intro exI [of _ "[]"]) (auto simp: e)
  qed
qed simp

text \<open>C8. Off-path packets cannot influence a tunnel DNS query: datagrams from another source, too
  short, or with another transaction id leave the outcome of the receive loop unchanged however many
  arrive, and every accepted record set was parsed from a datagram of the queried server that arrived
  before the deadline, with nothing but such noise before it.\<close>

theorem dns_query_unspoofable:
  "(list_all (ignorable deadline server txid) noise \<longrightarrow>
      recv_loop deadline server txid qtype (noise @ es) = recv_loop deadline server txid qtype es)
   \<and> (recv_loop deadline server txid qtype es = Some (Ok rs) \<longrightarrow>
      (\<exists>pre now reply post. es = pre @ (now, Ok (reply, server)) # post
        \<and> list_all (ignorable deadline server txid) pre \<and> now < deadline
        \<and> parse_dns_answers reply qtype txid = Ok rs \<and> rs \<noteq> [] \<and> list_all (in_family qtype) rs))"
proof (intro conjI impI)
  assume "recv_loop deadline server txid qtype es = Some (Ok rs)"
  then obtain pre now reply post where "es = pre @ (now, Ok (reply, server)) # post"
    "list_all (ignorable deadline server txid) pre" "now < deadline"
    "parse_dns_answers reply qtype txid = Ok rs" by (blast dest: recv_loop_Ok)
  moreover have "rs \<noteq> [] \<and> list_all (in_family qtype) rs"
    using parse_dns_answers_good calculation(4) by blast
  ultimately show "\<exists>pre now reply post. es = pre @ (now, Ok (reply, server)) # post
    \<and> list_all (ignorable deadline server txid) pre \<and> now < deadline
    \<and> parse_dns_answers reply qtype txid = Ok rs \<and> rs \<noteq> [] \<and> list_all (in_family qtype) rs" by blast
qed (rule recv_loop_ignores)

definition witness_reply :: bytes where
  "witness_reply = [0, 7, 0x81, 0x80, 0, 0, 0, 1, 0, 0, 0, 0,
     0xC0, 0x0C, 0, 1, 0, 1, 0, 0, 0, 60, 0, 4, 1, 2, 3, 4]"

lemma witness_reply_parses:
  "parse_dns_answers witness_reply QTYPE_A 7 = Ok [V4 (Ipv4Addr 1 2 3 4)]"
proof -
  have "skip_name witness_reply 12 = Ok 14"
    by (subst skip_name.simps) (simp add: witness_reply_def checked_add_def usize_max_def)
  then show ?thesis
    by (simp add: parse_dns_answers_def u16_at_def witness_reply_def be16_def QTYPE_A_def
        numeral_eq_Suc [of "num.One"] checked_add_def usize_max_def ok_or_def answer_record_def push_unique_def)
qed

theorem dns_query_unspoofable_witness:
  "let server = SA4 (Ipv4Addr 1 1 1 1) 53; spoof = (1, Ok (witness_reply, SA4 (Ipv4Addr 6 6 6 6) 53))
   in recv_loop 10 server 7 QTYPE_A ([spoof] @ [(2, Ok (witness_reply, server))]) =
        Some (Ok [V4 (Ipv4Addr 1 2 3 4)])
      \<and> (\<exists>now reply. parse_dns_answers reply QTYPE_A 7 = Ok [V4 (Ipv4Addr 1 2 3 4)] \<and> now < (10 :: instant))"
proof -
  let ?server = "SA4 (Ipv4Addr 1 1 1 1) 53"
  have r: "recv_loop 10 ?server 7 QTYPE_A [(2, Ok (witness_reply, ?server))] = Some (Ok [V4 (Ipv4Addr 1 2 3 4)])"
    using witness_reply_parses by (simp add: witness_reply_def be16_def)
  have i: "list_all (ignorable 10 ?server 7) [(1, Ok (witness_reply, SA4 (Ipv4Addr 6 6 6 6) 53))]"
    by (simp add: authentic_def)
  note d = dns_query_unspoofable [of 10 ?server 7 "[(1, Ok (witness_reply, SA4 (Ipv4Addr 6 6 6 6) 53))]"
      QTYPE_A "[(2, Ok (witness_reply, ?server))]" "[V4 (Ipv4Addr 1 2 3 4)]"]
  from mp [OF conjunct2 [OF d] r] obtain now reply where
    "parse_dns_answers reply QTYPE_A 7 = Ok [V4 (Ipv4Addr 1 2 3 4)]" "now < (10 :: instant)" by blast
  then show ?thesis unfolding Let_def mp [OF conjunct1 [OF d] i] r by blast
qed

section \<open>Happy-eyeballs order\<close>

lemma interleave_filter:
  "filter (\<lambda>a. \<not> sa_is_ipv4 a) (interleave port as bs) = map (\<lambda>a. SA6 a port 0 0) as"
  "filter sa_is_ipv4 (interleave port as bs) = map (\<lambda>b. SA4 b port) bs"
  by (induction port as bs rule: interleave.induct) auto

lemma interleave_Nil [simp]: "interleave port as bs = [] \<longleftrightarrow> as = [] \<and> bs = []"
  by (cases "(port, as, bs)" rule: interleave.cases) auto

lemma interleave_alternates:
  "i < length as \<Longrightarrow> i < length bs \<Longrightarrow>
     interleave port as bs ! (2 * i) = SA6 (as ! i) port 0 0 \<and>
     interleave port as bs ! (2 * i + 1) = SA4 (bs ! i) port"
proof (induction port as bs arbitrary: i rule: interleave.induct)
  case (4 port a as b bs)
  then show ?case by (cases i) auto
qed auto

lemma interleave_set:
  "set (interleave port as bs) = (\<lambda>a. SA6 a port 0 0) ` set as \<union> (\<lambda>b. SA4 b port) ` set bs"
  by (induction port as bs rule: interleave.induct) auto

definition addrs6 :: "record_set option \<Rightarrow> ipv6 list" where
  "addrs6 r = List.map_filter v6_of (case r of Some x \<Rightarrow> x | None \<Rightarrow> [])"

definition addrs4 :: "record_set option \<Rightarrow> ipv4 list" where
  "addrs4 r = List.map_filter v4_of (case r of Some x \<Rightarrow> x | None \<Rightarrow> [])"

lemma merge_dual_alt:
  "merge_dual v6 v4 port host =
     (if addrs6 v6 = [] \<and> addrs4 v4 = [] then Err (DnsNoIpv4 host)
      else Ok (interleave port (addrs6 v6) (addrs4 v4)))"
  by (simp add: merge_dual_def addrs6_def addrs4_def Let_def)

text \<open>Property. Candidate order of a dual-stack answer: the merge fails exactly when neither family has an
  address; otherwise it holds every address once in its family's own order with the asked port,
  alternates the families, and starts with IPv6.\<close>

theorem merge_dual_order:
  "case merge_dual v6 v4 port host of
     Ok out \<Rightarrow>
       filter (\<lambda>a. \<not> sa_is_ipv4 a) out = map (\<lambda>a. SA6 a port 0 0) (addrs6 v6)
       \<and> filter sa_is_ipv4 out = map (\<lambda>b. SA4 b port) (addrs4 v4)
       \<and> out \<noteq> []
       \<and> list_all (\<lambda>i. \<not> sa_is_ipv4 (out ! (2 * i)) \<and> sa_is_ipv4 (out ! (2 * i + 1)))
           [0 ..< min (length (addrs6 v6)) (length (addrs4 v4))]
   | Err e \<Rightarrow> e = DnsNoIpv4 host \<and> addrs6 v6 = [] \<and> addrs4 v4 = []
   | Panic \<Rightarrow> False"
  using interleave_alternates [of _ "addrs6 v6" "addrs4 v4" port]
  by (auto simp: merge_dual_alt interleave_filter list_all_iff)

lemma set_addrs:
  "i \<in> set (addrs6 r) \<Longrightarrow> \<exists>x. r = Some x \<and> V6 i \<in> set x" "j \<in> set (addrs4 r) \<Longrightarrow> \<exists>x. r = Some x \<and> V4 j \<in> set x"
  by (auto simp: addrs6_def addrs4_def List.map_filter_def v6_of_def v4_of_def
      split: option.splits ipaddr.splits if_splits)

section \<open>Dual-stack resolution\<close>

text \<open>The first lookup removes at most its own slot, so the second sees the original cache.\<close>

lemma second_lookup:
  "k \<noteq> k' \<Longrightarrow> fst (lookup_cache now' k' (snd (lookup_cache now k cache))) = fst (lookup_cache now' k' cache)"
  unfolding lookup_cache_view(1) by (simp add: lookup_cache_view(2) split: option.splits)

definition answer :: "record_set option option \<Rightarrow> record_set res \<Rightarrow> record_set option" where
  "answer slot r = (case slot of Some o' \<Rightarrow> o' | None \<Rightarrow> ok r)"

lemma ok_ok_or [simp]: "ok (ok_or o' e) = o'"
  by (cases o') (auto simp: ok_or_def)

lemma resolve_dual_name:
  fixes cache host
  defines "key \<equiv> to_ascii_lowercase host"
  assumes "parse_ip host = None"
  shows "dr_addrs (resolve_dual now4 now6 dedup host port cache) =
      merge_dual (answer (fst (lookup_cache now6 (key, QTYPE_AAAA) cache)) (dedup (key, QTYPE_AAAA)))
        (answer (fst (lookup_cache now4 (key, QTYPE_A) cache)) (dedup (key, QTYPE_A))) port host"
    and "dr_asked (resolve_dual now4 now6 dedup host port cache) =
      filter (\<lambda>k. fst (lookup_cache (if snd k = QTYPE_A then now4 else now6) k cache) = None)
        [(key, QTYPE_A), (key, QTYPE_AAAA)]"
proof -
  obtain r4 c1 where l4: "lookup_cache now4 (key, QTYPE_A) cache = (r4, c1)" by fastforce
  obtain r6 c2 where l6: "lookup_cache now6 (key, QTYPE_AAAA) c1 = (r6, c2)" by fastforce
  have f6: "fst (lookup_cache now6 (key, QTYPE_AAAA) cache) = r6"
    using second_lookup [of "(key, QTYPE_A)" "(key, QTYPE_AAAA)" now6 now4 cache] l4 l6 by simp
  show "dr_addrs (resolve_dual now4 now6 dedup host port cache) =
      merge_dual (answer (fst (lookup_cache now6 (key, QTYPE_AAAA) cache)) (dedup (key, QTYPE_AAAA)))
        (answer (fst (lookup_cache now4 (key, QTYPE_A) cache)) (dedup (key, QTYPE_A))) port host"
    unfolding f6 l4 by (simp add: resolve_dual_def assms(2) key_def [symmetric] l4 l6 answer_def
        split: option.splits)
  show "dr_asked (resolve_dual now4 now6 dedup host port cache) =
      filter (\<lambda>k. fst (lookup_cache (if snd k = QTYPE_A then now4 else now6) k cache) = None)
        [(key, QTYPE_A), (key, QTYPE_AAAA)]"
    by (simp add: f6 l4 resolve_dual_def assms(2) key_def [symmetric] l6 split: option.splits)
qed

text \<open>The record type that answers for an address.\<close>

definition type_of :: "sockaddr \<Rightarrow> u16" where
  "type_of a = (if sa_is_ipv4 a then QTYPE_A else QTYPE_AAAA)"

lemma merge_dual_sources:
  assumes "merge_dual v6 v4 port host = Ok out" "a \<in> set out"
  shows "sa_port a = port"
    and "\<exists>rs. (if sa_is_ipv4 a then v4 else v6) = Some rs \<and> sa_ip a \<in> set rs"
  using assms set_addrs(1) [of _ v6] set_addrs(2) [of _ v4]
  by (auto simp: merge_dual_alt interleave_set split: if_splits)

text \<open>Property. Name resolution end to end: for a name, exactly the record types without a live cache entry
  (positive or negative) are queried, under the lower-cased name; and every candidate returned has
  the requested port and comes from the live cache entry of its own type or, where there is none,
  from that type's query.\<close>

theorem resolve_dual_correct:
  fixes now4 now6 cache host dedup port
  assumes "parse_ip host = None"
  defines "key \<equiv> to_ascii_lowercase host"
    and "live \<equiv> \<lambda>q. fst (lookup_cache (if q = QTYPE_A then now4 else now6) (to_ascii_lowercase host, q) cache)"
    and "d \<equiv> resolve_dual now4 now6 dedup host port cache"
  shows "dr_asked d = filter (\<lambda>(h, q). live q = None) [(key, QTYPE_A), (key, QTYPE_AAAA)]
    \<and> (\<forall>out a. dr_addrs d = Ok out \<and> a \<in> set out \<longrightarrow>
         sa_port a = port \<and>
         (\<exists>rs. sa_ip a \<in> set rs \<and>
            (live (type_of a) = Some (Some rs) \<or> (live (type_of a) = None \<and> dedup (key, type_of a) = Ok rs))))"
proof (intro conjI allI impI)
  show "dr_asked d = filter (\<lambda>(h, q). live q = None) [(key, QTYPE_A), (key, QTYPE_AAAA)]"
    using resolve_dual_name(2) [of host, OF assms(1)] by (simp add: d_def live_def key_def)
  fix out a assume *: "dr_addrs d = Ok out \<and> a \<in> set out"
  then have m: "merge_dual (answer (live QTYPE_AAAA) (dedup (key, QTYPE_AAAA)))
      (answer (live QTYPE_A) (dedup (key, QTYPE_A))) port host = Ok out"
    using resolve_dual_name(1) [of host, OF assms(1)] by (simp add: d_def live_def key_def)
  show "sa_port a = port" using merge_dual_sources(1) [OF m] * by blast
  obtain rs where "answer (live (type_of a)) (dedup (key, type_of a)) = Some rs" "sa_ip a \<in> set rs"
    using merge_dual_sources(2) [OF m, of a] * by (cases "sa_is_ipv4 a") (auto simp: type_of_def)
  then show "\<exists>rs. sa_ip a \<in> set rs \<and>
      (live (type_of a) = Some (Some rs) \<or> (live (type_of a) = None \<and> dedup (key, type_of a) = Ok rs))"
    by (auto simp: answer_def split: option.splits)
qed

lemma not_literal: "parse_ip ''A.io'' = None"
proof -
  have "to_digit 10 (CHR ''A'') = None" "to_digit 16 (CHR ''A'') = Some 10" "to_digit 16 (CHR ''.'') = None"
    by (simp_all add: to_digit_def)
  then have "read_number 10 (Some 3) False 255 ''A.io'' = None"
    "read_number 16 (Some 4) True 65535 ''A.io'' = Some (10, ''.io'')"
    by (simp_all add: read_number_def)
  moreover from this(1) have v4: "read_ipv4 ''A.io'' = None"
    by (simp add: read_ipv4_def read_octet_def read_separator_def)
  moreover have "read_groups k (Suc 0) ''.io'' = ([], False, ''.io'')" for k
    by (cases k) (simp_all add: read_separator_def)
  ultimately have "read_groups (Suc 7) 0 ''A.io'' = ([10], False, ''.io'')"
    unfolding read_groups.simps by (simp add: read_separator_def)
  then show ?thesis using v4 by (simp add: parse_ip_def read_ipv6_def)
qed

lemma lower_A_io: "to_ascii_lowercase ''A.io'' = ''a.io''"
  by code_simp

theorem resolve_dual_correct_witness:
  "dr_asked (resolve_dual 5 5 (\<lambda>_. Err Socks) ''A.io'' 80
     [((''a.io'', QTYPE_A), \<lparr>ce_records = Some [V4 (Ipv4Addr 1 2 3 4)], ce_expires = 9\<rparr>)]) =
   [(''a.io'', QTYPE_AAAA)]"
  using resolve_dual_correct [where host = "''A.io''" and ?now4.0 = 5
      and ?now6.0 = 5 and dedup = "\<lambda>_. Err Socks" and port = 80 and
      cache = "[((''a.io'', QTYPE_A), \<lparr>ce_records = Some [V4 (Ipv4Addr 1 2 3 4)], ce_expires = 9\<rparr>)]"]
  by (simp add: lookup_cache_def lower_A_io not_literal)

text \<open>Property. A literal address in place of a name never causes DNS traffic: the text of any IPv4
  address comes back as that address with the requested port, nothing is queried, and the cache is
  as it was.\<close>

theorem literal_bypasses_dns:
  "resolve_dual now4 now6 dedup (show_ipv4 ip) port cache =
     \<lparr>dr_addrs = Ok [SA4 ip port], dr_cache = cache, dr_metrics = [], dr_asked = []\<rparr>"
  by (simp add: resolve_dual_def)

end
