(* ===== verification/Socks_Udp.thy ===== *)
theory Socks_Udp
  imports Prelude Rust_Str Net_Types
begin

text \<open>
  The SOCKS5 UDP framing of \<open>src/proxy/udp.rs\<close> (RFC 1928, section 7): parsing a client's datagram,
  wrapping a reply, and the choice of destination and tunnel socket when forwarding. Indexing is
  checked; a domain is the byte string that \<open>str::from_utf8\<close> accepted.
\<close>

section \<open>Model\<close>

text \<open>\<open>str::from_utf8\<close>: no overlong forms, no surrogates, nothing above U+10FFFF.\<close>

definition cont :: "u8 \<Rightarrow> bool" where
  "cont b \<longleftrightarrow> 0x80 \<le> b \<and> b \<le> 0xBF"

fun utf8_valid :: "bytes \<Rightarrow> bool" where
  "utf8_valid [] \<longleftrightarrow> True"
| "utf8_valid (a # r) \<longleftrightarrow>
     (if a \<le> 0x7F then utf8_valid r
      else case r of
        [] \<Rightarrow> False
      | b # r1 \<Rightarrow>
          if 0xC2 \<le> a \<and> a \<le> 0xDF then cont b \<and> utf8_valid r1
          else case r1 of
            [] \<Rightarrow> False
          | c # r2 \<Rightarrow>
              if 0xE0 \<le> a \<and> a \<le> 0xEF then
                cont b \<and> (a = 0xE0 \<longrightarrow> 0xA0 \<le> b) \<and> (a = 0xED \<longrightarrow> b \<le> 0x9F) \<and> cont c \<and> utf8_valid r2
              else case r2 of
                [] \<Rightarrow> False
              | d # r3 \<Rightarrow>
                  0xF0 \<le> a \<and> a \<le> 0xF4 \<and> cont b \<and> (a = 0xF0 \<longrightarrow> 0x90 \<le> b) \<and> (a = 0xF4 \<longrightarrow> b \<le> 0x8F) \<and>
                  cont c \<and> cont d \<and> utf8_valid r3)"

definition bytes_str :: "bytes \<Rightarrow> string" where
  "bytes_str b = map (\<lambda>w. char_of (unat w)) b"

datatype udp_target = TargetV4 ipv4 u16 | TargetV6 ipv6 u16 | TargetDomain string u16

record parsed_udp =
  pu_target :: udp_target
  pu_payload :: bytes

definition non_zero_port :: "u16 \<Rightarrow> 'a \<Rightarrow> 'a res" where
  "non_zero_port port x =
     (if port = 0 then Err (other ''SOCKS5 UDP destination port must be non-zero'') else Ok x)"

definition port_at :: "bytes \<Rightarrow> nat \<Rightarrow> u16 res" where
  "port_at b i = and_then (idx b i) (\<lambda>hi. and_then (idx b (i + 1)) (\<lambda>lo. Ok (be16 hi lo)))"

definition parse_v4 :: "bytes \<Rightarrow> parsed_udp res" where
  "parse_v4 rest =
     (if length rest < 6 then Err (other ''SOCKS5 UDP v4 header truncated'')
      else
        and_then (idx rest 0) (\<lambda>a. and_then (idx rest 1) (\<lambda>b.
        and_then (idx rest 2) (\<lambda>c. and_then (idx rest 3) (\<lambda>d.
        and_then (port_at rest 4) (\<lambda>port.
        and_then (slice rest 6 (length rest)) (\<lambda>payload.
          non_zero_port port
            \<lparr>pu_target = TargetV4 (Ipv4Addr a b c d) port, pu_payload = payload\<rparr>)))))))"

definition parse_domain :: "bytes \<Rightarrow> parsed_udp res" where
  "parse_domain rest =
     (if rest = [] then Err (other ''SOCKS5 UDP domain header truncated'')
      else
        and_then (idx rest 0) (\<lambda>l.
        let dlen = unat l in
        if dlen = 0 then Err (other ''SOCKS5 UDP domain must be non-empty'')
        else if length rest < 1 + dlen + 2 then Err (other ''SOCKS5 UDP domain header truncated'')
        else
          and_then (slice rest 1 (1 + dlen)) (\<lambda>host.
          if \<not> utf8_valid host then Err (other ''SOCKS5 UDP domain not utf8'')
          else
            and_then (port_at rest (1 + dlen)) (\<lambda>port.
            and_then (slice rest (1 + dlen + 2) (length rest)) (\<lambda>payload.
              non_zero_port port
                \<lparr>pu_target = TargetDomain (bytes_str host) port, pu_payload = payload\<rparr>)))))"

definition parse_v6 :: "bytes \<Rightarrow> parsed_udp res" where
  "parse_v6 rest =
     (if length rest < 18 then Err (other ''SOCKS5 UDP v6 header truncated'')
      else
        and_then (slice rest 0 16) (\<lambda>octets.
        and_then (port_at rest 16) (\<lambda>port.
        and_then (slice rest 18 (length rest)) (\<lambda>payload.
          non_zero_port port \<lparr>pu_target = TargetV6 (ipv6_from octets) port, pu_payload = payload\<rparr>))))"

definition parse_socks5_udp_header :: "bytes \<Rightarrow> parsed_udp res" where
  "parse_socks5_udp_header buf =
     (if length buf < 4 then Err (other ''SOCKS5 UDP packet too short'')
      else
        and_then (idx buf 0) (\<lambda>r0. and_then (idx buf 1) (\<lambda>r1.
        if r0 \<noteq> 0 \<or> r1 \<noteq> 0 then Err (other ''SOCKS5 UDP reserved bytes must be zero'')
        else
          and_then (idx buf 2) (\<lambda>frag.
          if frag \<noteq> 0 then Err (other ''SOCKS5 UDP fragmentation not supported'')
          else
            and_then (idx buf 3) (\<lambda>atyp.
            and_then (slice buf 4 (length buf)) (\<lambda>rest.
              if atyp = 1 then parse_v4 rest
              else if atyp = 3 then parse_domain rest
              else if atyp = 4 then parse_v6 rest
              else Err (Other (UnknownAtyp atyp))))))))"

fun wrap_socks5_udp :: "sockaddr \<Rightarrow> bytes \<Rightarrow> bytes" where
  "wrap_socks5_udp (SA4 ip port) payload = [0, 0, 0, 1] @ octets4 ip @ to_be16 port @ payload"
| "wrap_socks5_udp (SA6 ip port flow scope) payload = [0, 0, 0, 4] @ octets6 ip @ to_be16 port @ payload"

text \<open>Forwarding: where a datagram goes and over which of the two tunnel sockets.\<close>

datatype udp_socket = SocketV4 | SocketV6

definition choose_dest ::
  "bool \<Rightarrow> (string \<Rightarrow> u16 \<Rightarrow> sockaddr list res) \<Rightarrow> udp_target \<Rightarrow> sockaddr res"
where
  "choose_dest has_v6 resolve target =
     (case target of
        TargetV4 ip port \<Rightarrow> Ok (SA4 ip port)
      | TargetV6 ip port \<Rightarrow> Ok (SA6 ip port 0 0)
      | TargetDomain host port \<Rightarrow>
          and_then (resolve host port) (\<lambda>candidates.
            ok_or (List.find (\<lambda>c. if has_v6 then True else sa_is_ipv4 c) candidates)
              (Other (NoUsableFamily host))))"

definition pick_socket :: "bool \<Rightarrow> sockaddr \<Rightarrow> udp_socket res" where
  "pick_socket has_v6 dest =
     (if sa_is_ipv4 dest then Ok SocketV4
      else if has_v6 then Ok SocketV6
      else Err (other ''tunnel has no IPv6 address; cannot send to a v6 target''))"

text \<open>The datagram a packet turns into: socket, destination, payload.\<close>

definition forward_client_to_tunnel ::
  "bool \<Rightarrow> (string \<Rightarrow> u16 \<Rightarrow> sockaddr list res) \<Rightarrow> bytes \<Rightarrow> (udp_socket \<times> sockaddr \<times> bytes) res"
where
  "forward_client_to_tunnel has_v6 resolve packet =
     and_then (parse_socks5_udp_header packet) (\<lambda>parsed.
     and_then (choose_dest has_v6 resolve (pu_target parsed)) (\<lambda>dest.
     and_then (pick_socket has_v6 dest) (\<lambda>socket.
       Ok (socket, dest, pu_payload parsed))))"

section \<open>Parsing is total\<close>

lemma port_at_Ok [simp]: "i + 1 < length b \<Longrightarrow> port_at b i = Ok (be16 (b ! i) (b ! (i + 1)))"
  by (simp add: port_at_def)

lemma non_zero_port_no_panic [simp, no_panic]: "non_zero_port p x \<noteq> Panic"
  by (simp add: non_zero_port_def)

lemma parse_parts_no_panic [no_panic]:
  "parse_v4 r \<noteq> Panic" "parse_domain r \<noteq> Panic" "parse_v6 r \<noteq> Panic"
  by (auto simp: parse_v4_def parse_domain_def parse_v6_def Let_def not_less)

lemma parse_socks5_udp_header_no_panic [no_panic]: "parse_socks5_udp_header b \<noteq> Panic"
  by (auto simp: parse_socks5_udp_header_def no_panic not_less)

section \<open>Round trips\<close>

definition encode_target :: "udp_target \<Rightarrow> bytes" where
  "encode_target t =
     (case t of
        TargetV4 ip port \<Rightarrow> [1] @ octets4 ip @ to_be16 port
      | TargetV6 ip port \<Rightarrow> [4] @ octets6 ip @ to_be16 port
      | TargetDomain host port \<Rightarrow>
          [3, word_of_nat (length host)] @ map (\<lambda>c. word_of_nat (of_char c)) host @ to_be16 port)"

definition target_port :: "udp_target \<Rightarrow> u16" where
  "target_port t = (case t of TargetV4 ip p \<Rightarrow> p | TargetV6 ip p \<Rightarrow> p | TargetDomain h p \<Rightarrow> p)"

definition target_ok :: "udp_target \<Rightarrow> bool" where
  "target_ok t \<longleftrightarrow> target_port t \<noteq> 0 \<and>
     (case t of
        TargetDomain host port \<Rightarrow>
          host \<noteq> [] \<and> length host \<le> 255 \<and> utf8_valid (map (\<lambda>c. word_of_nat (of_char c)) host)
      | _ \<Rightarrow> True)"

lemma unat_of_char: "unat (word_of_nat (of_char c) :: u8) = of_char c"
proof -
  have "(of_char c :: nat) < 256" by simp
  then show ?thesis unfolding unat_of_nat by simp
qed

lemma bytes_str_of_str [simp]: "bytes_str (map (\<lambda>c. word_of_nat (of_char c)) s) = s"
  by (induction s) (simp_all add: bytes_str_def unat_of_char)

lemma port_at_append: "i = length pre \<Longrightarrow> port_at (pre @ to_be16 p @ suf) i = Ok p"
  by (simp add: port_at_def to_be16_def nth_append)

lemma parse_v4_encode:
  "p \<noteq> 0 \<Longrightarrow> parse_v4 (octets4 ip @ to_be16 p @ d) = Ok \<lparr>pu_target = TargetV4 ip p, pu_payload = d\<rparr>"
  using port_at_append [of 4 "octets4 ip" p d]
  by (cases ip) (simp add: parse_v4_def non_zero_port_def del: port_at_Ok)

lemma parse_v6_encode:
  "p \<noteq> 0 \<Longrightarrow> parse_v6 (octets6 ip @ to_be16 p @ d) = Ok \<lparr>pu_target = TargetV6 ip p, pu_payload = d\<rparr>"
  using port_at_append [of 16 "octets6 ip" p d]
  by (simp add: parse_v6_def non_zero_port_def del: port_at_Ok)

lemma parse_domain_encode:
  assumes "h \<noteq> []" "length h \<le> 255" "utf8_valid h" "p \<noteq> 0"
  shows "parse_domain (word_of_nat (length h) # h @ to_be16 p @ d) =
    Ok \<lparr>pu_target = TargetDomain (bytes_str h) p, pu_payload = d\<rparr>"
proof -
  have "unat (word_of_nat (length h) :: u8) = length h"
    using assms(2) by (simp add: unat_of_nat)
  then show ?thesis
    using assms port_at_append [of "Suc (length h)" "word_of_nat (length h) # h" p d]
    by (simp add: parse_domain_def non_zero_port_def Let_def del: port_at_Ok)
qed

lemma parse_encode:
  assumes "target_ok t"
  shows "parse_socks5_udp_header ([0, 0, 0] @ encode_target t @ d) = Ok \<lparr>pu_target = t, pu_payload = d\<rparr>"
proof (cases t)
  case (TargetV4 ip p)
  with assms parse_v4_encode [of p ip d] show ?thesis
    by (simp add: parse_socks5_udp_header_def encode_target_def target_ok_def target_port_def)
next
  case (TargetV6 ip p)
  with assms parse_v6_encode [of p ip d] show ?thesis
    by (simp add: parse_socks5_udp_header_def encode_target_def target_ok_def target_port_def)
next
  case (TargetDomain h p)
  with assms parse_domain_encode [of "map (\<lambda>c. word_of_nat (of_char c)) h" p d] show ?thesis
    by (simp add: parse_socks5_udp_header_def encode_target_def target_ok_def target_port_def)
qed

text \<open>Nothing else is accepted: an accepted datagram is the encoding of what it parsed to.\<close>

lemma split_port: "i + 1 < length b \<Longrightarrow> b = take i b @ to_be16 (be16 (b ! i) (b ! (i + 1))) @ drop (i + 2) b"
  by (simp add: Cons_nth_drop_Suc)

lemma non_zero_port_Ok [simp]: "non_zero_port p x = Ok y \<longleftrightarrow> p \<noteq> 0 \<and> x = y"
  by (simp add: non_zero_port_def)

lemma str_of_bytes_str [simp]: "map (\<lambda>c. word_of_nat (of_char c)) (bytes_str b) = b"
proof -
  have "(word_of_nat (of_char (char_of (unat w) :: char)) :: u8) = w" for w :: u8
    using unat_lt_256 [of w] by (simp add: of_char_of)
  then show ?thesis by (simp add: bytes_str_def comp_def)
qed

lemma bytes_str_simps [simp]: "length (bytes_str b) = length b" "bytes_str b = [] \<longleftrightarrow> b = []"
  by (simp_all add: bytes_str_def)

lemma parse_v4_only:
  assumes "parse_v4 r = Ok pu"
  shows "\<exists>ip p. p \<noteq> 0 \<and> pu_target pu = TargetV4 ip p \<and> r = octets4 ip @ to_be16 p @ pu_payload pu"
proof -
  have len: "\<not> length r < 6" using assms by (auto simp: parse_v4_def)
  have "take 4 r = [r ! 0, r ! 1, r ! 2, r ! 3]"
    using len by (auto simp: not_less numeral_eq_Suc Suc_le_length_iff)
  with split_port [of 4 r] len have
    "r = octets4 (Ipv4Addr (r ! 0) (r ! 1) (r ! 2) (r ! 3)) @ to_be16 (be16 (r ! 4) (r ! 5)) @ drop 6 r" by simp
  moreover have "(idx r 0 :: u8 res) = Ok (r ! 0)" using len by (intro idx_Ok) auto
  ultimately show ?thesis using assms len
    by (intro exI [of _ "Ipv4Addr (r ! 0) (r ! 1) (r ! 2) (r ! 3)"] exI [of _ "be16 (r ! 4) (r ! 5)"])
      (auto simp: parse_v4_def not_less)
qed

lemma parse_v6_only:
  assumes "parse_v6 r = Ok pu"
  shows "\<exists>ip p. p \<noteq> 0 \<and> pu_target pu = TargetV6 ip p \<and> r = octets6 ip @ to_be16 p @ pu_payload pu"
proof -
  have len: "\<not> length r < 18" using assms by (auto simp: parse_v6_def)
  with split_port [of 16 r] have
    "r = octets6 (ipv6_from (take 16 r)) @ to_be16 (be16 (r ! 16) (r ! 17)) @ drop 18 r" by simp
  with assms len show ?thesis by (auto simp: parse_v6_def not_less)
qed

lemma parse_domain_only:
  assumes "parse_domain r = Ok pu"
  shows "\<exists>h p. p \<noteq> 0 \<and> h \<noteq> [] \<and> length h \<le> 255 \<and> utf8_valid h \<and> pu_target pu = TargetDomain (bytes_str h) p \<and>
    r = word_of_nat (length h) # h @ to_be16 p @ pu_payload pu"
proof -
  obtain l rest where r: "r = l # rest" using assms by (cases r) (auto simp: parse_domain_def)
  define n where "n = unat l"
  have n: "0 < n" "n + 2 \<le> length rest" "n \<le> 255"
    using assms unat_lt_256 [of l] by (auto simp: parse_domain_def r n_def Let_def split: if_splits)
  have l: "l = word_of_nat (length (take n rest))" using n by (simp add: n_def)
  have rest: "rest = take n rest @ to_be16 (be16 (rest ! n) (rest ! (n + 1))) @ drop (n + 2) rest"
    using n by (intro split_port) simp
  have "utf8_valid (take n rest)" "be16 (rest ! n) (rest ! (n + 1)) \<noteq> 0"
    "pu = \<lparr>pu_target = TargetDomain (bytes_str (take n rest)) (be16 (rest ! n) (rest ! (n + 1))), pu_payload = drop (n + 2) rest\<rparr>"
    using assms n by (auto simp: parse_domain_def r n_def [symmetric] Let_def split: if_splits)
  with n l rest r show ?thesis
    by (intro exI [of _ "take n rest"] exI [of _ "be16 (rest ! n) (rest ! (n + 1))"]) auto
qed

lemma parse_only_encoded:
  assumes "parse_socks5_udp_header packet = Ok pu"
  shows "target_ok (pu_target pu) \<and> packet = [0, 0, 0] @ encode_target (pu_target pu) @ pu_payload pu"
proof -
  have "\<not> length packet < 4" using assms by (auto simp: parse_socks5_udp_header_def)
  then obtain r0 r1 frag atyp rest where packet: "packet = r0 # r1 # frag # atyp # rest"
    by (auto simp: not_less numeral_eq_Suc Suc_le_length_iff)
  have zero: "r0 = 0" "r1 = 0" "frag = 0"
    using assms by (auto simp: parse_socks5_udp_header_def packet split: if_splits)
  have "(atyp = 1 \<and> parse_v4 rest = Ok pu) \<or> (atyp = 3 \<and> parse_domain rest = Ok pu) \<or> (atyp = 4 \<and> parse_v6 rest = Ok pu)"
    using assms by (auto simp: parse_socks5_udp_header_def packet split: if_splits)
  then show ?thesis
  proof (elim disjE conjE)
    assume "atyp = 1" "parse_v4 rest = Ok pu"
    with parse_v4_only [of rest pu] show ?thesis
      by (auto simp: packet zero target_ok_def target_port_def encode_target_def)
  next
    assume "atyp = 3" "parse_domain rest = Ok pu"
    with parse_domain_only [of rest pu] show ?thesis
      by (auto simp: packet zero target_ok_def target_port_def encode_target_def)
  next
    assume "atyp = 4" "parse_v6 rest = Ok pu"
    with parse_v6_only [of rest pu] show ?thesis
      by (auto simp: packet zero target_ok_def target_port_def encode_target_def)
  qed
qed

text \<open>C34. SOCKS5 UDP framing: parsing never panics on any datagram; it accepts a datagram exactly when
  that is a well-formed header (zero reserved and fragment bytes, an IPv4, IPv6 or domain target, the
  domain of 1 to 255 UTF-8 bytes, a non-zero port) followed by the payload, and gives exactly that target
  and payload; and a reply wrapped for the client carries the source's address, port and payload back
  unchanged.\<close>

theorem socks_udp_roundtrip:
  "parse_socks5_udp_header packet \<noteq> Panic
   \<and> (parse_socks5_udp_header packet = Ok pu \<longleftrightarrow>
       target_ok (pu_target pu) \<and> packet = [0, 0, 0] @ encode_target (pu_target pu) @ pu_payload pu)
   \<and> (sa_port src \<noteq> 0 \<longrightarrow>
       parse_socks5_udp_header (wrap_socks5_udp src d) =
         Ok \<lparr>pu_target = (case src of SA4 ip p \<Rightarrow> TargetV4 ip p | SA6 ip p f s \<Rightarrow> TargetV6 ip p),
             pu_payload = d\<rparr>)"
proof (intro conjI impI)
  show "parse_socks5_udp_header packet \<noteq> Panic" by (rule no_panic)
  show "parse_socks5_udp_header packet = Ok pu \<longleftrightarrow>
       target_ok (pu_target pu) \<and> packet = [0, 0, 0] @ encode_target (pu_target pu) @ pu_payload pu"
    using parse_only_encoded parse_encode [of "pu_target pu" "pu_payload pu"] by auto
  assume "sa_port src \<noteq> 0"
  then show "parse_socks5_udp_header (wrap_socks5_udp src d) =
      Ok \<lparr>pu_target = (case src of SA4 ip p \<Rightarrow> TargetV4 ip p | SA6 ip p f s \<Rightarrow> TargetV6 ip p), pu_payload = d\<rparr>"
    using parse_encode [of "case src of SA4 ip p \<Rightarrow> TargetV4 ip p | SA6 ip p f s \<Rightarrow> TargetV6 ip p" d]
    by (cases src) (simp_all add: encode_target_def target_ok_def target_port_def)
qed

theorem socks_udp_roundtrip_witness:
  "parse_socks5_udp_header (wrap_socks5_udp (SA4 (Ipv4Addr 1 2 3 4) 53) [1, 2]) =
     Ok \<lparr>pu_target = TargetV4 (Ipv4Addr 1 2 3 4) 53, pu_payload = [1, 2]\<rparr>
   \<and> parse_socks5_udp_header [0, 0, 0, 3, 4, 97, 46, 105, 111, 0, 53, 1, 2] =
     Ok \<lparr>pu_target = TargetDomain ''a.io'' 53, pu_payload = [1, 2]\<rparr>"
proof -
  have "target_ok (TargetDomain ''a.io'' 53)" by code_simp
  then show ?thesis
    using socks_udp_roundtrip [of "[0, 0, 0, 3, 4, 97, 46, 105, 111, 0, 53, 1, 2]"
        "\<lparr>pu_target = TargetDomain ''a.io'' 53, pu_payload = [1, 2]\<rparr>" "SA4 (Ipv4Addr 1 2 3 4) 53" "[1, 2]"]
    by (simp add: encode_target_def to_be16_def)
qed

section \<open>Forwarding\<close>

text \<open>Property. Forwarding a client's datagram: what leaves the tunnel is the parsed payload, sent to the
  literal destination or to an address the resolver returned for that very host and port; an IPv6
  destination is only ever used when the tunnel has an IPv6 socket, and always over it.\<close>

theorem forward_correct:
  assumes "forward_client_to_tunnel has_v6 resolve packet = Ok (socket, dest, payload)"
  shows "\<exists>p. parse_socks5_udp_header packet = Ok p \<and> payload = pu_payload p
    \<and> (socket = SocketV6 \<longleftrightarrow> \<not> sa_is_ipv4 dest) \<and> (sa_is_ipv4 dest \<or> has_v6)
    \<and> (case pu_target p of
         TargetV4 ip port \<Rightarrow> dest = SA4 ip port
       | TargetV6 ip port \<Rightarrow> dest = SA6 ip port 0 0
       | TargetDomain host port \<Rightarrow> \<exists>cs. resolve host port = Ok cs \<and> dest \<in> set cs)"
proof -
  from assms obtain p where p: "parse_socks5_udp_header packet = Ok p" "payload = pu_payload p"
    "choose_dest has_v6 resolve (pu_target p) = Ok dest" "pick_socket has_v6 dest = Ok socket"
    by (auto simp: forward_client_to_tunnel_def)
  have "(socket = SocketV6 \<longleftrightarrow> \<not> sa_is_ipv4 dest) \<and> (sa_is_ipv4 dest \<or> has_v6)"
    using p(4) by (auto simp: pick_socket_def split: if_splits)
  moreover have "case pu_target p of
         TargetV4 ip port \<Rightarrow> dest = SA4 ip port
       | TargetV6 ip port \<Rightarrow> dest = SA6 ip port 0 0
       | TargetDomain host port \<Rightarrow> \<exists>cs. resolve host port = Ok cs \<and> dest \<in> set cs"
    using p(3) by (auto simp: choose_dest_def find_Some_iff split: udp_target.splits)
  ultimately show ?thesis using p(1,2) by blast
qed

theorem forward_correct_witness:
  "\<exists>p. parse_socks5_udp_header [0, 0, 0, 3, 4, 97, 46, 105, 111, 0, 53, 1, 2] = Ok p \<and> pu_payload p = [1, 2]"
proof -
  have "forward_client_to_tunnel False (\<lambda>h p. Ok [SA6 (ipv6_from (replicate 16 0)) p 0 0, SA4 (Ipv4Addr 1 2 3 4) p])
      [0, 0, 0, 3, 4, 97, 46, 105, 111, 0, 53, 1, 2] = Ok (SocketV4, SA4 (Ipv4Addr 1 2 3 4) 53, [1, 2])"
    by code_simp
  from forward_correct [OF this] show ?thesis by auto
qed

end
