(* ===== verification/Udp_Relay.thy ===== *)
theory Udp_Relay
  imports Socks_Udp "HOL-Library.Sublist"
begin

text \<open>
  \<open>run_relay\<close> of \<open>src/proxy/udp.rs\<close>: the client-side receiver with source pinning and a bounded
  queue, the forwarder, the tunnel-side receiver, and the supervising loop with its idle timer. The
  four tasks run concurrently, so the relay is a step relation over their events; each handler below
  is the stretch of the corresponding loop between two points where it may wait. A forward may take
  long (a DNS lookup, back pressure of the tunnel), so taking a packet off the queue and finishing
  its forward are two steps; so are the check of the token at the head of the tunnel-side loop and
  what its receive yields, which may come after a cancellation.
\<close>

section \<open>Model\<close>

definition C2T_QUEUE_DEPTH :: nat where "C2T_QUEUE_DEPTH = 64"

definition C2T_MAX_DATAGRAM :: nat where "C2T_MAX_DATAGRAM = 8 * 1024 + 64"

text \<open>\<open>ur_forwarding\<close> is the packet the forwarder holds, \<open>ur_t2c_waiting\<close> says that the tunnel-side task
  is past its check and in its receive. \<open>ur_accepted\<close> and \<open>ur_taken\<close> are ghost histories: what was queued
  and from whom, and what the forwarder took.\<close>

record udp_relay =
  ur_allowed_ip :: ipaddr
  ur_has_v6 :: bool
  ur_client :: "sockaddr option"
  ur_queue :: "bytes list"
  ur_forwarding :: "bytes option"
  ur_t2c_waiting :: bool
  ur_notified :: bool
  ur_cancelled :: bool
  ur_idle_at :: instant
  ur_c2t_alive :: bool
  ur_fwd_alive :: bool
  ur_t2c_alive :: bool
  ur_finished :: bool
  ur_oversized :: nat
  ur_queue_full :: nat
  ur_idle_timeouts :: nat
  ur_to_tunnel :: "(udp_socket \<times> sockaddr \<times> bytes) list"
  ur_to_client :: "(bytes \<times> sockaddr) list"
  ur_accepted :: "(bytes \<times> sockaddr) list"
  ur_taken :: "bytes list"

definition assoc_init :: "ipaddr \<Rightarrow> bool \<Rightarrow> instant \<Rightarrow> duration \<Rightarrow> udp_relay" where
  "assoc_init allowed has_v6 now idle =
     \<lparr>ur_allowed_ip = allowed, ur_has_v6 = has_v6, ur_client = None, ur_queue = [], ur_forwarding = None,
      ur_t2c_waiting = False, ur_notified = False, ur_cancelled = False, ur_idle_at = now + idle, ur_c2t_alive = True, ur_fwd_alive = True,
      ur_t2c_alive = True, ur_finished = False, ur_oversized = 0, ur_queue_full = 0,
      ur_idle_timeouts = 0, ur_to_tunnel = [], ur_to_client = [], ur_accepted = [], ur_taken = []\<rparr>"

text \<open>\<open>TunnelUdpPair::new\<close>: an IPv4 socket is required, an IPv6 one used when the tunnel has an address;
  the relay starts only with its pair.\<close>

definition udp_pair_new :: "'u res \<Rightarrow> 'u option res \<Rightarrow> bool res" where
  "udp_pair_new bind4 bind6 = and_then bind4 (\<lambda>v4. and_then bind6 (\<lambda>v6. Ok (v6 \<noteq> None)))"

definition relay_begin ::
  "'u res \<Rightarrow> 'u option res \<Rightarrow> ipaddr \<Rightarrow> instant \<Rightarrow> duration \<Rightarrow> udp_relay res" where
  "relay_begin bind4 bind6 allowed now idle =
     map_res (\<lambda>has_v6. assoc_init allowed has_v6 now idle) (udp_pair_new bind4 bind6)"

text \<open>The receiving side: a datagram or a socket error.\<close>

definition c2t_recv :: "(bytes \<times> sockaddr, io_error) result \<Rightarrow> udp_relay \<Rightarrow> udp_relay" where
  "c2t_recv r s =
     (if ur_cancelled s then s\<lparr>ur_c2t_alive := False\<rparr>
      else case r of
        Err e \<Rightarrow> s\<lparr>ur_c2t_alive := False\<rparr>
      | Panic \<Rightarrow> s\<lparr>ur_c2t_alive := False\<rparr>
      | Ok (packet, src) \<Rightarrow>
          if sa_ip src \<noteq> ur_allowed_ip s then s
          else if ur_client s \<noteq> None \<and> ur_client s \<noteq> Some src then s
          else
            let s = s\<lparr>ur_client := Some src\<rparr> in
            if C2T_MAX_DATAGRAM < length packet then s\<lparr>ur_oversized := ur_oversized s + 1\<rparr>
            else if \<not> ur_fwd_alive s then s\<lparr>ur_c2t_alive := False\<rparr>
            else if C2T_QUEUE_DEPTH \<le> length (ur_queue s) then s\<lparr>ur_queue_full := ur_queue_full s + 1\<rparr>
            else s\<lparr>ur_queue := ur_queue s @ [packet], ur_accepted := ur_accepted s @ [(packet, src)]\<rparr>)"

text \<open>The forwarding side: a packet is taken from the queue, then its forward ends; \<open>sent\<close> is what the
  tunnel socket reports.\<close>

definition c2t_take :: "udp_relay \<Rightarrow> udp_relay" where
  "c2t_take s =
     (if ur_cancelled s then s\<lparr>ur_fwd_alive := False\<rparr>
      else case ur_queue s of
        [] \<Rightarrow> if ur_c2t_alive s then s else s\<lparr>ur_fwd_alive := False\<rparr>
      | packet # rest \<Rightarrow>
          s\<lparr>ur_queue := rest, ur_forwarding := Some packet, ur_taken := ur_taken s @ [packet]\<rparr>)"

definition c2t_forward ::
  "(string \<Rightarrow> u16 \<Rightarrow> sockaddr list res) \<Rightarrow> unit ns_res \<Rightarrow> udp_relay \<Rightarrow> udp_relay"
where
  "c2t_forward resolve sent s =
     (case ur_forwarding s of
        None \<Rightarrow> s
      | Some packet \<Rightarrow>
          let s = s\<lparr>ur_forwarding := None\<rparr> in
          (case forward_client_to_tunnel (ur_has_v6 s) resolve packet of
             Ok d \<Rightarrow>
               (case sent of
                  Ok u \<Rightarrow> s\<lparr>ur_to_tunnel := ur_to_tunnel s @ [d], ur_notified := True\<rparr>
                | _ \<Rightarrow> s)
           | _ \<Rightarrow> s))"

text \<open>The tunnel side: what either socket yielded; \<open>sent\<close> is the client socket's report.\<close>

datatype tunnel_pick = PickPacket bytes sockaddr | PickTimeout | PickError

definition t2c_check :: "udp_relay \<Rightarrow> udp_relay" where
  "t2c_check s = (if ur_cancelled s then s\<lparr>ur_t2c_alive := False\<rparr> else s\<lparr>ur_t2c_waiting := True\<rparr>)"

definition t2c_recv :: "tunnel_pick \<Rightarrow> (unit, io_error) result \<Rightarrow> udp_relay \<Rightarrow> udp_relay" where
  "t2c_recv pick sent s =
     (let s = s\<lparr>ur_t2c_waiting := False\<rparr> in
      case pick of
        PickTimeout \<Rightarrow> s
      | PickError \<Rightarrow> s\<lparr>ur_t2c_alive := False\<rparr>
      | PickPacket payload src \<Rightarrow>
          (case ur_client s of
             None \<Rightarrow> s
           | Some dst \<Rightarrow>
               (case sent of
                  Ok u \<Rightarrow> s\<lparr>ur_to_client := ur_to_client s @ [(wrap_socks5_udp src payload, dst)],
                            ur_notified := True\<rparr>
                | _ \<Rightarrow> s\<lparr>ur_t2c_alive := False\<rparr>)))"

text \<open>The supervising loop, its branches in the order of the biased \<open>select!\<close>; leaving the loop
  aborts the tasks that are still running, and with them a forward under way and the queue.\<close>

definition shut_down :: "udp_relay \<Rightarrow> udp_relay" where
  "shut_down s = s\<lparr>ur_finished := True, ur_c2t_alive := False, ur_fwd_alive := False, ur_t2c_alive := False,
     ur_forwarding := None, ur_queue := []\<rparr>"

definition supervise :: "instant \<Rightarrow> duration \<Rightarrow> udp_relay \<Rightarrow> udp_relay" where
  "supervise now idle s =
     (if ur_cancelled s then shut_down s
      else if \<not> ur_c2t_alive s then shut_down (s\<lparr>ur_cancelled := True\<rparr>)
      else if \<not> ur_t2c_alive s then shut_down (s\<lparr>ur_cancelled := True\<rparr>)
      else if \<not> ur_fwd_alive s then shut_down (s\<lparr>ur_cancelled := True\<rparr>)
      else if ur_notified s then s\<lparr>ur_notified := False, ur_idle_at := now + idle\<rparr>
      else if ur_idle_at s \<le> now then
        shut_down (s\<lparr>ur_idle_timeouts := ur_idle_timeouts s + 1, ur_cancelled := True\<rparr>)
      else s)"

section \<open>Concurrent runs\<close>

inductive assoc_step :: "duration \<Rightarrow> udp_relay \<Rightarrow> udp_relay \<Rightarrow> bool" for idle :: duration where
  client: "ur_c2t_alive s \<Longrightarrow> assoc_step idle s (c2t_recv r s)"
| take: "ur_fwd_alive s \<Longrightarrow> ur_forwarding s = None \<Longrightarrow> assoc_step idle s (c2t_take s)"
| forward: "ur_fwd_alive s \<Longrightarrow> ur_forwarding s \<noteq> None \<Longrightarrow> assoc_step idle s (c2t_forward resolve sent s)"
| check: "ur_t2c_alive s \<Longrightarrow> \<not> ur_t2c_waiting s \<Longrightarrow> assoc_step idle s (t2c_check s)"
| tunnel: "ur_t2c_alive s \<Longrightarrow> ur_t2c_waiting s \<Longrightarrow> assoc_step idle s (t2c_recv pick sent' s)"
| supervisor: "\<not> ur_finished s \<Longrightarrow> assoc_step idle s (supervise now idle s)"
| cancelled: "assoc_step idle s (s\<lparr>ur_cancelled := True\<rparr>)"

inductive assoc_reach :: "ipaddr \<Rightarrow> bool \<Rightarrow> instant \<Rightarrow> duration \<Rightarrow> udp_relay \<Rightarrow> bool"
  for allowed :: ipaddr and has_v6 :: bool and now :: instant and idle :: duration
where
  init: "assoc_reach allowed has_v6 now idle (assoc_init allowed has_v6 now idle)"
| step: "assoc_reach allowed has_v6 now idle s \<Longrightarrow> assoc_step idle s s' \<Longrightarrow>
    assoc_reach allowed has_v6 now idle s'"

lemmas assoc_defs = c2t_recv_def c2t_take_def c2t_forward_def t2c_check_def t2c_recv_def supervise_def
  shut_down_def Let_def

section \<open>Invariants\<close>

definition assoc_inv :: "ipaddr \<Rightarrow> udp_relay \<Rightarrow> bool" where
  "assoc_inv allowed s \<longleftrightarrow>
     ur_allowed_ip s = allowed \<and>
     length (ur_queue s) \<le> C2T_QUEUE_DEPTH \<and>
     list_all (\<lambda>p. length p \<le> C2T_MAX_DATAGRAM) (ur_queue s) \<and>
     list_all (\<lambda>(p, src). ur_client s = Some src) (ur_accepted s) \<and>
     list_all (\<lambda>(p, dst). ur_client s = Some dst) (ur_to_client s) \<and>
     (\<forall>c. ur_client s = Some c \<longrightarrow> sa_ip c = allowed) \<and>
     (ur_finished s \<longrightarrow> \<not> ur_c2t_alive s \<and> \<not> ur_fwd_alive s \<and> \<not> ur_t2c_alive s)"

lemma assoc_inv_init: "assoc_inv allowed (assoc_init allowed has_v6 now idle)"
  by (simp add: assoc_inv_def assoc_init_def)

lemma list_all_client:
  "list_all (\<lambda>(p, src). c = Some src) xs \<Longrightarrow> c = None \<or> c = Some src' \<Longrightarrow>
     list_all (\<lambda>(p, src). src = src') (xs :: ('a \<times> 'b) list)"
  by (auto simp: list_all_iff)

lemma c2t_recv_inv:
  assumes "assoc_inv allowed s"
  shows "assoc_inv allowed (c2t_recv r s)"
proof (cases "\<exists>packet src. r = Ok (packet, src) \<and> \<not> ur_cancelled s \<and> sa_ip src = ur_allowed_ip s \<and>
    (ur_client s = None \<or> ur_client s = Some src)")
  case True
  then obtain packet src where r: "r = Ok (packet, src)" "\<not> ur_cancelled s" "sa_ip src = ur_allowed_ip s"
    "ur_client s = None \<or> ur_client s = Some src" by blast
  have "assoc_inv allowed (s\<lparr>ur_client := Some src\<rparr>)"
    using assms r(3,4) by (fastforce simp: assoc_inv_def list_all_iff)
  with r show ?thesis by (fastforce simp: c2t_recv_def Let_def assoc_inv_def)
next
  case False
  with assms show ?thesis
    by (fastforce simp: c2t_recv_def assoc_inv_def split: result.splits)
qed

lemma c2t_take_inv: "assoc_inv allowed s \<Longrightarrow> assoc_inv allowed (c2t_take s)"
  by (auto simp: assoc_inv_def c2t_take_def split: list.splits)

lemma c2t_forward_inv: "assoc_inv allowed s \<Longrightarrow> assoc_inv allowed (c2t_forward resolve sent s)"
  by (auto simp: assoc_inv_def c2t_forward_def Let_def split: option.splits result.splits)

lemma t2c_check_inv: "assoc_inv allowed s \<Longrightarrow> assoc_inv allowed (t2c_check s)"
  by (auto simp: assoc_inv_def t2c_check_def)

lemma t2c_recv_inv: "assoc_inv allowed s \<Longrightarrow> assoc_inv allowed (t2c_recv pick sent s)"
  by (auto simp: assoc_inv_def t2c_recv_def Let_def split: tunnel_pick.splits option.splits result.splits)

lemma supervise_inv: "assoc_inv allowed s \<Longrightarrow> assoc_inv allowed (supervise now idle s)"
  by (auto simp: assoc_inv_def supervise_def shut_down_def)

lemma assoc_step_inv: "assoc_step idle s s' \<Longrightarrow> assoc_inv allowed s \<Longrightarrow> assoc_inv allowed s'"
  by (induction rule: assoc_step.induct)
    (auto simp: c2t_recv_inv c2t_take_inv c2t_forward_inv t2c_check_inv t2c_recv_inv supervise_inv,
     simp add: assoc_inv_def)

lemma assoc_reach_inv: "assoc_reach allowed has_v6 now idle s \<Longrightarrow> assoc_inv allowed s"
  by (induction rule: assoc_reach.induct) (auto intro: assoc_inv_init assoc_step_inv)

lemma sum_lengths_bound: "list_all (\<lambda>p. length p \<le> n) xs \<Longrightarrow> sum_list (map length xs) \<le> length xs * n"
  by (induction xs) auto

lemma client_pinned: "assoc_step idle s s' \<Longrightarrow> ur_client s = Some c \<Longrightarrow> ur_client s' = Some c"
  by (induction rule: assoc_step.induct)
    (auto simp: assoc_defs split: result.splits list.splits option.splits tunnel_pick.splits if_splits)

lemma finished_silent:
  assumes "assoc_step idle s s'" "assoc_inv allowed s" "ur_finished s"
  shows "ur_to_tunnel s' = ur_to_tunnel s \<and> ur_to_client s' = ur_to_client s"
  using assms by (cases rule: assoc_step.cases) (auto simp: assoc_inv_def)

text \<open>What left through the tunnel, against what the forwarder took: \<open>payload_of\<close> is the payload of a
  datagram the client wrapped.\<close>

definition payload_of :: "bytes \<Rightarrow> bytes" where
  "payload_of packet = (case parse_socks5_udp_header packet of Ok p \<Rightarrow> pu_payload p | _ \<Rightarrow> [])"

lemma forward_payload:
  "forward_client_to_tunnel has_v6 resolve packet = Ok (socket, dest, payload) \<Longrightarrow> payload = payload_of packet"
  by (auto simp: forward_client_to_tunnel_def payload_of_def)

definition order_inv :: "udp_relay \<Rightarrow> bool" where
  "order_inv s \<longleftrightarrow>
     prefix (ur_taken s @ ur_queue s) (map fst (ur_accepted s)) \<and>
     (ur_finished s \<or> ur_taken s @ ur_queue s = map fst (ur_accepted s)) \<and>
     (\<exists>t. subseq (map (\<lambda>(u, d, p). p) (ur_to_tunnel s)) (map payload_of t) \<and>
          (case ur_forwarding s of None \<Rightarrow> t = ur_taken s | Some p \<Rightarrow> ur_taken s = t @ [p]))"

lemma order_inv_init: "order_inv (assoc_init allowed has_v6 now idle)"
  by (simp add: order_inv_def assoc_init_def)

lemma order_inv_frame:
  assumes "order_inv s" "ur_taken s' = ur_taken s" "ur_queue s' = ur_queue s" "ur_accepted s' = ur_accepted s"
    "ur_finished s' = ur_finished s" "ur_to_tunnel s' = ur_to_tunnel s" "ur_forwarding s' = ur_forwarding s"
  shows "order_inv s'"
  using assms(1) unfolding order_inv_def assms(2-) by assumption

lemma enqueue_order:
  "order_inv s \<Longrightarrow> \<not> ur_finished s \<Longrightarrow>
    order_inv (s\<lparr>ur_client := c, ur_queue := ur_queue s @ [p], ur_accepted := ur_accepted s @ [(p, src)]\<rparr>)"
  by (auto simp: order_inv_def split: option.splits)

lemma c2t_recv_order:
  assumes "order_inv s" "\<not> ur_finished s"
  shows "order_inv (c2t_recv r s)"
proof (cases "\<exists>packet src. r = Ok (packet, src) \<and> c2t_recv r s = s\<lparr>ur_client := Some src,
    ur_queue := ur_queue s @ [packet], ur_accepted := ur_accepted s @ [(packet, src)]\<rparr>")
  case True
  with assms show ?thesis by (auto simp: enqueue_order)
next
  case False
  with assms(1) show ?thesis
    by (intro order_inv_frame [OF assms(1)])
      (auto simp: c2t_recv_def Let_def split: result.splits prod.splits if_splits)
qed

lemma c2t_take_order:
  "order_inv s \<Longrightarrow> \<not> ur_finished s \<Longrightarrow> ur_forwarding s = None \<Longrightarrow> order_inv (c2t_take s)"
  by (auto simp: order_inv_def c2t_take_def split: list.splits)

lemma c2t_forward_order:
  assumes "order_inv s" "ur_forwarding s \<noteq> None"
  shows "order_inv (c2t_forward resolve sent s)"
proof -
  obtain packet where packet: "ur_forwarding s = Some packet" using assms(2) by blast
  with assms(1) obtain t where t: "subseq (map (\<lambda>(u, d, p). p) (ur_to_tunnel s)) (map payload_of t)"
    "ur_taken s = t @ [packet]" by (auto simp: order_inv_def)
  have skip: "subseq (map (\<lambda>(u, d, p). p) (ur_to_tunnel s)) (map payload_of (ur_taken s))"
    using t by (auto intro: list_emb_prefix)
  have sent: "subseq (map (\<lambda>(u, d, p). p) (ur_to_tunnel s) @ [payload_of packet]) (map payload_of (ur_taken s))"
    using t by (auto intro: list_emb_append_mono)
  show ?thesis
    using assms(1) packet skip sent
    by (auto simp: order_inv_def c2t_forward_def Let_def dest: forward_payload split: result.splits)
qed

lemma shut_down_order: "order_inv s \<Longrightarrow> order_inv (shut_down s)"
proof -
  assume "order_inv s"
  moreover from this obtain t where "subseq (map (\<lambda>(u, d, p). p) (ur_to_tunnel s)) (map payload_of t)"
    "prefix t (ur_taken s)"
    by (fastforce simp: order_inv_def split: option.splits)
  then have "subseq (map (\<lambda>(u, d, p). p) (ur_to_tunnel s)) (map payload_of (ur_taken s))"
    by (meson map_mono_prefix prefix_imp_subseq subseq_order.order_trans)
  ultimately show ?thesis
    by (auto simp: order_inv_def shut_down_def dest: append_prefixD)
qed

lemma supervise_order: "order_inv s \<Longrightarrow> order_inv (supervise now idle s)"
  by (auto simp: supervise_def intro!: shut_down_order elim!: order_inv_frame)

lemma t2c_recv_frame:
  "ur_taken (t2c_recv pick sent s) = ur_taken s \<and> ur_queue (t2c_recv pick sent s) = ur_queue s \<and>
   ur_accepted (t2c_recv pick sent s) = ur_accepted s \<and> ur_finished (t2c_recv pick sent s) = ur_finished s \<and>
   ur_to_tunnel (t2c_recv pick sent s) = ur_to_tunnel s \<and> ur_forwarding (t2c_recv pick sent s) = ur_forwarding s"
  by (simp add: t2c_recv_def Let_def split: tunnel_pick.splits option.splits result.splits)

lemma assoc_step_order:
  assumes "assoc_step idle s s'" "order_inv s" "assoc_inv allowed s"
  shows "order_inv s'"
  using assms(1)
proof (cases rule: assoc_step.cases)
  case (client r)
  with assms(2,3) show ?thesis by (auto simp: assoc_inv_def intro: c2t_recv_order)
next
  case take
  with assms(2,3) show ?thesis by (auto simp: assoc_inv_def intro: c2t_take_order)
next
  case (forward resolve sent)
  with assms(2) show ?thesis by (simp add: c2t_forward_order)
next
  case check
  with assms(2) show ?thesis by (auto simp: t2c_check_def elim!: order_inv_frame)
next
  case (tunnel pick sent')
  with assms(2) show ?thesis by (auto simp: t2c_recv_frame elim!: order_inv_frame)
next
  case (supervisor now)
  with assms(2) show ?thesis by (simp add: supervise_order)
next
  case cancelled
  with assms(2) show ?thesis by (auto elim!: order_inv_frame)
qed

lemma assoc_reach_order: "assoc_reach allowed has_v6 now idle s \<Longrightarrow> order_inv s"
  by (induction rule: assoc_reach.induct)
    (auto intro: order_inv_init assoc_step_order assoc_reach_inv)

lemma order_inv_sent:
  "order_inv s \<Longrightarrow> prefix (ur_taken s) (map fst (ur_accepted s)) \<and>
    subseq (map (\<lambda>(u, d, p). p) (ur_to_tunnel s)) (map payload_of (ur_taken s))"
  using shut_down_order [of s] by (auto simp: order_inv_def shut_down_def)

section \<open>Safety\<close>

text \<open>C5. UDP association safety under every schedule of its tasks: the client-to-tunnel queue never
  holds more than 64 datagrams nor one above 8256 bytes (so at most 528384 bytes stay resident);
  every datagram ever queued came from one single client address, whose IP is the one the
  association was opened from, and every reply goes to that address and no other; once pinned, no
  step changes it. The forwarder takes the datagrams in the order they were accepted and none twice,
  and what leaves through the tunnel are their payloads in that order. Once the association has
  ended, all its tasks have and nothing is sent to either side.\<close>

theorem udp_relay_safe:
  assumes "assoc_reach allowed has_v6 now idle s"
  shows "length (ur_queue s) \<le> 64 \<and> list_all (\<lambda>p. length p \<le> 8256) (ur_queue s)
    \<and> sum_list (map length (ur_queue s)) \<le> 528384
    \<and> list_all (\<lambda>(p, src). ur_client s = Some src \<and> sa_ip src = allowed) (ur_accepted s)
    \<and> list_all (\<lambda>(p, dst). ur_client s = Some dst) (ur_to_client s)
    \<and> (\<forall>s' c. assoc_step idle s s' \<and> ur_client s = Some c \<longrightarrow> ur_client s' = Some c)
    \<and> prefix (ur_taken s) (map fst (ur_accepted s))
    \<and> subseq (map (\<lambda>(u, d, p). p) (ur_to_tunnel s)) (map payload_of (ur_taken s))
    \<and> (ur_finished s \<longrightarrow> \<not> ur_c2t_alive s \<and> \<not> ur_fwd_alive s \<and> \<not> ur_t2c_alive s \<and>
        (\<forall>s'. assoc_step idle s s' \<longrightarrow>
           ur_to_tunnel s' = ur_to_tunnel s \<and> ur_to_client s' = ur_to_client s))"
proof -
  have inv: "assoc_inv allowed s" using assms by (rule assoc_reach_inv)
  then have q: "length (ur_queue s) \<le> 64" "list_all (\<lambda>p. length p \<le> 8256) (ur_queue s)"
    by (simp_all add: assoc_inv_def C2T_QUEUE_DEPTH_def C2T_MAX_DATAGRAM_def)
  have "sum_list (map length (ur_queue s)) \<le> 528384"
    using sum_lengths_bound [OF q(2)] q(1) by simp
  moreover have "list_all (\<lambda>(p, src). ur_client s = Some src \<and> sa_ip src = allowed) (ur_accepted s)"
    "list_all (\<lambda>(p, dst). ur_client s = Some dst) (ur_to_client s)"
    using inv by (auto simp: assoc_inv_def list_all_iff)
  moreover have "ur_finished s \<longrightarrow> \<not> ur_c2t_alive s \<and> \<not> ur_fwd_alive s \<and> \<not> ur_t2c_alive s"
    using inv by (simp add: assoc_inv_def)
  ultimately show ?thesis
    using q order_inv_sent [OF assoc_reach_order [OF assms]] client_pinned finished_silent [OF _ inv] by blast
qed

theorem udp_relay_safe_witness:
  "let c = SA4 (Ipv4Addr 127 0 0 1) 4000; x = SA4 (Ipv4Addr 127 0 0 1) 4001;
       s = c2t_recv (Ok ([9, 9], x)) (c2t_recv (Ok ([0, 0, 0, 1], c))
             (assoc_init (V4 (Ipv4Addr 127 0 0 1)) False 0 300))
   in ur_queue s = [[0, 0, 0, 1]] \<and> list_all (\<lambda>(p, src). ur_client s = Some src) (ur_accepted s)"
proof -
  let ?c = "SA4 (Ipv4Addr 127 0 0 1) 4000" and ?x = "SA4 (Ipv4Addr 127 0 0 1) 4001"
  define s where "s = c2t_recv (Ok ([9, 9], ?x)) (c2t_recv (Ok ([0, 0, 0, 1], ?c))
    (assoc_init (V4 (Ipv4Addr 127 0 0 1)) False 0 300))"
  have "assoc_reach (V4 (Ipv4Addr 127 0 0 1)) False 0 300 s"
    unfolding s_def
    by (intro assoc_reach.step [OF _ assoc_step.client] assoc_reach.init)
      (simp_all add: c2t_recv_def assoc_init_def C2T_MAX_DATAGRAM_def C2T_QUEUE_DEPTH_def)
  from udp_relay_safe [OF this]
  have "list_all (\<lambda>(p, src). ur_client s = Some src \<and> sa_ip src = V4 (Ipv4Addr 127 0 0 1)) (ur_accepted s)"
    by blast
  then have "list_all (\<lambda>(p, src). ur_client s = Some src) (ur_accepted s)" by (auto simp: list_all_iff)
  moreover have "ur_queue s = [[0, 0, 0, 1]]"
    by (simp add: s_def c2t_recv_def assoc_init_def C2T_MAX_DATAGRAM_def C2T_QUEUE_DEPTH_def)
  ultimately show ?thesis unfolding Let_def s_def [symmetric] by blast
qed

end
