(* ===== verification/Dial.thy ===== *)
theory Dial
  imports Prelude Net_Types Config "HOL-Library.Multiset"
begin

text \<open>
  Upstream dialling of \<open>src/proxy/tcp.rs\<close>: candidate preparation in \<open>happy_eyeballs_dial\<close> and the
  bounded, staggered race of \<open>staggered_dial\<close>. The race is a step relation: which attempt finishes
  next, with what outcome, and when the timers fire is up to the environment. \<open>'c\<close> is the type of
  connections.
\<close>

section \<open>Candidates\<close>

definition dedup_addrs :: "sockaddr list \<Rightarrow> sockaddr list" where
  "dedup_addrs cs = push_all_unique [] cs"

definition prepare_candidates :: "bool \<Rightarrow> nat \<Rightarrow> sockaddr list \<Rightarrow> sockaddr list res" where
  "prepare_candidates has_ipv6 max_candidates cs =
     (if cs = [] then Err (other ''no upstream candidates'')
      else
        let v4_only = filter sa_is_ipv4 cs in
        if \<not> has_ipv6 \<and> v4_only = [] then
          Err (other ''target resolved to IPv6 only, but tunnel has no IPv6 route'')
        else Ok (take max_candidates (dedup_addrs (if has_ipv6 then cs else v4_only))))"

section \<open>The race\<close>

text \<open>\<open>ds_started\<close> and \<open>ds_failed\<close> are ghost histories; \<open>ds_failed\<close> holds the candidates whose dial
  returned an error or whose task died.\<close>

record 'c dial_state =
  ds_pending :: "sockaddr list"
  ds_in_flight :: "sockaddr list"
  ds_attempted :: nat
  ds_last_error :: "error option"
  ds_launch_at :: instant
  ds_deadline :: instant
  ds_result :: "(sockaddr \<times> 'c) res option"
  ds_dial_attempts :: nat
  ds_dial_failures :: nat
  ds_dial_timeouts :: nat
  ds_started :: "sockaddr list"
  ds_failed :: "sockaddr list"

definition spawn_dial :: "sockaddr \<Rightarrow> 'c dial_state \<Rightarrow> 'c dial_state" where
  "spawn_dial a s = s\<lparr>ds_in_flight := ds_in_flight s @ [a], ds_dial_attempts := ds_dial_attempts s + 1,
     ds_attempted := ds_attempted s + 1, ds_started := ds_started s @ [a]\<rparr>"

definition dial_idle :: "'c dial_state" where
  "dial_idle = \<lparr>ds_pending = [], ds_in_flight = [], ds_attempted = 0, ds_last_error = None, ds_launch_at = 0,
     ds_deadline = 0, ds_result = None, ds_dial_attempts = 0, ds_dial_failures = 0, ds_dial_timeouts = 0,
     ds_started = [], ds_failed = []\<rparr>"

definition dial_start :: "instant \<Rightarrow> duration \<Rightarrow> duration \<Rightarrow> sockaddr list \<Rightarrow> 'c dial_state" where
  "dial_start now delay budget cs =
     (case cs of
        [] \<Rightarrow> dial_idle\<lparr>ds_result := Some (Err (other ''no usable upstream candidates''))\<rparr>
      | first # rest \<Rightarrow> spawn_dial first (dial_idle\<lparr>ds_pending := rest, ds_launch_at := now + delay,
                          ds_deadline := now + budget\<rparr>))"

text \<open>Start the next candidate and re-arm the stagger timer.\<close>

definition launch_next :: "instant \<Rightarrow> duration \<Rightarrow> 'c dial_state \<Rightarrow> 'c dial_state" where
  "launch_next now delay s =
     (case ds_pending s of
        [] \<Rightarrow> s
      | a # rest \<Rightarrow> (spawn_dial a (s\<lparr>ds_pending := rest\<rparr>))\<lparr>ds_launch_at := now + delay\<rparr>)"

text \<open>The loop head: nothing in flight and nothing left to start ends the race.\<close>

definition loop_head :: "'c dial_state \<Rightarrow> 'c dial_state" where
  "loop_head s =
     (if ds_in_flight s = [] \<and> ds_pending s = []
      then s\<lparr>ds_result := Some (Err (Other (AllUpstreamFailed (ds_attempted s) (ds_last_error s))))\<rparr>
      else s)"

datatype 'c joined = Connected 'c | DialFailed error | TaskDied

definition on_joined :: "instant \<Rightarrow> duration \<Rightarrow> sockaddr \<Rightarrow> 'c joined \<Rightarrow> 'c dial_state \<Rightarrow> 'c dial_state" where
  "on_joined now delay a j s =
     (let s = s\<lparr>ds_in_flight := remove1 a (ds_in_flight s)\<rparr> in
      case j of
        Connected c \<Rightarrow> s\<lparr>ds_in_flight := [], ds_result := Some (Ok (a, c))\<rparr>
      | _ \<Rightarrow>
          let s = (case j of
                     DialFailed e \<Rightarrow> s\<lparr>ds_dial_failures := ds_dial_failures s + 1, ds_last_error := Some e\<rparr>
                   | _ \<Rightarrow> s\<lparr>ds_last_error := Some (Other DialTaskFailed)\<rparr>);
              s = s\<lparr>ds_failed := ds_failed s @ [a]\<rparr>
          in loop_head (if ds_in_flight s = [] then launch_next now delay s else s))"

definition on_deadline :: "duration \<Rightarrow> 'c dial_state \<Rightarrow> 'c dial_state" where
  "on_deadline budget s =
     s\<lparr>ds_dial_timeouts := ds_dial_timeouts s + 1, ds_in_flight := [],
       ds_result := Some (Err (Other (UpstreamDialTimeout budget (ds_attempted s))))\<rparr>"

inductive dial_step :: "duration \<Rightarrow> duration \<Rightarrow> nat \<Rightarrow> 'c dial_state \<Rightarrow> 'c dial_state \<Rightarrow> bool"
  for delay :: duration and budget :: duration and max_parallel :: nat
where
  joined: "ds_result s = None \<Longrightarrow> a \<in> set (ds_in_flight s) \<Longrightarrow>
    dial_step delay budget max_parallel s (on_joined now delay a j s)"
| launch: "ds_result s = None \<Longrightarrow> ds_launch_at s \<le> now \<Longrightarrow> ds_pending s \<noteq> [] \<Longrightarrow>
    length (ds_in_flight s) < max 1 max_parallel \<Longrightarrow>
    dial_step delay budget max_parallel s (launch_next now delay s)"
| deadline: "ds_result s = None \<Longrightarrow> ds_deadline s \<le> now \<Longrightarrow>
    dial_step delay budget max_parallel s (on_deadline budget s)"

inductive dial_reach :: "instant \<Rightarrow> duration \<Rightarrow> duration \<Rightarrow> nat \<Rightarrow> sockaddr list \<Rightarrow> 'c dial_state \<Rightarrow> bool"
  for now :: instant and delay :: duration and budget :: duration and max_parallel :: nat
    and cs :: "sockaddr list"
where
  start: "dial_reach now delay budget max_parallel cs (dial_start now delay budget cs)"
| step: "dial_reach now delay budget max_parallel cs s \<Longrightarrow> dial_step delay budget max_parallel s s' \<Longrightarrow>
    dial_reach now delay budget max_parallel cs s'"

section \<open>Invariant\<close>

definition verdict_ok :: "duration \<Rightarrow> sockaddr list \<Rightarrow> 'c dial_state \<Rightarrow> bool" where
  "verdict_ok budget cs s \<longleftrightarrow>
     ds_result s \<noteq> Some Panic \<and>
     (\<forall>a c. ds_result s = Some (Ok (a, c)) \<longrightarrow> a \<in> set (ds_started s)) \<and>
     (\<forall>e. ds_result s = Some (Err e) \<longrightarrow>
        (cs = [] \<and> e = other ''no usable upstream candidates'') \<or>
        (\<exists>last. e = Other (AllUpstreamFailed (length cs) (Some last)) \<and> mset (ds_failed s) = mset cs) \<or>
        e = Other (UpstreamDialTimeout budget (length (ds_started s))))"

definition race_ok :: "nat \<Rightarrow> sockaddr list \<Rightarrow> 'c dial_state \<Rightarrow> bool" where
  "race_ok max_parallel cs s \<longleftrightarrow>
     ds_started s @ ds_pending s = cs \<and>
     ds_attempted s = length (ds_started s) \<and> ds_dial_attempts s = length (ds_started s) \<and>
     length (ds_in_flight s) \<le> max 1 max_parallel"

definition dial_inv :: "duration \<Rightarrow> nat \<Rightarrow> sockaddr list \<Rightarrow> 'c dial_state \<Rightarrow> bool" where
  "dial_inv budget max_parallel cs s \<longleftrightarrow>
     race_ok max_parallel cs s \<and> verdict_ok budget cs s \<and>
     (ds_result s = None \<longrightarrow> ds_in_flight s \<noteq> [] \<and>
        mset (ds_failed s) + mset (ds_in_flight s) = mset (ds_started s)) \<and>
     (ds_result s \<noteq> None \<longrightarrow> ds_in_flight s = [])"

lemmas dial_defs = spawn_dial_def launch_next_def loop_head_def on_deadline_def dial_idle_def

lemma dial_inv_start: "dial_inv budget max_parallel cs (dial_start now delay budget cs)"
  by (cases cs) (auto simp: dial_inv_def race_ok_def verdict_ok_def dial_start_def dial_defs)

lemma dial_inv_launch:
  assumes "dial_inv budget mp cs s" "ds_result s = None" "length (ds_in_flight s) < max 1 mp"
  shows "dial_inv budget mp cs (launch_next now delay s)"
  using assms by (cases "ds_pending s") (auto simp: dial_inv_def race_ok_def verdict_ok_def dial_defs)

lemma dial_inv_deadline:
  "dial_inv budget mp cs s \<Longrightarrow> ds_result s = None \<Longrightarrow> dial_inv budget mp cs (on_deadline budget s)"
  by (auto simp: dial_inv_def race_ok_def verdict_ok_def dial_defs)

lemma in_flight_started:
  assumes "dial_inv budget mp cs s" "ds_result s = None" "a \<in> set (ds_in_flight s)"
  shows "a \<in># mset (ds_started s)"
  using assms by (metis dial_inv_def set_mset_mset union_iff)

text \<open>A failed attempt leaves the race; the next candidate follows at once when it was the last one.\<close>

lemma dial_inv_failed:
  assumes inv: "dial_inv budget mp cs s" and run: "ds_result s = None" and a: "a \<in> set (ds_in_flight s)"
    and s1: "s1 = s\<lparr>ds_in_flight := remove1 a (ds_in_flight s), ds_dial_failures := k,
      ds_last_error := Some e, ds_failed := ds_failed s @ [a]\<rparr>"
  shows "dial_inv budget mp cs (loop_head (if ds_in_flight s1 = [] then launch_next now delay s1 else s1))"
proof -
  have ms: "mset (ds_failed s1) + mset (ds_in_flight s1) = mset (ds_started s1)"
    using inv run a insert_DiffM [OF in_flight_started [OF inv run a]] by (auto simp: s1 dial_inv_def)
  have race: "race_ok mp cs s1"
    using inv by (auto simp: s1 dial_inv_def race_ok_def length_remove1 split: if_splits)
  have r1: "ds_result s1 = None" and e1: "ds_last_error s1 = Some e" using run by (simp_all add: s1)
  show ?thesis
  proof (cases "ds_in_flight s1 = []")
    case False
    with race ms r1 show ?thesis by (simp add: dial_inv_def verdict_ok_def loop_head_def)
  next
    case empty: True
    show ?thesis
    proof (cases "ds_pending s1")
      case Nil
      let ?s2 = "s1\<lparr>ds_result := Some (Err (Other (AllUpstreamFailed (ds_attempted s1) (ds_last_error s1))))\<rparr>"
      have "mset (ds_failed s1) = mset cs" "ds_attempted s1 = length cs"
        using empty race ms Nil by (auto simp: race_ok_def)
      then have "verdict_ok budget cs ?s2" by (simp add: verdict_ok_def e1)
      moreover have "race_ok mp cs ?s2" using race by (simp add: race_ok_def)
      ultimately show ?thesis
        using empty Nil by (simp add: dial_inv_def launch_next_def loop_head_def)
    next
      case (Cons b rest)
      with empty race ms r1 show ?thesis
        by (simp add: dial_inv_def verdict_ok_def race_ok_def dial_defs)
    qed
  qed
qed

lemma on_joined_failed:
  assumes "j = DialFailed e \<or> j = TaskDied"
  shows "\<exists>k e'. on_joined now delay a j s =
    (let s1 = s\<lparr>ds_in_flight := remove1 a (ds_in_flight s), ds_dial_failures := k,
       ds_last_error := Some e', ds_failed := ds_failed s @ [a]\<rparr>
     in loop_head (if ds_in_flight s1 = [] then launch_next now delay s1 else s1))"
  using assms
proof
  assume "j = TaskDied"
  then show ?thesis
    by (intro exI [of _ "ds_dial_failures s"] exI [of _ "Other DialTaskFailed"])
      (simp add: on_joined_def Let_def)
qed (auto simp: on_joined_def Let_def)

lemma dial_inv_joined:
  assumes "dial_inv budget mp cs s" "ds_result s = None" "a \<in> set (ds_in_flight s)"
  shows "dial_inv budget mp cs (on_joined now delay a j s)"
proof (cases j)
  case (Connected c)
  have "a \<in> set (ds_started s)" using in_flight_started [OF assms] by simp
  with assms Connected show ?thesis
    by (auto simp: dial_inv_def race_ok_def verdict_ok_def on_joined_def Let_def)
next
  case (DialFailed e)
  with dial_inv_failed [OF assms refl] on_joined_failed [of j e now delay a s] show ?thesis
    by (auto simp: Let_def)
next
  case TaskDied
  with dial_inv_failed [OF assms refl] on_joined_failed [of j _ now delay a s] show ?thesis
    by (auto simp: Let_def)
qed

lemma dial_step_inv:
  "dial_step delay budget mp s s' \<Longrightarrow> dial_inv budget mp cs s \<Longrightarrow> dial_inv budget mp cs s'"
  by (induction rule: dial_step.induct) (auto intro: dial_inv_joined dial_inv_launch dial_inv_deadline)

lemma dial_reach_inv: "dial_reach now delay budget mp cs s \<Longrightarrow> dial_inv budget mp cs s"
  by (induction rule: dial_reach.induct) (auto intro: dial_inv_start dial_step_inv)

section \<open>What happened in a race\<close>

text \<open>The same steps with their labels: the trace says when which attempt ended how, when the stagger
  timer fired and when the deadline did.\<close>

datatype 'c dial_event = Ended instant sockaddr "'c joined" | Staggered instant | DeadlineFired instant

fun dial_effect :: "duration \<Rightarrow> duration \<Rightarrow> 'c dial_event \<Rightarrow> 'c dial_state \<Rightarrow> 'c dial_state" where
  "dial_effect delay budget (Ended now a j) s = on_joined now delay a j s"
| "dial_effect delay budget (Staggered now) s = launch_next now delay s"
| "dial_effect delay budget (DeadlineFired now) s = on_deadline budget s"

fun dial_enabled :: "nat \<Rightarrow> 'c dial_event \<Rightarrow> 'c dial_state \<Rightarrow> bool" where
  "dial_enabled max_parallel (Ended now a j) s \<longleftrightarrow> a \<in> set (ds_in_flight s)"
| "dial_enabled max_parallel (Staggered now) s \<longleftrightarrow>
     ds_launch_at s \<le> now \<and> ds_pending s \<noteq> [] \<and> length (ds_in_flight s) < max 1 max_parallel"
| "dial_enabled max_parallel (DeadlineFired now) s \<longleftrightarrow> ds_deadline s \<le> now"

inductive dial_trace ::
  "instant \<Rightarrow> duration \<Rightarrow> duration \<Rightarrow> nat \<Rightarrow> sockaddr list \<Rightarrow> 'c dial_event list \<Rightarrow> 'c dial_state \<Rightarrow> bool"
  for now :: instant and delay :: duration and budget :: duration and max_parallel :: nat
    and cs :: "sockaddr list"
where
  start: "dial_trace now delay budget max_parallel cs [] (dial_start now delay budget cs)"
| step: "dial_trace now delay budget max_parallel cs tr s \<Longrightarrow> ds_result s = None \<Longrightarrow>
    dial_enabled max_parallel ev s \<Longrightarrow>
    dial_trace now delay budget max_parallel cs (tr @ [ev]) (dial_effect delay budget ev s)"

lemma dial_step_event:
  "dial_step delay budget mp s s' \<longleftrightarrow>
     (\<exists>ev. ds_result s = None \<and> dial_enabled mp ev s \<and> s' = dial_effect delay budget ev s)"
proof
  assume "dial_step delay budget mp s s'"
  then show "\<exists>ev. ds_result s = None \<and> dial_enabled mp ev s \<and> s' = dial_effect delay budget ev s"
    by cases (metis dial_enabled.simps dial_effect.simps)+
next
  assume "\<exists>ev. ds_result s = None \<and> dial_enabled mp ev s \<and> s' = dial_effect delay budget ev s"
  then obtain ev where "ds_result s = None" "dial_enabled mp ev s" "s' = dial_effect delay budget ev s" by blast
  then show "dial_step delay budget mp s s'" by (cases ev) (auto intro: dial_step.intros)
qed

text \<open>Every reachable state has a trace.\<close>

lemma dial_reach_trace:
  "dial_reach now delay budget mp cs s \<longleftrightarrow> (\<exists>tr. dial_trace now delay budget mp cs tr s)"
proof
  show "dial_reach now delay budget mp cs s \<Longrightarrow> \<exists>tr. dial_trace now delay budget mp cs tr s"
  proof (induction rule: dial_reach.induct)
    case (step s s')
    then obtain tr ev where "dial_trace now delay budget mp cs tr s" "ds_result s = None" "dial_enabled mp ev s"
      "s' = dial_effect delay budget ev s"
      unfolding dial_step_event by blast
    then show ?case using dial_trace.step by blast
  qed (blast intro: dial_trace.start)
  show "\<exists>tr. dial_trace now delay budget mp cs tr s \<Longrightarrow> dial_reach now delay budget mp cs s"
  proof (elim exE)
    fix tr show "dial_trace now delay budget mp cs tr s \<Longrightarrow> dial_reach now delay budget mp cs s"
    proof (induction rule: dial_trace.induct)
      case (step tr s ev)
      then have "dial_step delay budget mp s (dial_effect delay budget ev s)" unfolding dial_step_event by blast
      with step show ?case using dial_reach.step by blast
    qed (rule dial_reach.start)
  qed
qed

text \<open>The attempts that failed, with the error each leaves behind.\<close>

fun failure_of :: "'c dial_event \<Rightarrow> (sockaddr \<times> error) option" where
  "failure_of (Ended t a (DialFailed e)) = Some (a, e)"
| "failure_of (Ended t a TaskDied) = Some (a, Other DialTaskFailed)"
| "failure_of ev = None"

definition failures :: "'c dial_event list \<Rightarrow> (sockaddr \<times> error) list" where
  "failures tr = List.map_filter failure_of tr"

fun decides :: "'c dial_event \<Rightarrow> bool" where
  "decides (Ended t a (Connected c)) = True"
| "decides (DeadlineFired t) = True"
| "decides ev = False"

text \<open>The verdict and the event that gave it.\<close>

definition decided_by ::
  "instant \<Rightarrow> duration \<Rightarrow> sockaddr list \<Rightarrow> 'c dial_event list \<Rightarrow> 'c dial_state \<Rightarrow> bool" where
  "decided_by now budget cs tr s \<longleftrightarrow>
     (case ds_result s of
        None \<Rightarrow> list_all (Not \<circ> decides) tr
      | Some (Ok (a, c)) \<Rightarrow>
          \<exists>tr' t. tr = tr' @ [Ended t a (Connected c)] \<and> list_all (Not \<circ> decides) tr'
      | Some (Err e) \<Rightarrow>
          (cs = [] \<and> tr = [] \<and> e = other ''no usable upstream candidates'') \<or>
          (list_all (Not \<circ> decides) tr \<and> mset (map fst (failures tr)) = mset cs \<and> failures tr \<noteq> [] \<and>
             e = Other (AllUpstreamFailed (length cs) (Some (snd (last (failures tr)))))) \<or>
          (\<exists>tr' t. tr = tr' @ [DeadlineFired t] \<and> list_all (Not \<circ> decides) tr' \<and> now + budget \<le> t \<and>
             e = Other (UpstreamDialTimeout budget (length (ds_started s))))
      | Some Panic \<Rightarrow> False)"

definition trace_inv ::
  "instant \<Rightarrow> duration \<Rightarrow> sockaddr list \<Rightarrow> 'c dial_event list \<Rightarrow> 'c dial_state \<Rightarrow> bool" where
  "trace_inv now budget cs tr s \<longleftrightarrow>
     decided_by now budget cs tr s \<and> ds_failed s = map fst (failures tr) \<and>
     (cs \<noteq> [] \<longrightarrow> ds_deadline s = now + budget) \<and> (cs = [] \<longrightarrow> ds_result s \<noteq> None) \<and>
     ds_last_error s = (if failures tr = [] then None else Some (snd (last (failures tr))))"

lemma failures_simps [simp]:
  "failures [] = []"
  "failures (tr @ [ev]) = failures tr @ (case failure_of ev of None \<Rightarrow> [] | Some x \<Rightarrow> [x])"
  by (simp_all add: failures_def List.map_filter_def split: option.split)

lemma launch_next_simps [simp]:
  "ds_result (launch_next t delay s) = ds_result s" "ds_failed (launch_next t delay s) = ds_failed s"
  "ds_deadline (launch_next t delay s) = ds_deadline s"
  "ds_last_error (launch_next t delay s) = ds_last_error s"
  by (simp_all add: launch_next_def spawn_dial_def split: list.split)

lemma loop_head_simps [simp]:
  "ds_failed (loop_head s) = ds_failed s" "ds_deadline (loop_head s) = ds_deadline s"
  "ds_last_error (loop_head s) = ds_last_error s" "ds_attempted (loop_head s) = ds_attempted s"
  "ds_started (loop_head s) = ds_started s"
  "ds_result (loop_head s) = (if ds_in_flight s = [] \<and> ds_pending s = []
     then Some (Err (Other (AllUpstreamFailed (ds_attempted s) (ds_last_error s)))) else ds_result s)"
  by (simp_all add: loop_head_def)

text \<open>A failed attempt: the race goes on, or all candidates have failed.\<close>

lemma trace_failed:
  assumes tr: "trace_inv now budget cs tr s" and run: "ds_result s = None"
    and inv: "dial_inv budget mp cs s" and a: "a \<in> set (ds_in_flight s)" and f: "failure_of (Ended t a j) = Some (a, e)"
  shows "trace_inv now budget cs (tr @ [Ended t a j]) (on_joined t delay a j s)"
proof -
  have j: "j = DialFailed e \<or> (j = TaskDied \<and> e = Other DialTaskFailed)" using f by (cases j) auto
  define k where "k = (if j = TaskDied then ds_dial_failures s else ds_dial_failures s + 1)"
  define s1 where s1: "s1 = s\<lparr>ds_in_flight := remove1 a (ds_in_flight s), ds_dial_failures := k,
      ds_last_error := Some e, ds_failed := ds_failed s @ [a]\<rparr>"
  have eq: "on_joined t delay a j s = loop_head (if ds_in_flight s1 = [] then launch_next t delay s1 else s1)"
    using j by (auto simp: on_joined_def Let_def s1 k_def)
  define s2 where "s2 = (if ds_in_flight s1 = [] then launch_next t delay s1 else s1)"
  have inv': "dial_inv budget mp cs (loop_head s2)"
    using dial_inv_joined [OF inv run a, of t delay j] by (simp add: eq s2_def)
  have s2: "ds_result s2 = None" "ds_failed s2 = ds_failed s @ [a]" "ds_deadline s2 = ds_deadline s"
    "ds_last_error s2 = Some e"
    using run by (simp_all add: s2_def s1)
  have old: "list_all (Not \<circ> decides) tr" "ds_failed s = map fst (failures tr)"
    using tr run by (simp_all add: trace_inv_def decided_by_def)
  have nd: "\<not> decides (Ended t a j)" using j by auto
  have "decided_by now budget cs (tr @ [Ended t a j]) (loop_head s2)"
  proof (cases "ds_in_flight s2 = [] \<and> ds_pending s2 = []")
    case True
    then have r: "ds_result (loop_head s2) = Some (Err (Other (AllUpstreamFailed (ds_attempted s2) (Some e))))"
      by (simp add: s2)
    then have "ds_attempted s2 = length cs" "mset (ds_failed s2) = mset cs"
      using inv' by (auto simp: dial_inv_def verdict_ok_def)
    with r show ?thesis using old nd f s2(2) by (simp add: decided_by_def)
  next
    case False
    then show ?thesis using s2(1) old(1) nd by (auto simp: decided_by_def)
  qed
  then show ?thesis
    using tr s2 f by (auto simp: trace_inv_def eq s2_def [symmetric] run)
qed

lemma trace_inv_step:
  assumes tr: "trace_inv now budget cs tr s" and inv: "dial_inv budget mp cs s" and run: "ds_result s = None"
    and en: "dial_enabled mp ev s"
  shows "trace_inv now budget cs (tr @ [ev]) (dial_effect delay budget ev s)"
proof (cases "failure_of ev")
  case (Some x)
  then obtain t a j e where "ev = Ended t a j" "failure_of (Ended t a j) = Some (a, e)"
    by (cases ev rule: failure_of.cases) auto
  then show ?thesis using trace_failed [OF tr run inv] en by simp
next
  case None
  then consider t a c where "ev = Ended t a (Connected c)" | t where "ev = Staggered t" | t where "ev = DeadlineFired t"
    by (cases ev rule: failure_of.cases) auto
  then show ?thesis
    using tr run en inv
    by cases (auto simp: trace_inv_def decided_by_def on_joined_def on_deadline_def Let_def dial_inv_def race_ok_def)
qed

lemma trace_inv_start: "trace_inv now budget cs [] (dial_start now delay budget cs)"
  by (cases cs) (simp_all add: trace_inv_def decided_by_def dial_start_def spawn_dial_def dial_idle_def)

lemma dial_trace_inv: "dial_trace now delay budget mp cs tr s \<Longrightarrow> trace_inv now budget cs tr s"
proof (induction rule: dial_trace.induct)
  case (step tr s ev)
  have "dial_inv budget mp cs s" using step(1) dial_reach_trace dial_reach_inv by blast
  with step show ?case by (intro trace_inv_step)
qed (rule trace_inv_start)

text \<open>C4. The happy-eyeballs race, in every state it can reach and for every timing and outcome (\<open>tr\<close> is
  what happened): candidates are started once each, in order; never more than \<open>max_parallel_dials\<close> (at
  least one) are in flight; while undecided something is in flight to wait for and no attempt has
  connected. A success is the address and the connection of the first attempt that connected; it ends
  the race. A failure is reported because there were no candidates, because every candidate failed, with
  the error of the last one, or because the deadline fired, at the earliest \<open>connect_timeout\<close> after the
  start, with nothing connected. The error is never \<open>TunnelNotReady\<close>.\<close>

theorem staggered_dial_safe:
  assumes "dial_trace now delay budget mp cs tr s"
  shows "ds_started s @ ds_pending s = cs \<and> length (ds_in_flight s) \<le> max 1 mp
    \<and> (ds_result s = None \<longleftrightarrow> ds_in_flight s \<noteq> [])
    \<and> decided_by now budget cs tr s
    \<and> (\<forall>a c. ds_result s = Some (Ok (a, c)) \<longrightarrow> a \<in> set (ds_started s))
    \<and> ds_result s \<noteq> Some (Err TunnelNotReady) \<and> ds_result s \<noteq> Some Panic"
proof -
  have "dial_inv budget mp cs s" using assms dial_reach_trace dial_reach_inv by blast
  moreover have "decided_by now budget cs tr s" using dial_trace_inv [OF assms] by (simp add: trace_inv_def)
  ultimately show ?thesis by (auto simp: dial_inv_def race_ok_def verdict_ok_def)
qed

definition witness_race :: "nat dial_state" where
  "witness_race =
     on_joined 300 200 (SA4 (Ipv4Addr 2 2 2 2) 80) (Connected 7)
       (launch_next 200 200 (dial_start 0 200 8000 [SA4 (Ipv4Addr 1 1 1 1) 80, SA4 (Ipv4Addr 2 2 2 2) 80]))"

theorem staggered_dial_safe_witness:
  "ds_result witness_race = Some (Ok (SA4 (Ipv4Addr 2 2 2 2) 80, 7)) \<and> ds_in_flight witness_race = []"
proof -
  let ?cs = "[SA4 (Ipv4Addr 1 1 1 1) 80, SA4 (Ipv4Addr 2 2 2 2) 80]"
  have r: "ds_result witness_race = Some (Ok (SA4 (Ipv4Addr 2 2 2 2) 80, 7))"
    by (simp add: witness_race_def on_joined_def launch_next_def spawn_dial_def dial_start_def dial_idle_def)
  have "dial_trace 0 200 8000 2 ?cs (([] @ [Staggered 200]) @ [Ended 300 (SA4 (Ipv4Addr 2 2 2 2) 80) (Connected 7)])
      (dial_effect 200 8000 (Ended 300 (SA4 (Ipv4Addr 2 2 2 2) 80) (Connected 7))
        (dial_effect 200 8000 (Staggered 200) (dial_start 0 200 8000 ?cs)))"
    by (intro dial_trace.step dial_trace.start)
      (simp_all add: launch_next_def spawn_dial_def dial_start_def dial_idle_def)
  then have "dial_trace 0 200 8000 2 ?cs [Staggered 200, Ended 300 (SA4 (Ipv4Addr 2 2 2 2) 80) (Connected 7)] witness_race"
    by (simp add: witness_race_def)
  from staggered_dial_safe [OF this] r show ?thesis by simp
qed

section \<open>Termination\<close>

definition race_measure :: "'c dial_state \<Rightarrow> nat" where
  "race_measure s = 2 * length (ds_pending s) + length (ds_in_flight s) + (if ds_result s = None then 1 else 0)"

lemma loop_head_measure: "race_measure (loop_head s) \<le> race_measure s"
  by (simp add: race_measure_def loop_head_def)

lemma launch_next_measure: "race_measure (launch_next now delay s) \<le> race_measure s"
  by (cases "ds_pending s") (simp_all add: race_measure_def launch_next_def spawn_dial_def)

lemma dial_step_measure: "dial_step delay budget mp s s' \<Longrightarrow> race_measure s' < race_measure s"
proof (induction rule: dial_step.induct)
  case (joined s a now j)
  show ?case
  proof (cases "\<exists>c. j = Connected c")
    case True
    with joined show ?thesis by (auto simp: race_measure_def on_joined_def Let_def)
  next
    case False
    then obtain e where "j = DialFailed e \<or> j = TaskDied" by (cases j) auto
    from on_joined_failed [OF this, of now delay a s] obtain k e' s1 where
      s1: "s1 = s\<lparr>ds_in_flight := remove1 a (ds_in_flight s), ds_dial_failures := k,
        ds_last_error := Some e', ds_failed := ds_failed s @ [a]\<rparr>" and
      j: "on_joined now delay a j s = loop_head (if ds_in_flight s1 = [] then launch_next now delay s1 else s1)"
      by (auto simp: Let_def)
    have "race_measure s1 < race_measure s"
      using joined length_pos_if_in_set [OF joined(2)] by (simp add: s1 race_measure_def length_remove1)
    then show ?thesis
      unfolding j using loop_head_measure launch_next_measure [of now delay s1]
      by (metis (full_types) le_less_trans)
  qed
next
  case (launch s now)
  then show ?case by (cases "ds_pending s") (simp_all add: race_measure_def launch_next_def spawn_dial_def)
next
  case (deadline s now)
  then show ?case by (simp add: race_measure_def on_deadline_def)
qed

lemma dial_run_measure:
  "(dial_step delay budget mp ^^ n) s s' \<Longrightarrow> n + race_measure s' \<le> race_measure s"
proof (induction n arbitrary: s')
  case (Suc n)
  then obtain s1 where "(dial_step delay budget mp ^^ n) s s1" "dial_step delay budget mp s1 s'" by auto
  with Suc.IH [of s1] dial_step_measure [of delay budget mp s1 s'] show ?case by simp
qed simp

text \<open>C24. The race ends: however attempts and timers interleave, \<open>k\<close> candidates allow at most \<open>2 k\<close>
  steps, and a state in which no step is possible has its result.\<close>

theorem staggered_dial_terminates:
  "(\<forall>n (s :: 'c dial_state). (dial_step delay budget mp ^^ n) (dial_start now delay budget cs) s \<longrightarrow> n \<le> 2 * length cs)
   \<and> (\<forall>s :: 'c dial_state. (\<nexists>s'. dial_step delay budget mp s s') \<longrightarrow> ds_result s \<noteq> None)"
proof (intro conjI allI impI)
  fix n and s :: "'c dial_state"
  assume "(dial_step delay budget mp ^^ n) (dial_start now delay budget cs) s"
  from dial_run_measure [OF this] show "n \<le> 2 * length cs"
    by (cases cs) (simp_all add: race_measure_def dial_start_def spawn_dial_def dial_idle_def)
next
  fix s :: "'c dial_state" assume "\<nexists>s'. dial_step delay budget mp s s'"
  then show "ds_result s \<noteq> None" using dial_step.deadline [of s "ds_deadline s"] by blast
qed

theorem staggered_dial_terminates_witness:
  "(1 :: nat) \<le> 2 * length [SA4 (Ipv4Addr 1 1 1 1) 80]
   \<and> (dial_step 200 8000 2 ^^ 1) (dial_start 0 200 8000 [SA4 (Ipv4Addr 1 1 1 1) 80])
       (on_deadline 8000 (dial_start 0 200 8000 [SA4 (Ipv4Addr 1 1 1 1) 80] :: nat dial_state))"
proof -
  have "(dial_step 200 8000 2 ^^ 1) (dial_start 0 200 8000 [SA4 (Ipv4Addr 1 1 1 1) 80])
       (on_deadline 8000 (dial_start 0 200 8000 [SA4 (Ipv4Addr 1 1 1 1) 80] :: nat dial_state))"
    by (auto simp: dial_start_def spawn_dial_def dial_idle_def intro!: dial_step.deadline [of _ 8000])
  with staggered_dial_terminates show ?thesis by blast
qed

section \<open>Candidate preparation\<close>

lemma dedup_addrs_props: "distinct (dedup_addrs cs)" "set (dedup_addrs cs) = set cs"
  by (simp_all add: dedup_addrs_def)

text \<open>Property. Candidates handed to the race: at least one and at most \<open>max_dial_candidates\<close>, without
  duplicates, all from the resolver's answer, IPv4 only when the tunnel has no IPv6; the preparation
  fails exactly when nothing usable was resolved.\<close>

theorem prepare_candidates_correct:
  assumes "0 < k"
  shows "case prepare_candidates has_ipv6 k cs of
     Ok out \<Rightarrow> out \<noteq> [] \<and> length out \<le> k \<and> distinct out \<and> set out \<subseteq> set cs
       \<and> hd out = hd (filter (\<lambda>a. has_ipv6 \<or> sa_is_ipv4 a) cs)
       \<and> list_all (\<lambda>a. has_ipv6 \<or> sa_is_ipv4 a) out
   | Err e \<Rightarrow> filter (\<lambda>a. has_ipv6 \<or> sa_is_ipv4 a) cs = []
   | Panic \<Rightarrow> False"
proof -
  define us where "us = filter (\<lambda>a. has_ipv6 \<or> sa_is_ipv4 a) cs"
  have us: "(if has_ipv6 then cs else filter sa_is_ipv4 cs) = us" by (simp add: us_def)
  have ok: "prepare_candidates has_ipv6 k cs = Ok (take k (dedup_addrs us))" if "us \<noteq> []"
    using that unfolding prepare_candidates_def Let_def us by (auto simp: us_def)
  have err: "\<exists>e. prepare_candidates has_ipv6 k cs = Err e" if "us = []"
    using that by (cases has_ipv6) (auto simp: prepare_candidates_def us_def Let_def)
  have ne: "dedup_addrs us \<noteq> []" "hd (dedup_addrs us) = hd us" if "us \<noteq> []"
  proof -
    obtain x xs where x: "us = x # xs" using \<open>us \<noteq> []\<close> by (cases us) auto
    obtain zs where "push_all_unique [x] xs = [x] @ zs" using push_all_unique_prefix [of "[x]" xs] by blast
    then show "dedup_addrs us \<noteq> []" "hd (dedup_addrs us) = hd us"
      by (simp_all add: dedup_addrs_def x push_unique_def)
  qed
  have sub: "set us \<subseteq> set cs" "list_all (\<lambda>a. has_ipv6 \<or> sa_is_ipv4 a) us"
    by (auto simp: us_def list_all_iff)
  show ?thesis
  proof (cases "us = []")
    case True
    with err show ?thesis by (auto simp: us_def [symmetric])
  next
    case False
    have "set (take k (dedup_addrs us)) \<subseteq> set us" using set_take_subset dedup_addrs_props(2) by fast
    with False ok ne sub assms show ?thesis
      by (auto simp: us_def [symmetric] dedup_addrs_props(1) list_all_iff)
  qed
qed

theorem prepare_candidates_correct_witness:
  "prepare_candidates False 2 [SA6 (ipv6_from (replicate 16 1)) 80 0 0, SA4 (Ipv4Addr 1 1 1 1) 80] =
     Ok [SA4 (Ipv4Addr 1 1 1 1) 80]
   \<and> hd [SA4 (Ipv4Addr 1 1 1 1) 80] = SA4 (Ipv4Addr 1 1 1 1) 80"
proof -
  have "prepare_candidates False 2 [SA6 (ipv6_from (replicate 16 1)) 80 0 0, SA4 (Ipv4Addr 1 1 1 1) 80] =
     Ok [SA4 (Ipv4Addr 1 1 1 1) 80]"
    by (simp add: prepare_candidates_def dedup_addrs_def push_unique_def)
  with prepare_candidates_correct [where k = 2 and ?has_ipv6.0 = False and cs =
      "[SA6 (ipv6_from (replicate 16 1)) 80 0 0, SA4 (Ipv4Addr 1 1 1 1) 80]"]
  show ?thesis by simp
qed

end
