(* ===== verification/Socks_Tcp.thy ===== *)
theory Socks_Tcp
  imports Prelude Net_Types Config Egress Dial
begin

text \<open>
  The SOCKS5 front end of \<open>src/proxy/tcp.rs\<close> around the dial race: listener errors, the rate-limited
  log gates, authentication, and the connection handler with every early return. The protocol
  library and the sockets enter as the outcomes of the calls the code makes; a handler returns the
  effects it performed, in order, and its result.
\<close>

section \<open>Listener errors\<close>

definition bind_listener :: "sockaddr \<Rightarrow> ('l, io_error) result \<Rightarrow> 'l res" where
  "bind_listener addr outcome =
     (case outcome of
        Ok l \<Rightarrow> Ok l
      | Err e \<Rightarrow>
          if io_error_kind e = AddrInUse then Err (Other (BindAddrInUse addr))
          else if io_error_kind e = PermissionDenied
          then Err (Other (BindPermissionDenied addr (sa_port addr < 1024)))
          else Err (Io e)
      | Panic \<Rightarrow> Panic)"

section \<open>Log gates\<close>

record log_gate =
  lg_last :: "instant option"
  lg_suppressed :: u64
  lg_suppressed_metric :: nat

definition gate_new :: log_gate where
  "gate_new = \<lparr>lg_last = None, lg_suppressed = 0, lg_suppressed_metric = 0\<rparr>"

definition GATE_INTERVAL :: duration where "GATE_INTERVAL = from_secs 1"

definition should_log :: "instant \<Rightarrow> log_gate \<Rightarrow> u64 option \<times> log_gate" where
  "should_log now g =
     (case lg_last g of
        Some previous \<Rightarrow>
          if now - previous < GATE_INTERVAL then
            (None, g\<lparr>lg_suppressed := lg_suppressed g + 1, lg_suppressed_metric := lg_suppressed_metric g + 1\<rparr>)
          else (Some (lg_suppressed g), g\<lparr>lg_last := Some now, lg_suppressed := 0\<rparr>)
      | None \<Rightarrow> (Some (lg_suppressed g), g\<lparr>lg_last := Some now, lg_suppressed := 0\<rparr>))"

text \<open>\<open>log_dial_failure\<close> keeps its own state; \<open>now\<close> and \<open>now'\<close> are the two clock reads.\<close>

record dial_log =
  dl_last :: instant
  dl_suppressed :: u64

definition DIAL_LOG_INTERVAL :: duration where "DIAL_LOG_INTERVAL = from_secs 2"

definition u64_saturating_inc :: "u64 \<Rightarrow> u64" where
  "u64_saturating_inc n = (if n = -1 then n else n + 1)"

definition log_dial_failure :: "instant \<Rightarrow> instant \<Rightarrow> dial_log option \<Rightarrow> u64 option \<times> dial_log" where
  "log_dial_failure now now' state =
     (let d = (case state of Some d \<Rightarrow> d | None \<Rightarrow> \<lparr>dl_last = now - DIAL_LOG_INTERVAL, dl_suppressed = 0\<rparr>) in
      if DIAL_LOG_INTERVAL \<le> now - dl_last d
      then (Some (dl_suppressed d), d\<lparr>dl_last := now', dl_suppressed := 0\<rparr>)
      else (None, d\<lparr>dl_suppressed := u64_saturating_inc (dl_suppressed d)\<rparr>))"

text \<open>A run of the rejection gate: the instants of the refused connections, in time order.\<close>

fun gate_run :: "log_gate \<Rightarrow> instant list \<Rightarrow> (instant \<times> u64) list \<times> log_gate" where
  "gate_run g [] = ([], g)"
| "gate_run g (t # ts) =
     (let (o', g1) = should_log t g; (out, g2) = gate_run g1 ts
      in ((case o' of Some n \<Rightarrow> [(t, n)] | None \<Rightarrow> []) @ out, g2))"

section \<open>Handshake\<close>

datatype socks_command = TCPConnect | TCPBind | UDPAssociate

datatype target_addr = TargetIp sockaddr | TargetName string u16

datatype reply_error = GeneralFailure | CommandNotSupported | ReplyHostUnreachable

datatype effect =
    ReplyError reply_error
  | ReplySuccess sockaddr
  | CountRejected | CountUnhealthy | CountDialPressure | CountHandshakeTimeout | CountAuthFail
  | CountOpened | CountClosed | CountBytes u64 u64
  | Sleep duration
  | TakeDialPermit | DropDialPermit
  | Resolve target_addr
  | DialRace "sockaddr list"
  | EgressRecord bool
  | LogDialFailure error
  | Relay
  | UdpGaugeInc | UdpGaugeDec | SpawnUdpRelay ipaddr | CancelUdpRelay | AbortUdpRelay

text \<open>What the protocol library reports: the no-auth greeting, the credentials a client presented,
  and the command it then sent.\<close>

record handshake_io =
  hi_no_auth :: "unit res"
  hi_credentials :: "(string \<times> string) res"
  hi_command :: "(socks_command \<times> target_addr) res"

text \<open>\<open>ct_eq\<close> of \<open>subtle\<close> is equality of byte strings; both comparisons are always made.\<close>

definition auth_matches :: "auth_config \<Rightarrow> string \<Rightarrow> string \<Rightarrow> bool" where
  "auth_matches a u p = ((u = auth_username a) \<and> (p = auth_password a))"

definition handshake_and_read_command ::
  "auth_config option \<Rightarrow> limits_config \<Rightarrow> handshake_io \<Rightarrow> effect list \<times> (socks_command \<times> target_addr) res"
where
  "handshake_and_read_command auth limits io =
     (case auth of
        None \<Rightarrow> ([], and_then (hi_no_auth io) (\<lambda>_. hi_command io))
      | Some a \<Rightarrow>
          (case hi_credentials io of
             Ok (u, p) \<Rightarrow>
               if \<not> auth_matches a u p
               then ([CountAuthFail, Sleep (lc_auth_fail_sleep limits)], Err (other ''auth failed''))
               else ([], hi_command io)
           | Err e \<Rightarrow> ([], Err e)
           | Panic \<Rightarrow> ([], Panic)))"

section \<open>The connection handler\<close>

text \<open>\<open>ci_handshake_expired\<close> says that the handshake timeout fired, and after how many of the
  handshake's effects.\<close>

record 'c conn_io =
  ci_nodelay :: "unit res"
  ci_handshake_expired :: "nat option"
  ci_handshake :: handshake_io
  ci_healthy :: bool
  ci_dial_permit :: bool
  ci_resolve :: "target_addr \<Rightarrow> sockaddr list res"
  ci_dial :: "sockaddr list \<Rightarrow> (sockaddr \<times> 'c) res"
  ci_reply :: "unit res"
  ci_relay :: "(u64 \<times> u64) res"
  ci_udp_bind :: "(sockaddr, io_error) result"
  ci_udp_local_addr :: "sockaddr res"
  ci_udp_completed :: bool
  ci_udp_joined_in_time :: bool

definition reply_and_stop :: "'c conn_io \<Rightarrow> effect list \<Rightarrow> reply_error \<Rightarrow> effect list \<Rightarrow> effect list \<times> unit res" where
  "reply_and_stop io eff e dropped = (eff @ [ReplyError e] @ dropped, ci_reply io)"

definition resolve_target :: "(string \<Rightarrow> u16 \<Rightarrow> sockaddr list res) \<Rightarrow> target_addr \<Rightarrow> sockaddr list res" where
  "resolve_target resolve_dual t =
     (case t of TargetIp sa \<Rightarrow> Ok [sa] | TargetName host port \<Rightarrow> resolve_dual host port)"

definition handle_udp_associate :: "'c conn_io \<Rightarrow> sockaddr \<Rightarrow> effect list \<times> unit res" where
  "handle_udp_associate io peer =
     (case ci_udp_bind io of
        Err e \<Rightarrow> reply_and_stop io [] GeneralFailure []
      | Panic \<Rightarrow> ([], Panic)
      | Ok _ \<Rightarrow>
          (case ci_udp_local_addr io of
             Err e \<Rightarrow> ([], Err e)
           | Panic \<Rightarrow> ([], Panic)
           | Ok relay_addr \<Rightarrow>
               (case ci_reply io of
                  Ok _ \<Rightarrow>
                    ([ReplySuccess relay_addr, UdpGaugeInc, SpawnUdpRelay (sa_ip peer), CancelUdpRelay]
                     @ (if \<not> ci_udp_completed io \<and> \<not> ci_udp_joined_in_time io then [AbortUdpRelay] else [])
                     @ [UdpGaugeDec], Ok ())
                | r \<Rightarrow> ([ReplySuccess relay_addr], r))))"

definition connect_upstream ::
  "'c conn_io \<Rightarrow> target_addr \<Rightarrow> effect list \<times> unit res"
where
  "connect_upstream io target =
     (if \<not> ci_healthy io then reply_and_stop io [CountRejected, CountUnhealthy] GeneralFailure []
      else if \<not> ci_dial_permit io then
        reply_and_stop io [CountRejected, CountDialPressure] GeneralFailure []
      else
        let eff = [TakeDialPermit, Resolve target] in
        case ci_resolve io target of
          Err e \<Rightarrow> reply_and_stop io eff ReplyHostUnreachable [DropDialPermit]
        | Panic \<Rightarrow> (eff @ [DropDialPermit], Panic)
        | Ok candidates \<Rightarrow>
            let eff = eff @ [DialRace candidates] in
            (case ci_dial io candidates of
               Err e \<Rightarrow>
                 reply_and_stop io
                   (eff @ (if e \<noteq> TunnelNotReady then [EgressRecord False] else []) @ [LogDialFailure e])
                   (if e = TunnelNotReady then GeneralFailure else ReplyHostUnreachable)
                   [DropDialPermit]
             | Panic \<Rightarrow> (eff @ [DropDialPermit], Panic)
             | Ok (upstream_addr, upstream) \<Rightarrow>
                 let eff = eff @ [EgressRecord True, DropDialPermit, ReplySuccess upstream_addr] in
                 (case ci_reply io of
                    Ok _ \<Rightarrow>
                      let eff = eff @ [CountOpened, Relay] in
                      (case ci_relay io of
                         Ok (up, down) \<Rightarrow> (eff @ [CountBytes up down, CountClosed], Ok ())
                       | Err e \<Rightarrow> (eff, Err e)
                       | Panic \<Rightarrow> (eff, Panic))
                  | r \<Rightarrow> (eff, r))))"

definition handle ::
  "auth_config option \<Rightarrow> limits_config \<Rightarrow> sockaddr \<Rightarrow> 'c conn_io \<Rightarrow> effect list \<times> unit res"
where
  "handle auth limits peer io =
     (case ci_nodelay io of
        Err e \<Rightarrow> ([], Err e)
      | Panic \<Rightarrow> ([], Panic)
      | Ok _ \<Rightarrow>
          let (eff, r) = handshake_and_read_command auth limits (ci_handshake io) in
          case ci_handshake_expired io of
            Some n \<Rightarrow> (take n eff @ [CountHandshakeTimeout], Ok ())
          | None \<Rightarrow>
            (case r of
               Err e \<Rightarrow> (eff, Err e)
             | Panic \<Rightarrow> (eff, Panic)
             | Ok (cmd, target) \<Rightarrow>
                 let (eff', r') =
                   (case cmd of
                      TCPConnect \<Rightarrow> connect_upstream io target
                    | UDPAssociate \<Rightarrow>
                        if \<not> ci_healthy io
                        then reply_and_stop io [CountRejected, CountUnhealthy] GeneralFailure []
                        else handle_udp_associate io peer
                    | TCPBind \<Rightarrow> reply_and_stop io [] CommandNotSupported [])
                 in (eff @ eff', r')))"

section \<open>The log gate\<close>

lemma unat_inc_no_wrap: "unat (x :: u64) + 1 < 2 ^ 64 \<Longrightarrow> unat (x + 1) = unat x + 1"
  by (rule unat_inc_u64)

lemma gate_run_conservation:
  assumes "unat (lg_suppressed g) + length ts < 2 ^ 64"
  shows "unat (lg_suppressed g) + length ts =
    length (fst (gate_run g ts)) + sum_list (map (\<lambda>(t, n). unat n) (fst (gate_run g ts)))
      + unat (lg_suppressed (snd (gate_run g ts)))"
  using assms
proof (induction ts arbitrary: g)
  case (Cons t ts)
  obtain o' g1 where s: "should_log t g = (o', g1)" by fastforce
  obtain out g2 where r: "gate_run g1 ts = (out, g2)" by fastforce
  have "(o' = None \<and> unat (lg_suppressed g1) = unat (lg_suppressed g) + 1) \<or>
      (o' = Some (lg_suppressed g) \<and> unat (lg_suppressed g1) = 0)"
    using s Cons.prems by (auto simp: should_log_def unat_inc_no_wrap split: option.splits if_splits)
  with Cons.IH [of g1] Cons.prems r s show ?case by auto
qed simp

definition spaced :: "(instant \<times> u64) list \<Rightarrow> bool" where
  "spaced out \<longleftrightarrow> sorted_wrt (\<lambda>x y. fst x + GATE_INTERVAL \<le> fst y) out"

lemma gate_run_spaced:
  assumes "sorted ts" "\<And>p. lg_last g = Some p \<Longrightarrow> \<forall>t \<in> set ts. p \<le> t"
  shows "spaced (fst (gate_run g ts)) \<and>
    (\<forall>x \<in> set (fst (gate_run g ts)). \<forall>p. lg_last g = Some p \<longrightarrow> p + GATE_INTERVAL \<le> fst x) \<and>
    fst ` set (fst (gate_run g ts)) \<subseteq> set ts"
  using assms
proof (induction ts arbitrary: g)
  case Nil
  show ?case by (simp add: spaced_def)
next
  case (Cons t ts)
  obtain o' g1 where s: "should_log t g = (o', g1)" by fastforce
  obtain out g2 where r: "gate_run g1 ts = (out, g2)" by fastforce
  have cases': "(o' = None \<and> lg_last g1 = lg_last g) \<or>
      (o' \<noteq> None \<and> lg_last g1 = Some t \<and> (\<forall>p. lg_last g = Some p \<longrightarrow> p + GATE_INTERVAL \<le> t))"
    using s Cons.prems(2) by (auto simp: should_log_def split: option.splits if_splits)
  have "\<forall>u \<in> set ts. p \<le> u" if "lg_last g1 = Some p" for p
    using cases' that Cons.prems by auto
  with Cons.IH [of g1] Cons.prems(1) have ih: "spaced out"
    "\<forall>x \<in> set out. \<forall>p. lg_last g1 = Some p \<longrightarrow> p + GATE_INTERVAL \<le> fst x" "fst ` set out \<subseteq> set ts"
    by (simp_all add: r)
  from cases' show ?case
  proof
    assume "o' = None \<and> lg_last g1 = lg_last g"
    with ih show ?thesis by (auto simp: s r)
  next
    assume l: "o' \<noteq> None \<and> lg_last g1 = Some t \<and> (\<forall>p. lg_last g = Some p \<longrightarrow> p + GATE_INTERVAL \<le> t)"
    then obtain n where "o' = Some n" by auto
    with ih l show ?thesis by (fastforce simp: s r spaced_def)
  qed
qed

text \<open>Property. The rejection log gate, over any time-ordered burst of fewer than \<open>2 ^ 64\<close> refused
  connections: two log lines are always at least one second apart, and no refusal is lost: lines
  written, counts they report as suppressed, and the count still held add up to the refusals.\<close>

theorem rejection_gate_correct:
  assumes "sorted ts" "length ts < 2 ^ 64"
  shows "spaced (fst (gate_run gate_new ts)) \<and>
    length ts = length (fst (gate_run gate_new ts))
      + sum_list (map (\<lambda>(t, n). unat n) (fst (gate_run gate_new ts)))
      + unat (lg_suppressed (snd (gate_run gate_new ts)))"
  using gate_run_spaced [OF assms(1), of gate_new] gate_run_conservation [of gate_new ts] assms(2)
  by (simp add: gate_new_def)

theorem rejection_gate_correct_witness:
  "fst (gate_run gate_new [0, 5, 7, from_secs 1 + 3]) = [(0, 0), (from_secs 1 + 3, 2)]
   \<and> spaced [(0, 0), (from_secs 1 + 3, 2)]"
proof -
  have "fst (gate_run gate_new [0, 5, 7, from_secs 1 + 3]) = [(0, 0), (from_secs 1 + 3, 2)]"
    by (simp add: gate_new_def should_log_def GATE_INTERVAL_def from_secs_def)
  moreover have "sorted [0, 5, 7, from_secs 1 + 3]" by (simp add: from_secs_def)
  ultimately show ?thesis using rejection_gate_correct [of "[0, 5, 7, from_secs 1 + 3]"] by simp
qed

section \<open>The handler on every path\<close>

definition is_reply :: "effect \<Rightarrow> bool" where
  "is_reply e \<longleftrightarrow> (case e of ReplyError x \<Rightarrow> True | ReplySuccess a \<Rightarrow> True | _ \<Rightarrow> False)"

text \<open>Work on behalf of the client: resolving, dialling, relaying, a UDP relay, or a success reply.\<close>

definition serves :: "effect \<Rightarrow> bool" where
  "serves e \<longleftrightarrow>
     (case e of Resolve t \<Rightarrow> True | DialRace c \<Rightarrow> True | Relay \<Rightarrow> True | SpawnUdpRelay i \<Rightarrow> True
      | ReplySuccess a \<Rightarrow> True | TakeDialPermit \<Rightarrow> True | _ \<Rightarrow> False)"

fun permit_balance :: "effect list \<Rightarrow> int \<Rightarrow> int option" where
  "permit_balance [] n = Some n"
| "permit_balance (TakeDialPermit # es) n = (if n = 0 then permit_balance es 1 else None)"
| "permit_balance (DropDialPermit # es) n = (if n = 1 then permit_balance es 0 else None)"
| "permit_balance (Relay # es) n = (if n = 0 then permit_balance es 0 else None)"
| "permit_balance (e # es) n = permit_balance es n"

definition orderly :: "effect list \<Rightarrow> bool" where
  "orderly es \<longleftrightarrow> permit_balance es 0 = Some 0 \<and> length (filter is_reply es) \<le> 1"

lemma connect_upstream_orderly: "orderly (fst (connect_upstream io target))"
  by (auto simp: connect_upstream_def reply_and_stop_def orderly_def is_reply_def Let_def
      split: result.split prod.split)

lemma handle_udp_associate_orderly: "orderly (fst (handle_udp_associate io peer))"
  by (auto simp: handle_udp_associate_def reply_and_stop_def orderly_def is_reply_def
      split: result.split)

lemma handshake_quiet:
  "fst (handshake_and_read_command auth limits io) \<in> {[], [CountAuthFail, Sleep (lc_auth_fail_sleep limits)]}"
  by (auto simp: handshake_and_read_command_def split: option.split result.split)

lemma handshake_Ok_effects:
  "handshake_and_read_command auth limits io = (eff, Ok r) \<Longrightarrow> eff = []"
  by (auto simp: handshake_and_read_command_def split: option.splits result.splits if_splits)

lemma handshake_authenticated:
  "handshake_and_read_command (Some a) limits io = (eff, Ok r) \<Longrightarrow>
     hi_credentials io = Ok (auth_username a, auth_password a)"
  by (auto simp: handshake_and_read_command_def auth_matches_def split: result.splits if_splits)

definition command_part :: "'c conn_io \<Rightarrow> sockaddr \<Rightarrow> socks_command \<Rightarrow> target_addr \<Rightarrow> effect list \<times> unit res" where
  "command_part io peer cmd target =
     (case cmd of
        TCPConnect \<Rightarrow> connect_upstream io target
      | UDPAssociate \<Rightarrow>
          if \<not> ci_healthy io then reply_and_stop io [CountRejected, CountUnhealthy] GeneralFailure []
          else handle_udp_associate io peer
      | TCPBind \<Rightarrow> reply_and_stop io [] CommandNotSupported [])"

lemma command_part_orderly: "orderly (fst (command_part io peer cmd target))"
  using connect_upstream_orderly [of io target] handle_udp_associate_orderly [of io peer]
  by (auto simp: command_part_def reply_and_stop_def orderly_def is_reply_def split: socks_command.split)

lemma command_part_unhealthy:
  "\<not> ci_healthy io \<Longrightarrow> list_all (\<lambda>e. \<not> serves e) (fst (command_part io peer cmd target))"
  by (auto simp: command_part_def connect_upstream_def reply_and_stop_def serves_def split: socks_command.split)

text \<open>Either the handler stops in the handshake, with effects that touch nothing, or an accepted
  handshake hands over to the command part alone.\<close>

lemma handle_cases:
  obtains "fst (handle auth limits peer io) = []"
  | n where "fst (handle auth limits peer io) =
      take n (fst (handshake_and_read_command auth limits (ci_handshake io))) @ [CountHandshakeTimeout]"
  | "fst (handle auth limits peer io) = fst (handshake_and_read_command auth limits (ci_handshake io))"
  | cmd target where
      "handshake_and_read_command auth limits (ci_handshake io) = ([], Ok (cmd, target))"
      "handle auth limits peer io = command_part io peer cmd target"
proof -
  obtain eff r where h: "handshake_and_read_command auth limits (ci_handshake io) = (eff, r)" by fastforce
  show thesis
  proof (cases "ci_nodelay io")
    case (Ok u)
    show thesis
    proof (cases "ci_handshake_expired io")
      case (Some n)
      then show thesis using Ok h that(2) [of n] by (simp add: handle_def)
    next
      case None
      show thesis
      proof (cases r)
        case (Ok ct)
        obtain cmd target where ct: "ct = (cmd, target)" by (cases ct)
        have "eff = []" using handshake_Ok_effects h Ok by blast
        then show thesis using that(4) [of cmd target] \<open>ci_nodelay io = result.Ok u\<close> None h Ok
          by (simp add: handle_def ct command_part_def split: prod.split)
      qed (use \<open>ci_nodelay io = result.Ok u\<close> None h that(3) in \<open>simp_all add: handle_def\<close>)
    qed
  qed (use that(1) in \<open>simp_all add: handle_def\<close>)
qed

lemma quiet_orderly:
  "set es \<subseteq> {CountAuthFail, Sleep d, CountHandshakeTimeout} \<Longrightarrow>
     permit_balance es n = Some n \<and> filter is_reply es = [] \<and> list_all (\<lambda>e. \<not> serves e) es"
  by (induction es n rule: permit_balance.induct) (auto simp: is_reply_def serves_def)

lemma handshake_quiet_set:
  "set (take n (fst (handshake_and_read_command auth limits io)) @ [CountHandshakeTimeout])
     \<subseteq> {CountAuthFail, Sleep (lc_auth_fail_sleep limits), CountHandshakeTimeout}"
  "set (fst (handshake_and_read_command auth limits io))
     \<subseteq> {CountAuthFail, Sleep (lc_auth_fail_sleep limits), CountHandshakeTimeout}"
  using handshake_quiet [of auth limits io] set_take_subset [of n "fst (handshake_and_read_command auth limits io)"]
  by auto

lemma quiet_disciplined:
  "set es \<subseteq> {CountAuthFail, Sleep d, CountHandshakeTimeout} \<Longrightarrow>
     orderly es \<and> list_all (\<lambda>e. \<not> serves e) es"
  using quiet_orderly [of es d 0] by (simp add: orderly_def)

lemma handle_either:
  "(orderly (fst (handle auth limits peer io)) \<and>
    list_all (\<lambda>e. \<not> serves e) (fst (handle auth limits peer io))) \<or>
   (\<exists>cmd target. handshake_and_read_command auth limits (ci_handshake io) = ([], Ok (cmd, target)) \<and>
      handle auth limits peer io = command_part io peer cmd target)"
proof (cases auth limits peer io rule: handle_cases)
  case 1
  then show ?thesis by (simp add: orderly_def)
next
  case (2 n)
  then show ?thesis using quiet_disciplined [OF handshake_quiet_set(1)] by metis
next
  case 3
  then show ?thesis using quiet_disciplined [OF handshake_quiet_set(2)] by metis
qed blast

text \<open>C2. Discipline of the connection handler, on every path through it: at most one SOCKS reply is
  sent; the dial permit is taken at most once, always given back, and never held while relaying; a
  client without the configured credentials, and any client while the tunnel is unhealthy, gets no
  resolution, no dial, no relay, no UDP association and no success reply.\<close>

theorem handle_disciplined:
  "orderly (fst (handle auth limits peer io))
   \<and> (\<not> ci_healthy io \<or>
      (\<exists>a. auth = Some a \<and> hi_credentials (ci_handshake io) \<noteq> Ok (auth_username a, auth_password a)) \<longrightarrow>
        list_all (\<lambda>e. \<not> serves e) (fst (handle auth limits peer io)))"
  using handle_either [of auth limits peer io]
proof
  assume "\<exists>cmd target. handshake_and_read_command auth limits (ci_handshake io) = ([], Ok (cmd, target)) \<and>
      handle auth limits peer io = command_part io peer cmd target"
  then obtain cmd target where
    h: "handshake_and_read_command auth limits (ci_handshake io) = ([], Ok (cmd, target))"
    "handle auth limits peer io = command_part io peer cmd target" by blast
  then have "\<not> (\<exists>a. auth = Some a \<and> hi_credentials (ci_handshake io) \<noteq> Ok (auth_username a, auth_password a))"
    using handshake_authenticated by blast
  with command_part_orderly command_part_unhealthy show ?thesis unfolding h(2) by blast
qed blast

definition witness_io :: "nat conn_io" where
  "witness_io = \<lparr>ci_nodelay = Ok (), ci_handshake_expired = None,
     ci_handshake = \<lparr>hi_no_auth = Ok (), hi_credentials = Ok (''u'', ''guess''),
       hi_command = Ok (TCPConnect, TargetName ''a.io'' 443)\<rparr>,
     ci_healthy = True, ci_dial_permit = True, ci_resolve = (\<lambda>t. Ok [SA4 (Ipv4Addr 1 2 3 4) 443]),
     ci_dial = (\<lambda>cs. Ok (SA4 (Ipv4Addr 1 2 3 4) 443, 7)), ci_reply = Ok (), ci_relay = Ok (10, 20),
     ci_udp_bind = Ok (SA4 (Ipv4Addr 127 0 0 1) 5000), ci_udp_local_addr = Ok (SA4 (Ipv4Addr 127 0 0 1) 5000),
     ci_udp_completed = True, ci_udp_joined_in_time = True\<rparr>"

theorem handle_disciplined_witness:
  "list_all (\<lambda>e. \<not> serves e)
     (fst (handle (Some \<lparr>auth_username = ''u'', auth_password = ''secret''\<rparr>) (default_limits None)
       (SA4 (Ipv4Addr 9 9 9 9) 1) witness_io))
   \<and> Relay \<in> set (fst (handle None (default_limits None) (SA4 (Ipv4Addr 9 9 9 9) 1) witness_io))"
proof -
  have "hi_credentials (ci_handshake witness_io) \<noteq> Ok (''u'', ''secret'')" by (simp add: witness_io_def)
  then have "list_all (\<lambda>e. \<not> serves e)
     (fst (handle (Some \<lparr>auth_username = ''u'', auth_password = ''secret''\<rparr>) (default_limits None)
       (SA4 (Ipv4Addr 9 9 9 9) 1) witness_io))"
    using handle_disciplined [of "Some \<lparr>auth_username = ''u'', auth_password = ''secret''\<rparr>" "default_limits None"
        "SA4 (Ipv4Addr 9 9 9 9) 1" witness_io] by auto
  moreover have "Relay \<in> set (fst (handle None (default_limits None) (SA4 (Ipv4Addr 9 9 9 9) 1) witness_io))"
    by (simp add: handle_def handshake_and_read_command_def witness_io_def connect_upstream_def)
  ultimately show ?thesis by blast
qed

section \<open>Egress accounting of dials\<close>

definition race_outcome :: "limits_config \<Rightarrow> sockaddr list \<Rightarrow> (sockaddr \<times> 'c) res \<Rightarrow> bool" where
  "race_outcome limits cs r \<longleftrightarrow>
     (\<exists>now s. dial_reach now (lc_happy_eyeballs_delay limits) (lc_connect_timeout limits)
        (lc_max_parallel_dials limits) cs s \<and> ds_result s = Some r)"

text \<open>What \<open>happy_eyeballs_dial\<close> may return.\<close>

definition dial_outcome :: "bool \<Rightarrow> limits_config \<Rightarrow> sockaddr list \<Rightarrow> (sockaddr \<times> 'c) res \<Rightarrow> bool" where
  "dial_outcome has_ipv6 limits cs r \<longleftrightarrow>
     (case prepare_candidates has_ipv6 (lc_max_dial_candidates limits) cs of
        Ok out \<Rightarrow> race_outcome limits out r
      | Err e \<Rightarrow> r = Err e
      | Panic \<Rightarrow> False)"

lemma dial_outcome_no_tunnel_error:
  assumes "dial_outcome has_ipv6 limits cs r"
  shows "r \<noteq> Err TunnelNotReady" "r \<noteq> Panic"
proof -
  have race: "r \<noteq> Err TunnelNotReady \<and> r \<noteq> Panic" if "race_outcome limits out r" for out
  proof -
    from that obtain now s where s: "dial_reach now (lc_happy_eyeballs_delay limits)
      (lc_connect_timeout limits) (lc_max_parallel_dials limits) out s" "ds_result s = Some r"
      by (auto simp: race_outcome_def)
    have "verdict_ok (lc_connect_timeout limits) out s"
      using dial_reach_inv [OF s(1)] by (simp add: dial_inv_def)
    with s(2) show ?thesis by (auto simp: verdict_ok_def)
  qed
  show "r \<noteq> Err TunnelNotReady" "r \<noteq> Panic"
    using assms race by (auto simp: dial_outcome_def prepare_candidates_def Let_def split: if_splits)
qed

definition egress_records :: "effect list \<Rightarrow> bool list" where
  "egress_records es = List.map_filter (\<lambda>e. case e of EgressRecord b \<Rightarrow> Some b | _ \<Rightarrow> None) es"

text \<open>Property. Egress accounting: whenever the handler runs a dial race, with an outcome the race can really
  have, it records exactly one business outcome, whether the dial succeeded. In particular a dial
  whose candidates were all refused by a tunnel under rebuild counts as an egress failure: the race
  wraps the last error, so the handler's exemption for \<open>TunnelNotReady\<close> never applies.\<close>

theorem egress_counts_every_dial:
  assumes "ci_healthy io" "ci_dial_permit io" "ci_resolve io target = Ok cs"
    and "dial_outcome has_ipv6 limits cs (ci_dial io cs)"
  shows "egress_records (fst (connect_upstream io target)) = [\<exists>r. ci_dial io cs = Ok r]
    \<and> (case ci_dial io cs of
         Ok (a, c) \<Rightarrow> ReplySuccess a \<in> set (fst (connect_upstream io target))
       | Err e \<Rightarrow> ReplyError ReplyHostUnreachable \<in> set (fst (connect_upstream io target))
       | Panic \<Rightarrow> False)"
  using assms dial_outcome_no_tunnel_error [OF assms(4)]
  by (auto simp: connect_upstream_def reply_and_stop_def egress_records_def List.map_filter_simps Let_def
      split: result.splits prod.splits)

text \<open>A tunnel under rebuild refuses the only candidate.\<close>

definition witness_refused :: "nat dial_state" where
  "witness_refused =
     on_joined 1 (from_millis 200) (SA4 (Ipv4Addr 1 2 3 4) 443) (DialFailed TunnelNotReady)
       (dial_start 0 (from_millis 200) (lc_connect_timeout (default_limits None)) [SA4 (Ipv4Addr 1 2 3 4) 443])"

lemma witness_refused_result:
  "ds_result witness_refused = Some (Err (Other (AllUpstreamFailed 1 (Some TunnelNotReady))))"
  by (simp add: witness_refused_def on_joined_def launch_next_def loop_head_def spawn_dial_def
      dial_start_def dial_idle_def)

lemma witness_refused_reach:
  "dial_reach 0 (lc_happy_eyeballs_delay (default_limits None)) (lc_connect_timeout (default_limits None))
     (lc_max_parallel_dials (default_limits None)) [SA4 (Ipv4Addr 1 2 3 4) 443] witness_refused"
proof -
  have "lc_happy_eyeballs_delay (default_limits None) = from_millis 200" by (simp add: default_limits_def)
  then show ?thesis unfolding witness_refused_def
    by (simp only:) (intro dial_reach.step [OF _ dial_step.joined] dial_reach.start,
      simp_all add: dial_start_def spawn_dial_def dial_idle_def)
qed

theorem egress_counts_every_dial_witness:
  "let io = witness_io\<lparr>ci_dial := \<lambda>cs. Err (Other (AllUpstreamFailed 1 (Some TunnelNotReady)))\<rparr>
   in egress_records (fst (connect_upstream io (TargetName ''a.io'' 443))) = [False]"
proof -
  let ?io = "witness_io\<lparr>ci_dial := \<lambda>cs. Err (Other (AllUpstreamFailed 1 (Some TunnelNotReady)))\<rparr>"
  have "dial_outcome True (default_limits None) [SA4 (Ipv4Addr 1 2 3 4) 443]
      (ci_dial ?io [SA4 (Ipv4Addr 1 2 3 4) 443])"
    using witness_refused_reach witness_refused_result
    by (auto simp: dial_outcome_def race_outcome_def prepare_candidates_def dedup_addrs_def push_unique_def
        default_limits_def)
  from egress_counts_every_dial [OF _ _ _ this, of "TargetName ''a.io'' 443"]
  show ?thesis by (simp add: witness_io_def)
qed

end
