(* ===== verification/Port_Alloc.thy ===== *)
theory Port_Alloc
  imports Prelude
begin

text \<open>
  \<open>EphemeralPortAllocator\<close> of \<open>vendor/wireguard-netstack/src/netstack.rs\<close>: a bitmap of 512 64-bit
  words with a rotating start, refined to a finite set of ports. The contract that the TCP and UDP
  sides rely on is the locale \<open>port_pool\<close>, interpreted on the bitmap.
\<close>

section \<open>Model\<close>

definition EPHEMERAL_PORT_START :: u16 where "EPHEMERAL_PORT_START = 32768"

definition EPHEMERAL_PORT_COUNT :: nat where "EPHEMERAL_PORT_COUNT = 32768"

record port_alloc =
  pa_used :: "u64 list"
  pa_next :: nat

definition pa_new :: "u16 \<Rightarrow> port_alloc" where
  "pa_new random =
     \<lparr>pa_used = replicate (EPHEMERAL_PORT_COUNT div 64) 0, pa_next = unat random mod EPHEMERAL_PORT_COUNT\<rparr>"

definition one_bit :: "nat \<Rightarrow> u64" where
  "one_bit n = push_bit n 1"

text \<open>The scan, with the number of offsets still to try.\<close>

fun alloc_scan :: "nat \<Rightarrow> nat \<Rightarrow> port_alloc \<Rightarrow> u16 option \<times> port_alloc" where
  "alloc_scan 0 offset a = (None, a)"
| "alloc_scan (Suc k) offset a =
     (let idx = (pa_next a + offset) mod EPHEMERAL_PORT_COUNT;
          w = idx div 64;
          b = one_bit (idx mod 64)
      in if pa_used a ! w AND b = 0
         then (Some (EPHEMERAL_PORT_START + word_of_nat idx),
               a\<lparr>pa_used := (pa_used a)[w := pa_used a ! w OR b], pa_next := (idx + 1) mod EPHEMERAL_PORT_COUNT\<rparr>)
         else alloc_scan k (offset + 1) a)"

definition allocate :: "port_alloc \<Rightarrow> u16 option \<times> port_alloc" where
  "allocate a = alloc_scan EPHEMERAL_PORT_COUNT 0 a"

definition release :: "u16 \<Rightarrow> port_alloc \<Rightarrow> port_alloc" where
  "release port a =
     (if port < EPHEMERAL_PORT_START then a
      else
        let idx = unat (port - EPHEMERAL_PORT_START) in
        if idx < EPHEMERAL_PORT_COUNT
        then a\<lparr>pa_used := (pa_used a)[idx div 64 := pa_used a ! (idx div 64) AND NOT (one_bit (idx mod 64))]\<rparr>
        else a)"

section \<open>Refinement to a set of indices\<close>

definition pa_wf :: "port_alloc \<Rightarrow> bool" where
  "pa_wf a \<longleftrightarrow> length (pa_used a) = 512"

definition taken :: "port_alloc \<Rightarrow> nat set" where
  "taken a = {i. i < EPHEMERAL_PORT_COUNT \<and> bit (pa_used a ! (i div 64)) (i mod 64)}"

definition port_of :: "nat \<Rightarrow> u16" where
  "port_of i = EPHEMERAL_PORT_START + word_of_nat i"

definition in_use :: "port_alloc \<Rightarrow> u16 set" where
  "in_use a = port_of ` taken a"

lemma unat_port_of: "i < EPHEMERAL_PORT_COUNT \<Longrightarrow> unat (port_of i) = 32768 + i"
  unfolding port_of_def EPHEMERAL_PORT_START_def EPHEMERAL_PORT_COUNT_def
  by (simp add: unat_word_ariths unat_of_nat)

lemma port_of_inj: "inj_on port_of {..<EPHEMERAL_PORT_COUNT}"
  by (intro inj_onI) (metis add_left_cancel lessThan_iff unat_port_of)

lemma port_of_index:
  assumes "\<not> p < EPHEMERAL_PORT_START"
  shows "unat (p - EPHEMERAL_PORT_START) < EPHEMERAL_PORT_COUNT" "port_of (unat (p - EPHEMERAL_PORT_START)) = p"
proof -
  have "32768 \<le> unat p" using assms by (simp add: EPHEMERAL_PORT_START_def word_less_nat_alt not_less)
  then have "unat (p - EPHEMERAL_PORT_START) = unat p - 32768"
    by (simp add: EPHEMERAL_PORT_START_def unat_sub_if')
  then show "unat (p - EPHEMERAL_PORT_START) < EPHEMERAL_PORT_COUNT"
    using unat_lt_65536 [of p] by (simp add: EPHEMERAL_PORT_COUNT_def)
  show "port_of (unat (p - EPHEMERAL_PORT_START)) = p" by (simp add: port_of_def)
qed

lemma word_index: "i < EPHEMERAL_PORT_COUNT \<Longrightarrow> pa_wf a \<Longrightarrow> i div 64 < length (pa_used a)"
  by (simp add: EPHEMERAL_PORT_COUNT_def pa_wf_def)

lemma bit_or_one: "bit (w OR one_bit n :: u64) m \<longleftrightarrow> bit w m \<or> (m = n \<and> n < 64)"
  by (auto simp: one_bit_def bit_simps possible_bit_word)

lemma bit_and_not_one: "m < 64 \<Longrightarrow> bit (w AND NOT (one_bit n) :: u64) m \<longleftrightarrow> bit w m \<and> m \<noteq> n"
  by (auto simp: one_bit_def bit_simps possible_bit_word)

lemma free_bit: "pa_used a ! (i div 64) AND one_bit (i mod 64) = 0 \<longleftrightarrow> \<not> bit (pa_used a ! (i div 64)) (i mod 64)"
  unfolding one_bit_def by (simp only: bit_iff_and_push_bit_not_eq_0 not_not)

text \<open>Setting or clearing the bit of one index changes the set at that index only.\<close>

lemma taken_update:
  assumes "pa_wf a" "i < EPHEMERAL_PORT_COUNT"
    and "\<And>m. m < 64 \<Longrightarrow> bit (w :: u64) m \<longleftrightarrow> (if m = i mod 64 then v else bit (pa_used a ! (i div 64)) m)"
    and "pa_used a' = (pa_used a)[i div 64 := w]"
  shows "taken a' = (if v then insert i (taken a) else taken a - {i})"
proof -
  have "j \<in> taken a' \<longleftrightarrow> (if j = i then v else j \<in> taken a)" for j
  proof (cases "j div 64 = i div 64")
    case True
    then have ji: "j = i \<longleftrightarrow> j mod 64 = i mod 64"
      using div_mult_mod_eq [of j 64] div_mult_mod_eq [of i 64] by auto
    have "pa_used a' ! (j div 64) = w"
      using word_index [OF assms(2,1)] unfolding assms(4) True by simp
    then have "j \<in> taken a' \<longleftrightarrow> j < EPHEMERAL_PORT_COUNT \<and> bit w (j mod 64)" by (simp add: taken_def)
    also have "\<dots> \<longleftrightarrow> j < EPHEMERAL_PORT_COUNT \<and> (if j = i then v else bit (pa_used a ! (i div 64)) (j mod 64))"
      unfolding assms(3) [of "j mod 64", simplified] ji ..
    finally have *: "j \<in> taken a' \<longleftrightarrow>
        j < EPHEMERAL_PORT_COUNT \<and> (if j = i then v else bit (pa_used a ! (i div 64)) (j mod 64))" .
    have "j \<in> taken a \<longleftrightarrow> j < EPHEMERAL_PORT_COUNT \<and> bit (pa_used a ! (i div 64)) (j mod 64)"
      unfolding taken_def mem_Collect_eq True ..
    with * assms(2) show ?thesis by metis
  next
    case False
    then have "pa_used a' ! (j div 64) = pa_used a ! (j div 64)" unfolding assms(4) by simp
    moreover have "j \<noteq> i" using False by blast
    ultimately show ?thesis by (simp add: taken_def)
  qed
  then show ?thesis by (intro set_eqI) (cases v; simp)
qed

lemma alloc_scan_spec:
  assumes "pa_wf a" "alloc_scan k offset a = (r, a')"
  shows "case r of
     Some p \<Rightarrow> \<exists>i. i < EPHEMERAL_PORT_COUNT \<and> p = port_of i \<and> i \<notin> taken a \<and> taken a' = insert i (taken a) \<and> pa_wf a'
   | None \<Rightarrow> a' = a \<and> (\<forall>j < k. (pa_next a + offset + j) mod EPHEMERAL_PORT_COUNT \<in> taken a)"
  using assms
proof (induction k offset a rule: alloc_scan.induct)
  case (2 k offset a)
  define i where "i = (pa_next a + offset) mod EPHEMERAL_PORT_COUNT"
  have i: "i < EPHEMERAL_PORT_COUNT" by (simp add: i_def EPHEMERAL_PORT_COUNT_def)
  show ?case
  proof (cases "i \<in> taken a")
    case True
    then have "alloc_scan (Suc k) offset a = alloc_scan k (offset + 1) a"
      by (simp add: taken_def i_def free_bit Let_def)
    moreover have "\<not> (pa_used a ! (i div 64) AND one_bit (i mod 64) = 0)"
      using True by (simp add: taken_def free_bit)
    ultimately have ih: "case r of
        Some p \<Rightarrow> \<exists>i. i < EPHEMERAL_PORT_COUNT \<and> p = port_of i \<and> i \<notin> taken a \<and> taken a' = insert i (taken a) \<and> pa_wf a'
      | None \<Rightarrow> a' = a \<and> (\<forall>j < k. (pa_next a + (offset + 1) + j) mod EPHEMERAL_PORT_COUNT \<in> taken a)"
      using 2 by (simp add: i_def)
    have "(pa_next a + offset + j) mod EPHEMERAL_PORT_COUNT \<in> taken a"
      if "\<forall>j < k. (pa_next a + (offset + 1) + j) mod EPHEMERAL_PORT_COUNT \<in> taken a" "j < Suc k" for j
      using that True by (cases j) (auto simp: i_def)
    with ih show ?thesis by (cases r) auto
  next
    case False
    then have nb: "\<not> bit (pa_used a ! (i div 64)) (i mod 64)" using i by (simp add: taken_def)
    then have r: "r = Some (port_of i)" and a': "pa_used a' = (pa_used a)[i div 64 := pa_used a ! (i div 64) OR one_bit (i mod 64)]"
      using 2(3) by (auto simp: i_def [symmetric] free_bit Let_def port_of_def)
    have "taken a' = insert i (taken a)"
      using taken_update [OF 2(2) i, of "pa_used a ! (i div 64) OR one_bit (i mod 64)" True a'] a'
      by (simp add: bit_or_one)
    then show ?thesis using r i False a' 2(2) by (auto simp: pa_wf_def)
  qed
qed simp

lemma allocate_Some:
  assumes "pa_wf a" "allocate a = (Some p, a')"
  shows "p \<notin> in_use a" "in_use a' = insert p (in_use a)" "pa_wf a'"
proof -
  obtain i where i: "i < EPHEMERAL_PORT_COUNT" "p = port_of i" "i \<notin> taken a" "taken a' = insert i (taken a)"
    and wf: "pa_wf a'"
    using alloc_scan_spec [OF assms(1) assms(2) [unfolded allocate_def]] by auto
  show "p \<notin> in_use a"
    using i(1-3) inj_onD [OF port_of_inj] by (fastforce simp: in_use_def taken_def)
  show "in_use a' = insert p (in_use a)" using i(2,4) by (simp add: in_use_def)
  show "pa_wf a'" by (rule wf)
qed

text \<open>Starting anywhere, the scan meets every index.\<close>

lemma rotate_index:
  fixes n x i :: nat
  assumes "i < n"
  shows "(x + (i + (n - x mod n)) mod n) mod n = i"
proof -
  have "(x + (i + (n - x mod n)) mod n) mod n = (x mod n + (i + (n - x mod n))) mod n"
    by (simp add: mod_simps)
  also have "x mod n + (i + (n - x mod n)) = i + n"
    using assms mod_less_divisor [of n x] by linarith
  finally show ?thesis using assms by simp
qed

lemma allocate_None:
  assumes "pa_wf a" "allocate a = (None, a')"
  shows "a' = a" "card (in_use a) = EPHEMERAL_PORT_COUNT"
proof -
  have "a' = a \<and> (\<forall>j < EPHEMERAL_PORT_COUNT. (pa_next a + j) mod EPHEMERAL_PORT_COUNT \<in> taken a)"
    using alloc_scan_spec [OF assms(1) assms(2) [unfolded allocate_def]] by simp
  then have a': "a' = a" and all: "\<And>j. j < EPHEMERAL_PORT_COUNT \<Longrightarrow> (pa_next a + j) mod EPHEMERAL_PORT_COUNT \<in> taken a"
    by auto
  have "i \<in> taken a" if "i < EPHEMERAL_PORT_COUNT" for i
  proof -
    let ?j = "(i + (EPHEMERAL_PORT_COUNT - pa_next a mod EPHEMERAL_PORT_COUNT)) mod EPHEMERAL_PORT_COUNT"
    have "(pa_next a + ?j) mod EPHEMERAL_PORT_COUNT = i"
      using that by (rule rotate_index)
    then show ?thesis using all [of ?j] by (simp add: EPHEMERAL_PORT_COUNT_def)
  qed
  then have "taken a = {..<EPHEMERAL_PORT_COUNT}" by (auto simp: taken_def)
  then show "card (in_use a) = EPHEMERAL_PORT_COUNT"
    using card_image [OF port_of_inj] by (simp add: in_use_def)
  show "a' = a" by (rule a')
qed

lemma release_spec:
  assumes "pa_wf a"
  shows "in_use (release p a) = in_use a - {p}" "pa_wf (release p a)"
proof -
  show "pa_wf (release p a)" using assms by (simp add: release_def pa_wf_def Let_def)
  show "in_use (release p a) = in_use a - {p}"
  proof (cases "p < EPHEMERAL_PORT_START")
    case True
    have "p \<notin> in_use a"
    proof
      assume "p \<in> in_use a"
      then obtain i where "i < EPHEMERAL_PORT_COUNT" "p = port_of i" by (auto simp: in_use_def taken_def)
      with unat_port_of [of i] True show False by (simp add: EPHEMERAL_PORT_START_def word_less_nat_alt)
    qed
    with True show ?thesis by (simp add: release_def)
  next
    case False
    define i where "i = unat (p - EPHEMERAL_PORT_START)"
    have i: "i < EPHEMERAL_PORT_COUNT" "port_of i = p" using port_of_index [OF False] by (simp_all add: i_def)
    have "taken (release p a) = taken a - {i}"
      using False i(1) taken_update [OF assms i(1), of "pa_used a ! (i div 64) AND NOT (one_bit (i mod 64))" False "release p a"]
      by (simp add: release_def i_def [symmetric] Let_def bit_and_not_one)
    moreover have "port_of ` (taken a - {i}) = port_of ` taken a - {p}"
      using inj_on_image_set_diff [OF port_of_inj, of "taken a" "{i}"] i by (auto simp: taken_def)
    ultimately show ?thesis by (simp add: in_use_def)
  qed
qed

lemma in_use_new: "in_use (pa_new r) = {}" "pa_wf (pa_new r)"
  by (auto simp: in_use_def taken_def pa_new_def pa_wf_def EPHEMERAL_PORT_COUNT_def)

section \<open>The contract of a port pool\<close>

locale port_pool =
  fixes alloc :: "'s \<Rightarrow> 'p option \<times> 's"
    and free :: "'p \<Rightarrow> 's \<Rightarrow> 's"
    and inv :: "'s \<Rightarrow> bool"
    and held :: "'s \<Rightarrow> 'p set"
    and capacity :: nat
  assumes alloc_Some: "inv s \<Longrightarrow> alloc s = (Some p, s') \<Longrightarrow> p \<notin> held s \<and> held s' = insert p (held s) \<and> inv s'"
    and alloc_None: "inv s \<Longrightarrow> alloc s = (None, s') \<Longrightarrow> s' = s \<and> card (held s) = capacity"
    and free_held: "inv s \<Longrightarrow> held (free p s) = held s - {p} \<and> inv (free p s)"
begin

text \<open>Clients take ports and give back what they hold; \<open>owned\<close> is what they hold, in some order.\<close>

inductive pool_run :: "'s \<Rightarrow> 's \<times> 'p list \<Rightarrow> bool" for s0 :: 's where
  start: "pool_run s0 (s0, [])"
| take_port: "pool_run s0 (s, ps) \<Longrightarrow> alloc s = (Some p, s') \<Longrightarrow> pool_run s0 (s', p # ps)"
| exhausted: "pool_run s0 (s, ps) \<Longrightarrow> alloc s = (None, s') \<Longrightarrow> pool_run s0 (s', ps)"
| give_back: "pool_run s0 (s, ps) \<Longrightarrow> p \<in> set ps \<Longrightarrow> pool_run s0 (free p s, removeAll p ps)"

lemma pool_run_inv:
  assumes "pool_run s0 x" "inv s0" "held s0 = {}"
  shows "inv (fst x) \<and> distinct (snd x) \<and> held (fst x) = set (snd x)"
  using assms
proof (induction rule: pool_run.induct)
  case (take_port s ps p s')
  then show ?case using alloc_Some [of s p s'] by auto
next
  case (exhausted s ps s')
  then show ?case using alloc_None [of s s'] by auto
next
  case (give_back s ps p)
  then show ?case using free_held [of s p] by (auto simp: distinct_removeAll)
qed simp

lemma pool_never_starves:
  assumes "pool_run s0 (s, ps)" "inv s0" "held s0 = {}" "length ps < capacity"
  shows "\<exists>p s'. alloc s = (Some p, s') \<and> p \<notin> set ps"
proof -
  have i: "inv s" "distinct ps" "held s = set ps" using pool_run_inv [OF assms(1-3)] by simp_all
  obtain r s' where a: "alloc s = (r, s')" by fastforce
  show ?thesis
  proof (cases r)
    case None
    with alloc_None [OF i(1)] a i assms(4) show ?thesis by (simp add: distinct_card)
  next
    case (Some p)
    with alloc_Some [OF i(1)] a i show ?thesis by auto
  qed
qed

end

interpretation pa: port_pool allocate release pa_wf in_use EPHEMERAL_PORT_COUNT
proof
  fix s :: port_alloc and p s'
  assume wf: "pa_wf s"
  show "p \<notin> in_use s \<and> in_use s' = insert p (in_use s) \<and> pa_wf s'" if "allocate s = (Some p, s')"
    using allocate_Some [OF wf that] by simp
  show "s' = s \<and> card (in_use s) = EPHEMERAL_PORT_COUNT" if "allocate s = (None, s')"
    using allocate_None [OF wf that] by simp
  show "in_use (release p s) = in_use s - {p} \<and> pa_wf (release p s)"
    using release_spec [OF wf, of p] by simp
qed

text \<open>C32. Ephemeral ports, over every history of allocations and releases by their holders: no two
  holders ever have the same port, each port is at least 32768, the bitmap shows exactly the ports
  held, and as long as fewer than 32768 are held the next allocation succeeds with a fresh one.\<close>

theorem ports_never_collide:
  assumes "port_pool.pool_run allocate release (pa_new r) (a, ps)"
  shows "distinct ps \<and> in_use a = set ps \<and> (\<forall>p \<in> set ps. 32768 \<le> unat p)
    \<and> (length ps < 32768 \<longrightarrow> (\<exists>p a'. allocate a = (Some p, a') \<and> p \<notin> set ps))"
proof -
  note i = pa.pool_run_inv [OF assms in_use_new(2,1), simplified]
  have "32768 \<le> unat p" if "p \<in> set ps" for p
  proof -
    from that i obtain k where "k < EPHEMERAL_PORT_COUNT" "p = port_of k"
      by (auto simp: in_use_def taken_def)
    then show ?thesis using unat_port_of [of k] by simp
  qed
  moreover have "length ps < 32768 \<longrightarrow> (\<exists>p a'. allocate a = (Some p, a') \<and> p \<notin> set ps)"
    using pa.pool_never_starves [OF assms in_use_new(2,1)] by (simp add: EPHEMERAL_PORT_COUNT_def)
  ultimately show ?thesis using i by blast
qed

theorem ports_never_collide_witness:
  "\<exists>p a. allocate (pa_new 5) = (Some p, a) \<and> 32768 \<le> unat p"
proof -
  have "\<exists>p a. allocate (pa_new 5) = (Some p, a)"
    using ports_never_collide [OF pa.pool_run.start [of "pa_new 5"]] by auto
  then obtain p a where pa: "allocate (pa_new 5) = (Some p, a)" by blast
  from ports_never_collide [OF pa.pool_run.take_port [OF pa.pool_run.start pa]] pa
  show ?thesis by auto
qed

end
