(* ===== verification/Admission.thy ===== *)
theory Admission
  imports Socks_Tcp
begin

text \<open>
  The accept loop \<open>serve\<close> of \<open>src/proxy/tcp.rs\<close> with its two semaphores: connections are admitted
  or refused at once, a connection holds its permit until its task ends, and a dial permit only
  while it resolves and dials. The step relation interleaves any number of connection tasks; what a
  connection occupies in the network stack is counted in upstream sockets. At the end the handler
  of \<open>Socks_Tcp\<close> is shown to be a client of this protocol.
\<close>

section \<open>Model\<close>

datatype phase = Handshaking | Dialing nat | Relaying | Associated

record server =
  sv_permits :: nat
  sv_dial_permits :: nat
  sv_conns :: "phase list"
  sv_gate :: log_gate
  sv_rejected :: nat
  sv_rejected_dials :: nat
  sv_stopped :: bool

definition serve_start :: "limits_config \<Rightarrow> server" where
  "serve_start l =
     \<lparr>sv_permits = lc_max_concurrent_connections l, sv_dial_permits = lc_max_pending_dials l, sv_conns = [],
      sv_gate = gate_new, sv_rejected = 0, sv_rejected_dials = 0, sv_stopped = False\<rparr>"

definition on_accept :: "instant \<Rightarrow> server \<Rightarrow> server" where
  "on_accept now s =
     (if sv_permits s = 0
      then s\<lparr>sv_rejected := sv_rejected s + 1, sv_gate := snd (should_log now (sv_gate s))\<rparr>
      else s\<lparr>sv_permits := sv_permits s - 1, sv_conns := sv_conns s @ [Handshaking]\<rparr>)"

definition drop_conn :: "nat \<Rightarrow> 'a list \<Rightarrow> 'a list" where
  "drop_conn i xs = take i xs @ drop (Suc i) xs"

definition is_dialing :: "phase \<Rightarrow> bool" where
  "is_dialing p \<longleftrightarrow> (case p of Dialing n \<Rightarrow> True | _ \<Rightarrow> False)"

lemma is_dialing_simps [simp]:
  "is_dialing (Dialing n)" "\<not> is_dialing Handshaking" "\<not> is_dialing Relaying" "\<not> is_dialing Associated"
  by (simp_all add: is_dialing_def)

text \<open>A connection task ends: its connection permit comes back, and the dial permit if it held one.\<close>

definition on_finish :: "nat \<Rightarrow> server \<Rightarrow> server" where
  "on_finish i s =
     s\<lparr>sv_permits := sv_permits s + 1,
       sv_dial_permits := sv_dial_permits s + (if is_dialing (sv_conns s ! i) then 1 else 0),
       sv_conns := drop_conn i (sv_conns s)\<rparr>"

text \<open>\<open>try_acquire_owned\<close> on the dial semaphore; a refused request is answered and its task ends.\<close>

definition on_dial_request :: "nat \<Rightarrow> server \<Rightarrow> server" where
  "on_dial_request i s =
     (if sv_dial_permits s = 0
      then on_finish i (s\<lparr>sv_rejected := sv_rejected s + 1, sv_rejected_dials := sv_rejected_dials s + 1\<rparr>)
      else s\<lparr>sv_dial_permits := sv_dial_permits s - 1, sv_conns := (sv_conns s)[i := Dialing 0]\<rparr>)"

text \<open>A request while the tunnel is unhealthy is counted, answered, and its task ends.\<close>

definition on_unhealthy :: "nat \<Rightarrow> server \<Rightarrow> server" where
  "on_unhealthy i s = on_finish i (s\<lparr>sv_rejected := sv_rejected s + 1\<rparr>)"

definition on_race :: "nat \<Rightarrow> nat \<Rightarrow> server \<Rightarrow> server" where
  "on_race i n s = s\<lparr>sv_conns := (sv_conns s)[i := Dialing n]\<rparr>"

definition on_established :: "nat \<Rightarrow> server \<Rightarrow> server" where
  "on_established i s =
     s\<lparr>sv_dial_permits := sv_dial_permits s + 1, sv_conns := (sv_conns s)[i := Relaying]\<rparr>"

definition on_shutdown :: "server \<Rightarrow> server" where
  "on_shutdown s =
     s\<lparr>sv_permits := sv_permits s + length (sv_conns s),
       sv_dial_permits := sv_dial_permits s + length (filter is_dialing (sv_conns s)),
       sv_conns := [], sv_stopped := True\<rparr>"

inductive serve_step :: "limits_config \<Rightarrow> server \<Rightarrow> server \<Rightarrow> bool" for l :: limits_config where
  accept: "\<not> sv_stopped s \<Longrightarrow> serve_step l s (on_accept now s)"
| request: "i < length (sv_conns s) \<Longrightarrow> sv_conns s ! i = Handshaking \<Longrightarrow> serve_step l s (on_dial_request i s)"
| refuse: "i < length (sv_conns s) \<Longrightarrow> sv_conns s ! i = Handshaking \<Longrightarrow> serve_step l s (on_unhealthy i s)"
| associate: "i < length (sv_conns s) \<Longrightarrow> sv_conns s ! i = Handshaking \<Longrightarrow>
    serve_step l s (s\<lparr>sv_conns := (sv_conns s)[i := Associated]\<rparr>)"
| race: "i < length (sv_conns s) \<Longrightarrow> is_dialing (sv_conns s ! i) \<Longrightarrow> n \<le> max 1 (lc_max_parallel_dials l) \<Longrightarrow>
    serve_step l s (on_race i n s)"
| established: "i < length (sv_conns s) \<Longrightarrow> is_dialing (sv_conns s ! i) \<Longrightarrow> serve_step l s (on_established i s)"
| finish: "i < length (sv_conns s) \<Longrightarrow> serve_step l s (on_finish i s)"
| shutdown: "\<not> sv_stopped s \<Longrightarrow> serve_step l s (on_shutdown s)"

inductive serve_reach :: "limits_config \<Rightarrow> server \<Rightarrow> bool" for l :: limits_config where
  start: "serve_reach l (serve_start l)"
| step: "serve_reach l s \<Longrightarrow> serve_step l s s' \<Longrightarrow> serve_reach l s'"

text \<open>Upstream sockets, hence ephemeral TCP ports, a connection occupies. These are the sockets of the
  front end only: the health probes dial on the same stack.\<close>

fun sockets_of :: "phase \<Rightarrow> nat" where
  "sockets_of (Dialing n) = n"
| "sockets_of Relaying = 1"
| "sockets_of _ = 0"

definition sockets :: "server \<Rightarrow> nat" where
  "sockets s = sum_list (map sockets_of (sv_conns s))"

section \<open>Permits are conserved\<close>

definition dialing :: "server \<Rightarrow> nat" where
  "dialing s = length (filter is_dialing (sv_conns s))"

subsection \<open>The contract of a semaphore\<close>

locale permit_pool =
  fixes free :: "'s \<Rightarrow> nat" and held :: "'s \<Rightarrow> nat" and init :: 's and step :: "'s \<Rightarrow> 's \<Rightarrow> bool"
  assumes none_held: "held init = 0"
    and step_conserves: "step s s' \<Longrightarrow> free s' + held s' = free s + held s"
begin

lemma conserved: "step\<^sup>*\<^sup>* init s \<Longrightarrow> free s + held s = free init"
  by (induction rule: rtranclp_induct) (simp_all add: none_held step_conserves)

lemma held_bounded: "step\<^sup>*\<^sup>* init s \<Longrightarrow> held s \<le> free init"
  using conserved [of s] by simp

end

lemma split_at: "i < length xs \<Longrightarrow> xs = take i xs @ xs ! i # drop (Suc i) xs"
  by (rule id_take_nth_drop)

lemma update_split: "i < length xs \<Longrightarrow> xs[i := v] = take i xs @ v # drop (Suc i) xs"
  by (rule upd_conv_take_nth_drop)

lemma length_drop_conn: "i < length xs \<Longrightarrow> Suc (length (drop_conn i xs)) = length xs"
  by (simp add: drop_conn_def)

lemma filter_split:
  "i < length xs \<Longrightarrow> length (filter P xs) =
     length (filter P (take i xs)) + (if P (xs ! i) then 1 else 0) + length (filter P (drop (Suc i) xs))"
  by (subst split_at [of i xs], simp_all)

lemma dialing_update:
  "i < length xs \<Longrightarrow> length (filter P (xs[i := v])) + (if P (xs ! i) then 1 else 0)
     = length (filter P xs) + (if P v then 1 else 0)"
  unfolding update_split [of i xs] using filter_split [of i xs P] by simp

lemma dialing_drop:
  "i < length xs \<Longrightarrow> length (filter P (drop_conn i xs)) + (if P (xs ! i) then 1 else 0) = length (filter P xs)"
  unfolding drop_conn_def using filter_split [of i xs P] by simp

lemma all_drop: "list_all P xs \<Longrightarrow> list_all P (drop_conn i xs)"
  by (auto simp: drop_conn_def list_all_iff dest: in_set_takeD in_set_dropD)

lemma all_update: "list_all P xs \<Longrightarrow> P v \<Longrightarrow> list_all P (xs[i := v])"
  by (auto simp: list_all_iff dest: set_update_subset_insert [THEN subsetD])

lemma on_finish_conserves:
  assumes "i < length (sv_conns s)"
  shows "sv_permits (on_finish i s) + length (sv_conns (on_finish i s)) = sv_permits s + length (sv_conns s)"
    and "sv_dial_permits (on_finish i s) + dialing (on_finish i s) = sv_dial_permits s + dialing s"
  using length_drop_conn [OF assms] dialing_drop [OF assms, of is_dialing]
  by (auto simp: on_finish_def dialing_def split: if_splits)

lemma serve_step_conns:
  "serve_step l s s' \<Longrightarrow> sv_permits s' + length (sv_conns s') = sv_permits s + length (sv_conns s)"
  by (induction rule: serve_step.induct)
    (auto simp: on_accept_def on_dial_request_def on_unhealthy_def on_race_def on_established_def on_shutdown_def
      on_finish_conserves(1))

lemma serve_step_dials:
  assumes "serve_step l s s'"
  shows "sv_dial_permits s' + dialing s' = sv_dial_permits s + dialing s"
proof -
  have upd: "length (filter is_dialing ((sv_conns s)[i := v])) + (if is_dialing (sv_conns s ! i) then 1 else 0) =
      dialing s + (if is_dialing v then 1 else 0)" if "i < length (sv_conns s)" for i v
    using dialing_update [OF that, of is_dialing v] by (simp add: dialing_def)
  show ?thesis using assms
  proof (cases rule: serve_step.cases)
    case (request i)
    show ?thesis
    proof (cases "sv_dial_permits s = 0")
      case True
      then show ?thesis
        using request on_finish_conserves(2) [of i "s\<lparr>sv_rejected := sv_rejected s + 1,
          sv_rejected_dials := sv_rejected_dials s + 1\<rparr>"]
        by (simp add: on_dial_request_def dialing_def)
    next
      case False
      then show ?thesis using request upd [of i "Dialing 0"] by (simp add: on_dial_request_def dialing_def)
    qed
  next
    case (refuse i)
    then show ?thesis
      using on_finish_conserves(2) [of i "s\<lparr>sv_rejected := sv_rejected s + 1\<rparr>"]
      by (simp add: on_unhealthy_def dialing_def)
  next
    case (associate i)
    then show ?thesis using upd [of i Associated] by (simp add: dialing_def)
  next
    case (race i n)
    then show ?thesis using upd [of i "Dialing n"] by (simp add: on_race_def dialing_def)
  next
    case (established i)
    then show ?thesis using upd [of i Relaying] by (simp add: on_established_def dialing_def)
  next
    case (finish i)
    then show ?thesis using on_finish_conserves(2) by simp
  qed (simp_all add: on_accept_def on_shutdown_def dialing_def)
qed

text \<open>The connection semaphore and the dial semaphore are two instances.\<close>

interpretation conn_permits: permit_pool sv_permits "\<lambda>s. length (sv_conns s)" "serve_start l" "serve_step l" for l
  by unfold_locales (simp_all add: serve_start_def serve_step_conns)

interpretation dial_permits: permit_pool sv_dial_permits dialing "serve_start l" "serve_step l" for l
proof
  show "dialing (serve_start l) = 0" by (simp add: serve_start_def dialing_def)
qed (rule serve_step_dials)

lemma serve_reach_steps: "serve_reach l s \<Longrightarrow> (serve_step l)\<^sup>*\<^sup>* (serve_start l) s"
  by (induction rule: serve_reach.induct) auto

section \<open>Phases\<close>

definition phase_ok :: "limits_config \<Rightarrow> phase \<Rightarrow> bool" where
  "phase_ok l p \<longleftrightarrow> (case p of Dialing n \<Rightarrow> n \<le> max 1 (lc_max_parallel_dials l) | _ \<Rightarrow> True)"

definition serve_inv :: "limits_config \<Rightarrow> server \<Rightarrow> bool" where
  "serve_inv l s \<longleftrightarrow>
     sv_permits s + length (sv_conns s) = lc_max_concurrent_connections l \<and>
     sv_dial_permits s + dialing s = lc_max_pending_dials l \<and>
     list_all (phase_ok l) (sv_conns s)"

lemma serve_step_phases:
  "serve_step l s s' \<Longrightarrow> list_all (phase_ok l) (sv_conns s) \<Longrightarrow> list_all (phase_ok l) (sv_conns s')"
  by (induction rule: serve_step.induct)
    (auto simp: on_accept_def on_dial_request_def on_unhealthy_def on_race_def on_established_def on_shutdown_def
      on_finish_def phase_ok_def all_drop intro!: all_update)

lemma serve_reach_inv:
  assumes "serve_reach l s"
  shows "serve_inv l s"
proof -
  have "list_all (phase_ok l) (sv_conns s)"
    using assms by (induction rule: serve_reach.induct) (auto simp: serve_start_def serve_step_phases)
  then show ?thesis
    using conn_permits.conserved [OF serve_reach_steps [OF assms]]
      dial_permits.conserved [OF serve_reach_steps [OF assms]]
    by (simp add: serve_inv_def serve_start_def)
qed

lemma sockets_bound:
  assumes "list_all (phase_ok l) ps"
  shows "sum_list (map sockets_of ps) \<le>
    length ps + length (filter is_dialing ps) * (max 1 (lc_max_parallel_dials l) - 1)"
  using assms
proof (induction ps)
  case (Cons p ps)
  then show ?case by (cases p) (auto simp: phase_ok_def)
qed simp

lemma sockets_le:
  assumes "serve_inv l s"
  shows "sockets s \<le> length (sv_conns s) + dialing s * (max 1 (lc_max_parallel_dials l) - 1)"
  using assms sockets_bound [of l "sv_conns s"] by (simp add: serve_inv_def sockets_def dialing_def)

text \<open>C31. Admission control in every reachable state of the accept loop: at most
  \<open>max_concurrent_connections\<close> connections exist and at most \<open>max_pending_dials\<close> of them are dialling
  (every permit is either available or held by exactly one of them); hence for an accepted
  configuration at most 32768 upstream sockets exist, the number of ephemeral ports.\<close>

theorem admission_bounded:
  assumes "first_err (range_checks c) = Ok ()" "serve_reach (cfg_limits c) s"
  shows "sv_permits s + length (sv_conns s) = lc_max_concurrent_connections (cfg_limits c)
    \<and> sv_dial_permits s + dialing s = lc_max_pending_dials (cfg_limits c)
    \<and> sockets s \<le> 32768"
proof -
  have inv: "serve_inv (cfg_limits c) s" using assms(2) by (rule serve_reach_inv)
  have p: "max 1 (lc_max_parallel_dials (cfg_limits c)) = lc_max_parallel_dials (cfg_limits c)"
    using accepted_ranges(18) [OF assms(1)] by simp
  have "sockets s \<le> length (sv_conns s) + dialing s * (lc_max_parallel_dials (cfg_limits c) - 1)"
    using sockets_le [OF inv] unfolding p .
  also have "\<dots> \<le> lc_max_concurrent_connections (cfg_limits c) +
      lc_max_pending_dials (cfg_limits c) * (lc_max_parallel_dials (cfg_limits c) - 1)"
    using inv by (intro add_mono mult_le_mono1) (auto simp: serve_inv_def)
  also have "\<dots> \<le> 32768" by (rule accepted_port_capacity [OF assms(1)])
  finally show ?thesis using inv by (simp add: serve_inv_def)
qed

theorem admission_bounded_witness:
  "let s = on_race 0 2 (on_dial_request 0 (on_accept 0 (serve_start (default_limits None))))
   in sockets s = 2 \<and> sv_permits s + length (sv_conns s) = 2048"
proof -
  let ?l = "default_limits None"
  have c: "cfg_limits (default_config None) = ?l" by (simp add: default_config_def)
  have p: "lc_max_concurrent_connections ?l = 2048" "lc_max_pending_dials ?l = 512" "lc_max_parallel_dials ?l = 2"
    by (simp_all add: default_limits_def default_max_concurrent_connections_def)
  define s where "s = on_race 0 2 (on_dial_request 0 (on_accept 0 (serve_start ?l)))"
  have "serve_reach ?l s" unfolding s_def
    by (intro serve_reach.step [OF _ serve_step.race] serve_reach.step [OF _ serve_step.request]
        serve_reach.step [OF _ serve_step.accept] serve_reach.start)
      (simp_all add: on_accept_def serve_start_def on_dial_request_def p)
  with admission_bounded [OF default_checks(1) [of None], unfolded c, of s] p(1)
  have "sv_permits s + length (sv_conns s) = 2048" by simp
  moreover have "sockets s = 2"
    by (simp add: s_def sockets_def on_race_def on_dial_request_def on_accept_def serve_start_def p)
  ultimately show ?thesis unfolding Let_def s_def [symmetric] by simp
qed

section \<open>The connection handler is a client of the accept loop\<close>

text \<open>What an effect of \<open>handle\<close> does to the server, for the task of connection \<open>i\<close>, whose dial race holds
  \<open>k\<close> sockets. The task's end gives its permits back.\<close>

fun perform :: "nat \<Rightarrow> nat \<Rightarrow> effect \<Rightarrow> server \<Rightarrow> server" where
  "perform i k CountRejected s = s\<lparr>sv_rejected := sv_rejected s + 1\<rparr>"
| "perform i k CountDialPressure s = s\<lparr>sv_rejected_dials := sv_rejected_dials s + 1\<rparr>"
| "perform i k TakeDialPermit s =
     s\<lparr>sv_dial_permits := sv_dial_permits s - 1, sv_conns := (sv_conns s)[i := Dialing 0]\<rparr>"
| "perform i k (DialRace candidates) s = s\<lparr>sv_conns := (sv_conns s)[i := Dialing k]\<rparr>"
| "perform i k DropDialPermit s =
     s\<lparr>sv_dial_permits := sv_dial_permits s + 1, sv_conns := (sv_conns s)[i := Relaying]\<rparr>"
| "perform i k (SpawnUdpRelay peer) s = s\<lparr>sv_conns := (sv_conns s)[i := Associated]\<rparr>"
| "perform i k _ s = s"

definition run_handler :: "nat \<Rightarrow> nat \<Rightarrow> effect list \<Rightarrow> server \<Rightarrow> server" where
  "run_handler i k effects s = on_finish i (fold (perform i k) effects s)"

text \<open>Effects that leave the server alone.\<close>

definition idle_effect :: "effect \<Rightarrow> bool" where
  "idle_effect e \<longleftrightarrow>
     (case e of CountRejected \<Rightarrow> False | CountDialPressure \<Rightarrow> False | TakeDialPermit \<Rightarrow> False
      | DialRace c \<Rightarrow> False | DropDialPermit \<Rightarrow> False | SpawnUdpRelay p \<Rightarrow> False | _ \<Rightarrow> True)"

lemma perform_idle: "idle_effect e \<Longrightarrow> perform i k e s = s"
  by (cases e) (auto simp: idle_effect_def)

lemma fold_idle: "list_all idle_effect es \<Longrightarrow> fold (perform i k) es s = s"
  by (induction es arbitrary: s) (auto simp: perform_idle)

lemma finish_run: "i < length (sv_conns s) \<Longrightarrow> (serve_step l)\<^sup>*\<^sup>* s (on_finish i s)"
  by (intro r_into_rtranclp serve_step.finish)

text \<open>A granted dial: request, race, the permit dropped, the rest of the task.\<close>

lemma dial_run:
  assumes "i < length (sv_conns s)" "sv_conns s ! i = Handshaking" "0 < sv_dial_permits s"
    and "k \<le> max 1 (lc_max_parallel_dials l)"
  shows "(serve_step l)\<^sup>*\<^sup>* s (on_finish i (perform i k DropDialPermit (perform i k TakeDialPermit s)))"
    and "(serve_step l)\<^sup>*\<^sup>* s
      (on_finish i (perform i k DropDialPermit (perform i k (DialRace cs) (perform i k TakeDialPermit s))))"
proof -
  define s1 where "s1 = perform i k TakeDialPermit s"
  define s2 where "s2 = perform i k (DialRace cs) s1"
  have s1: "s1 = on_dial_request i s" using assms(3) by (simp add: s1_def on_dial_request_def)
  have s2: "s2 = on_race i k s1" by (simp add: s2_def on_race_def)
  have len: "i < length (sv_conns s1)" "i < length (sv_conns s2)" and
    dialing: "is_dialing (sv_conns s1 ! i)" "is_dialing (sv_conns s2 ! i)"
    using assms(1) by (simp_all add: s1_def s2_def)
  have a: "serve_step l s s1" unfolding s1 by (rule serve_step.request [OF assms(1,2)])
  have b: "serve_step l s1 s2" unfolding s2 by (rule serve_step.race [OF len(1) dialing(1) assms(4)])
  have drop: "(serve_step l)\<^sup>*\<^sup>* x (on_finish i (perform i k DropDialPermit x))"
    if "i < length (sv_conns x)" "is_dialing (sv_conns x ! i)" for x
  proof -
    have "serve_step l x (perform i k DropDialPermit x)"
      using serve_step.established [OF that] by (simp add: on_established_def)
    moreover have "(serve_step l)\<^sup>*\<^sup>* (perform i k DropDialPermit x) (on_finish i (perform i k DropDialPermit x))"
      using that(1) by (intro finish_run) simp
    ultimately show ?thesis by (rule converse_rtranclp_into_rtranclp)
  qed
  show "(serve_step l)\<^sup>*\<^sup>* s (on_finish i (perform i k DropDialPermit (perform i k TakeDialPermit s)))"
    using converse_rtranclp_into_rtranclp [OF a drop [OF len(1) dialing(1)]] unfolding s1_def .
  show "(serve_step l)\<^sup>*\<^sup>* s
      (on_finish i (perform i k DropDialPermit (perform i k (DialRace cs) (perform i k TakeDialPermit s))))"
    using converse_rtranclp_into_rtranclp [OF a converse_rtranclp_into_rtranclp [OF b drop [OF len(2) dialing(2)]]]
    unfolding s2_def s1_def .
qed

lemma connect_upstream_run:
  assumes "i < length (sv_conns s)" "sv_conns s ! i = Handshaking"
    and "ci_dial_permit io \<longleftrightarrow> 0 < sv_dial_permits s" "k \<le> max 1 (lc_max_parallel_dials l)"
  shows "(serve_step l)\<^sup>*\<^sup>* s (run_handler i k (fst (connect_upstream io target)) s)"
proof -
  note dial = dial_run [OF assms(1,2) _ assms(4)]
  have "serve_step l s (on_unhealthy i s)" by (rule serve_step.refuse [OF assms(1,2)])
  moreover have "serve_step l s (on_dial_request i s)" by (rule serve_step.request [OF assms(1,2)])
  ultimately show ?thesis
    using assms(3) dial
    by (auto simp: connect_upstream_def reply_and_stop_def run_handler_def on_unhealthy_def on_dial_request_def Let_def
        simp del: split_paired_All split: result.split prod.split)
qed

lemma idle_run:
  assumes "i < length (sv_conns s)" "list_all idle_effect es"
  shows "(serve_step l)\<^sup>*\<^sup>* s (run_handler i k es s)"
  using finish_run [OF assms(1)] by (simp add: run_handler_def fold_idle [OF assms(2)])

lemma associate_run:
  assumes "i < length (sv_conns s)" "sv_conns s ! i = Handshaking"
  shows "(serve_step l)\<^sup>*\<^sup>* s (run_handler i k (fst (handle_udp_associate io peer)) s)"
proof -
  let ?s = "s\<lparr>sv_conns := (sv_conns s)[i := Associated]\<rparr>"
  have "(serve_step l)\<^sup>*\<^sup>* ?s (on_finish i ?s)" using assms(1) by (intro finish_run) simp
  with serve_step.associate [OF assms] have "(serve_step l)\<^sup>*\<^sup>* s (on_finish i ?s)"
    by (rule converse_rtranclp_into_rtranclp)
  then show ?thesis
    using finish_run [OF assms(1), of l]
    by (auto simp: handle_udp_associate_def reply_and_stop_def run_handler_def split: result.split)
qed

lemma command_part_run:
  assumes "i < length (sv_conns s)" "sv_conns s ! i = Handshaking"
    and "ci_dial_permit io \<longleftrightarrow> 0 < sv_dial_permits s" "k \<le> max 1 (lc_max_parallel_dials l)"
  shows "(serve_step l)\<^sup>*\<^sup>* s (run_handler i k (fst (command_part io peer cmd target)) s)"
proof (cases cmd)
  case TCPConnect
  then show ?thesis using connect_upstream_run [OF assms] by (simp add: command_part_def)
next
  case TCPBind
  then show ?thesis
    using idle_run [OF assms(1)] by (simp add: command_part_def reply_and_stop_def idle_effect_def)
next
  case UDPAssociate
  have "(serve_step l)\<^sup>*\<^sup>* s (run_handler i k [CountRejected, CountUnhealthy, ReplyError GeneralFailure] s)"
    using serve_step.refuse [OF assms(1,2), of l] by (auto simp: run_handler_def on_unhealthy_def)
  with UDPAssociate associate_run [OF assms(1,2), of l k io peer] show ?thesis
    by (auto simp: command_part_def reply_and_stop_def)
qed

lemma quiet_idle: "set es \<subseteq> {CountAuthFail, Sleep d, CountHandshakeTimeout} \<Longrightarrow> list_all idle_effect es"
  by (auto simp: list_all_iff idle_effect_def)

text \<open>C30. The connection handler refines the accept loop's protocol. Every run of \<open>handle\<close>, on every path
  through it, performed on the server for an admitted connection and ended by the task's end, is a
  run of the abstract steps, provided its dial permit was granted exactly when one was available and
  its race kept to the parallel limit; so whatever holds in every reachable state of the accept loop
  holds around every handler.\<close>

theorem handler_refines_admission:
  assumes "i < length (sv_conns s)" "sv_conns s ! i = Handshaking"
    and "ci_dial_permit io \<longleftrightarrow> 0 < sv_dial_permits s" "k \<le> max 1 (lc_max_parallel_dials l)"
  shows "(serve_step l)\<^sup>*\<^sup>* s (run_handler i k (fst (handle auth limits peer io)) s)"
proof (cases auth limits peer io rule: handle_cases)
  case 1
  then show ?thesis using idle_run [OF assms(1), of "[]"] by simp
next
  case (2 n)
  then show ?thesis using idle_run [OF assms(1) quiet_idle [OF handshake_quiet_set(1)]] by simp
next
  case 3
  then show ?thesis using idle_run [OF assms(1) quiet_idle [OF handshake_quiet_set(2)]] by simp
next
  case (4 cmd target)
  then show ?thesis using command_part_run [OF assms] by simp
qed

theorem handler_refines_admission_witness:
  "let l = default_limits None; s = on_accept 0 (serve_start l);
       s' = run_handler 0 2 (fst (handle None l (SA4 (Ipv4Addr 127 0 0 1) 40000) witness_io)) s
   in (serve_step l)\<^sup>*\<^sup>* s s' \<and> sv_permits s' = 2048 \<and> sv_dial_permits s' = 512 \<and> sv_conns s' = []"
proof -
  let ?l = "default_limits None"
  let ?e = "fst (handle None ?l (SA4 (Ipv4Addr 127 0 0 1) 40000) witness_io)"
  have p: "lc_max_concurrent_connections ?l = 2048" "lc_max_pending_dials ?l = 512" "lc_max_parallel_dials ?l = 2"
    by (simp_all add: default_limits_def default_max_concurrent_connections_def)
  define s where "s = on_accept 0 (serve_start ?l)"
  define s' where "s' = run_handler 0 2 ?e s"
  have s: "sv_conns s = [Handshaking]" "sv_dial_permits s = 512" "sv_permits s = 2047"
    by (simp_all add: s_def on_accept_def serve_start_def p)
  have r: "(serve_step ?l)\<^sup>*\<^sup>* s s'"
    unfolding s'_def
    by (rule handler_refines_admission) (simp_all add: s p witness_io_def)
  have "sv_conns s' = [] \<and> sv_dial_permits s' = 512 \<and> sv_permits s' = 2048"
    by (simp add: s'_def run_handler_def handle_def witness_io_def handshake_and_read_command_def connect_upstream_def
        on_finish_def drop_conn_def s Let_def)
  with r show ?thesis unfolding Let_def s_def [symmetric] s'_def [symmetric] by simp
qed

end
