(* ===== verification/Relay.thy ===== *)
theory Relay
  imports Prelude Net_Types
begin

text \<open>
  The bidirectional relay of \<open>src/proxy/tcp.rs\<close>: \<open>relay_with_idle_timeout\<close> with its two copy tasks,
  the shared idle watcher and the cancellation token, and \<open>coordinate_relay\<close>, which reaps both tasks.
  Byte counts are the 64-bit atomics of the source; \<open>rl_written\<close> is a ghost record of the bytes that
  really reached the other side, partial writes included.
\<close>

section \<open>Model\<close>

datatype dir = Up | Down

fun other_dir :: "dir \<Rightarrow> dir" where
  "other_dir Up = Down"
| "other_dir Down = Up"

text \<open>\<open>Writing n k\<close>: a chunk of \<open>n\<close> bytes was read and \<open>k\<close> of them are written so far.\<close>

datatype copy_task = Reading | Writing nat nat | Exited | Aborted

datatype coordinator = WaitFirst | Grace dir instant | Joined | Returned u64 u64

record relay =
  rl_task :: "dir \<Rightarrow> copy_task"
  rl_count :: "dir \<Rightarrow> u64"
  rl_written :: "dir \<Rightarrow> nat"
  rl_shut :: "dir \<Rightarrow> bool"
  rl_cancelled :: bool
  rl_notified :: bool
  rl_idle_at :: instant
  rl_watching :: bool
  rl_idle_timeouts :: nat
  rl_coord :: coordinator

definition relay_start :: "instant \<Rightarrow> duration \<Rightarrow> relay" where
  "relay_start now idle =
     \<lparr>rl_task = \<lambda>_. Reading, rl_count = \<lambda>_. 0, rl_written = \<lambda>_. 0, rl_shut = \<lambda>_. False, rl_cancelled = False,
      rl_notified = False, rl_idle_at = now + idle, rl_watching = True, rl_idle_timeouts = 0,
      rl_coord = WaitFirst\<rparr>"

definition set_task :: "dir \<Rightarrow> copy_task \<Rightarrow> relay \<Rightarrow> relay" where
  "set_task d t s = s\<lparr>rl_task := (rl_task s)(d := t)\<rparr>"

definition copy_write :: "dir \<Rightarrow> nat \<Rightarrow> nat \<Rightarrow> nat \<Rightarrow> relay \<Rightarrow> relay" where
  "copy_write d n k m s =
     set_task d (Writing n (k + m)) (s\<lparr>rl_written := (rl_written s)(d := rl_written s d + m)\<rparr>)"

definition copy_done :: "dir \<Rightarrow> nat \<Rightarrow> relay \<Rightarrow> relay" where
  "copy_done d n s =
     set_task d Reading (s\<lparr>rl_count := (rl_count s)(d := rl_count s d + word_of_nat n), rl_notified := True\<rparr>)"

text \<open>Leaving a copy loop: shut the write half down and cancel the other side.\<close>

definition copy_leave :: "dir \<Rightarrow> relay \<Rightarrow> relay" where
  "copy_leave d s = set_task d Exited (s\<lparr>rl_shut := (rl_shut s)(d := True), rl_cancelled := True\<rparr>)"

definition watch_idle :: "instant \<Rightarrow> duration \<Rightarrow> relay \<Rightarrow> relay" where
  "watch_idle now idle s =
     (if rl_cancelled s then s\<lparr>rl_watching := False\<rparr>
      else if rl_notified s then s\<lparr>rl_notified := False, rl_idle_at := now + idle\<rparr>
      else if rl_idle_at s \<le> now
      then s\<lparr>rl_idle_timeouts := rl_idle_timeouts s + 1, rl_cancelled := True, rl_watching := False\<rparr>
      else s)"

definition task_done :: "copy_task \<Rightarrow> bool" where
  "task_done t \<longleftrightarrow> t = Exited \<or> t = Aborted"

definition coordinate_relay :: "instant \<Rightarrow> duration \<Rightarrow> relay \<Rightarrow> relay" where
  "coordinate_relay now grace s =
     (case rl_coord s of
        WaitFirst \<Rightarrow>
          if task_done (rl_task s Up) then s\<lparr>rl_coord := Grace Down (now + grace)\<rparr>
          else if task_done (rl_task s Down) then s\<lparr>rl_coord := Grace Up (now + grace)\<rparr>
          else s
      | Grace d t \<Rightarrow>
          if task_done (rl_task s d) then s\<lparr>rl_coord := Joined\<rparr>
          else if t \<le> now then set_task d Aborted (s\<lparr>rl_coord := Joined\<rparr>)
          else s
      | Joined \<Rightarrow>
          s\<lparr>rl_cancelled := True, rl_watching := False, rl_coord := Returned (rl_count s Up) (rl_count s Down)\<rparr>
      | Returned u v \<Rightarrow> s)"

inductive relay_step :: "duration \<Rightarrow> duration \<Rightarrow> nat \<Rightarrow> relay \<Rightarrow> relay \<Rightarrow> bool"
  for idle :: duration and grace :: duration and buf_size :: nat
where
  read_chunk: "rl_task s d = Reading \<Longrightarrow> \<not> rl_cancelled s \<Longrightarrow> 0 < n \<Longrightarrow> n \<le> buf_size \<Longrightarrow>
    relay_step idle grace buf_size s (set_task d (Writing n 0) s)"
| write_some: "rl_task s d = Writing n k \<Longrightarrow> k + m \<le> n \<Longrightarrow>
    relay_step idle grace buf_size s (copy_write d n k m s)"
| write_done: "rl_task s d = Writing n n \<Longrightarrow> relay_step idle grace buf_size s (copy_done d n s)"
| leave: "rl_task s d = Reading \<or> rl_task s d = Writing n k \<Longrightarrow>
    relay_step idle grace buf_size s (copy_leave d s)"
| watch: "rl_watching s \<Longrightarrow> relay_step idle grace buf_size s (watch_idle now idle s)"
| coordinate: "relay_step idle grace buf_size s (coordinate_relay now grace s)"

inductive relay_run :: "instant \<Rightarrow> duration \<Rightarrow> duration \<Rightarrow> nat \<Rightarrow> relay \<Rightarrow> bool"
  for now :: instant and idle :: duration and grace :: duration and buf_size :: nat
where
  start: "relay_run now idle grace buf_size (relay_start now idle)"
| step: "relay_run now idle grace buf_size s \<Longrightarrow> relay_step idle grace buf_size s s' \<Longrightarrow>
    relay_run now idle grace buf_size s'"

section \<open>Invariant\<close>

text \<open>Bytes written but not yet counted: the current chunk's, or those of a chunk cut short, at most one
  buffer.\<close>

fun counted :: "nat \<Rightarrow> copy_task \<Rightarrow> nat \<Rightarrow> nat \<Rightarrow> bool" where
  "counted buf_size Reading c w \<longleftrightarrow> c = w"
| "counted buf_size (Writing n k) c w \<longleftrightarrow> k \<le> n \<and> n \<le> buf_size \<and> c + k = w"
| "counted buf_size _ c w \<longleftrightarrow> c \<le> w \<and> w \<le> c + buf_size"

definition counted_ok :: "nat \<Rightarrow> relay \<Rightarrow> dir \<Rightarrow> bool" where
  "counted_ok buf_size s d \<longleftrightarrow>
     (rl_written s d < 2 ^ 64 \<longrightarrow> counted buf_size (rl_task s d) (unat (rl_count s d)) (rl_written s d))"

definition coord_ok :: "relay \<Rightarrow> bool" where
  "coord_ok s \<longleftrightarrow>
     (case rl_coord s of
        WaitFirst \<Rightarrow> True
      | Grace d t \<Rightarrow> task_done (rl_task s (other_dir d))
      | Joined \<Rightarrow> task_done (rl_task s Up) \<and> task_done (rl_task s Down)
      | Returned u v \<Rightarrow> task_done (rl_task s Up) \<and> task_done (rl_task s Down) \<and> \<not> rl_watching s \<and>
          u = rl_count s Up \<and> v = rl_count s Down)"

definition exits_ok :: "relay \<Rightarrow> bool" where
  "exits_ok s \<longleftrightarrow> (\<forall>d. rl_task s d = Exited \<longrightarrow> rl_shut s d \<and> rl_cancelled s) \<and>
     ((\<exists>d. rl_task s d = Aborted) \<longrightarrow> rl_cancelled s)"

definition relay_inv :: "nat \<Rightarrow> relay \<Rightarrow> bool" where
  "relay_inv B s \<longleftrightarrow> (\<forall>d. counted_ok B s d) \<and> coord_ok s \<and> exits_ok s"

lemma other_other [simp]: "other_dir (other_dir d) = d"
  by (cases d) auto

lemma dir_cases: "d' = d \<or> d' = other_dir d"
  by (cases d; cases d') auto

lemma task_done_simps [simp]:
  "task_done Exited" "task_done Aborted" "\<not> task_done Reading" "\<not> task_done (Writing n k)"
  by (simp_all add: task_done_def)

lemma unat_count_add:
  assumes "unat (c :: u64) + n < 2 ^ 64"
  shows "unat (c + word_of_nat n) = unat c + n"
proof -
  have "unat (word_of_nat n :: u64) = n" using assms by (simp add: unat_of_nat)
  with assms show ?thesis by (simp add: unat_word_ariths)
qed

text \<open>A step of a running task keeps what the coordinator knows about finished ones.\<close>

lemma coord_ok_running:
  assumes "coord_ok s" "\<not> task_done (rl_task s d)"
    and "\<And>d'. d' \<noteq> d \<Longrightarrow> rl_task s' d' = rl_task s d'" "rl_coord s' = rl_coord s"
  shows "coord_ok s'"
proof -
  have keep: "task_done (rl_task s' d')" if "task_done (rl_task s d')" for d'
    using that assms(2,3) by (cases "d' = d") auto
  have "\<not> (task_done (rl_task s Up) \<and> task_done (rl_task s Down))" using assms(2) by (cases d) auto
  with keep assms(1,4) show ?thesis by (auto simp: coord_ok_def split: coordinator.splits)
qed

lemma relay_inv_start: "relay_inv B (relay_start now idle)"
  by (simp add: relay_inv_def relay_start_def counted_ok_def coord_ok_def exits_ok_def)

lemma relay_inv_task:
  assumes "relay_inv B s" "\<not> task_done (rl_task s d)"
    and "\<And>d'. d' \<noteq> d \<Longrightarrow> rl_task s' d' = rl_task s d' \<and> rl_count s' d' = rl_count s d' \<and>
      rl_written s' d' = rl_written s d' \<and> rl_shut s' d' = rl_shut s d'"
    and "rl_coord s' = rl_coord s" "rl_cancelled s \<Longrightarrow> rl_cancelled s'"
    and "counted_ok B s' d" "rl_task s' d = Exited \<Longrightarrow> rl_shut s' d \<and> rl_cancelled s'" "rl_task s' d \<noteq> Aborted"
  shows "relay_inv B s'"
proof -
  have "counted_ok B s' d'" for d'
  proof (cases "d' = d")
    case False
    have "counted_ok B s d'" using assms(1) by (simp add: relay_inv_def)
    with assms(3) [OF False] show ?thesis by (simp add: counted_ok_def)
  qed (use assms(6) in simp)
  moreover have "coord_ok s'"
  proof (rule coord_ok_running)
    show "coord_ok s" using assms(1) by (simp add: relay_inv_def)
    show "rl_task s' d' = rl_task s d'" if "d' \<noteq> d" for d' using assms(3) [OF that] by simp
  qed (fact assms(2), fact assms(4))
  moreover have "exits_ok s'"
  proof -
    have e: "exits_ok s" using assms(1) by (simp add: relay_inv_def)
    have "rl_shut s' d' \<and> rl_cancelled s'" if "rl_task s' d' = Exited" for d'
      using that e assms(3) [of d'] assms(5,7) by (cases "d' = d") (auto simp: exits_ok_def)
    moreover have "rl_cancelled s'" if "rl_task s' d' = Aborted" for d'
      using that e assms(3) [of d'] assms(5,8) by (cases "d' = d") (auto simp: exits_ok_def)
    ultimately show ?thesis by (auto simp: exits_ok_def)
  qed
  ultimately show ?thesis by (simp add: relay_inv_def)
qed

lemma relay_inv_write_some:
  assumes "relay_inv B s" "rl_task s d = Writing n k" "k + m \<le> n"
  shows "relay_inv B (copy_write d n k m s)"
proof (rule relay_inv_task [OF assms(1), of d])
  have "counted_ok B s d" using assms(1) by (simp add: relay_inv_def)
  with assms(2,3) show "counted_ok B (copy_write d n k m s) d"
    by (simp add: counted_ok_def copy_write_def set_task_def)
qed (use assms(2) in \<open>simp_all add: copy_write_def set_task_def\<close>)

lemma relay_inv_write_done:
  assumes "relay_inv B s" "rl_task s d = Writing n n"
  shows "relay_inv B (copy_done d n s)"
proof (rule relay_inv_task [OF assms(1), of d])
  have "counted_ok B s d" using assms(1) by (simp add: relay_inv_def)
  with assms(2) show "counted_ok B (copy_done d n s) d"
    by (auto simp: counted_ok_def copy_done_def set_task_def unat_count_add)
qed (use assms(2) in \<open>simp_all add: copy_done_def set_task_def\<close>)

lemma relay_inv_leave:
  assumes "relay_inv B s" "rl_task s d = Reading \<or> rl_task s d = Writing n k"
  shows "relay_inv B (copy_leave d s)"
proof (rule relay_inv_task [OF assms(1), of d])
  have "counted_ok B s d" using assms(1) by (simp add: relay_inv_def)
  with assms(2) show "counted_ok B (copy_leave d s) d"
    by (auto simp: counted_ok_def copy_leave_def set_task_def)
qed (use assms(2) in \<open>auto simp: copy_leave_def set_task_def\<close>)

lemma relay_inv_watch: "relay_inv B s \<Longrightarrow> rl_watching s \<Longrightarrow> relay_inv B (watch_idle now idle s)"
  by (cases "rl_coord s") (auto simp: relay_inv_def watch_idle_def counted_ok_def coord_ok_def exits_ok_def)

lemma relay_inv_coordinate:
  assumes "relay_inv B s"
  shows "relay_inv B (coordinate_relay now grace s)"
proof (cases "rl_coord s")
  case WaitFirst
  with assms show ?thesis
    by (auto simp: relay_inv_def coordinate_relay_def counted_ok_def coord_ok_def exits_ok_def)
next
  case (Grace d t)
  have done': "task_done (rl_task s (other_dir d))" using assms Grace by (simp add: relay_inv_def coord_ok_def)
  then have canc: "rl_cancelled s" using assms by (auto simp: relay_inv_def exits_ok_def task_done_def)
  have both: "task_done (rl_task s' Up) \<and> task_done (rl_task s' Down)"
    if "task_done (rl_task s' d)" "task_done (rl_task s' (other_dir d))" for s'
    using that by (cases d) auto
  show ?thesis
  proof (cases "task_done (rl_task s d)")
    case True
    with assms Grace done' both [of s] show ?thesis
      by (auto simp: relay_inv_def coordinate_relay_def counted_ok_def coord_ok_def exits_ok_def)
  next
    case False
    show ?thesis
    proof (cases "t \<le> now")
      case True
      define s' where "s' = set_task d Aborted (s\<lparr>rl_coord := Joined\<rparr>)"
      have c: "counted_ok B s d'" for d' using assms by (simp add: relay_inv_def)
      have "counted_ok B s' d'" for d'
        using c [of d'] by (cases "d' = d"; cases "rl_task s d") (auto simp: s'_def set_task_def counted_ok_def)
      moreover have "coord_ok s'"
        using both [of s'] done' by (cases d) (auto simp: s'_def set_task_def coord_ok_def)
      moreover have "exits_ok s'" using assms canc by (auto simp: s'_def set_task_def relay_inv_def exits_ok_def)
      ultimately show ?thesis using False True Grace by (simp add: coordinate_relay_def relay_inv_def s'_def)
    qed (use False Grace assms in \<open>simp add: coordinate_relay_def\<close>)
  qed
next
  case Joined
  with assms show ?thesis
    by (auto simp: relay_inv_def coordinate_relay_def counted_ok_def coord_ok_def exits_ok_def)
next
  case (Returned u v)
  with assms show ?thesis by (simp add: coordinate_relay_def)
qed

lemma relay_step_inv: "relay_step idle grace buf_size s s' \<Longrightarrow> relay_inv buf_size s \<Longrightarrow> relay_inv buf_size s'"
proof (induction rule: relay_step.induct)
  case (read_chunk s d n)
  have "counted_ok buf_size s d" using read_chunk(5) by (simp add: relay_inv_def)
  then have "counted_ok buf_size (set_task d (Writing n 0) s) d"
    using read_chunk(1,4) by (simp add: set_task_def counted_ok_def)
  then show ?case using read_chunk(1)
    by (intro relay_inv_task [OF read_chunk(5), of d]) (simp_all add: set_task_def)
qed (auto intro: relay_inv_write_some relay_inv_write_done relay_inv_leave relay_inv_watch relay_inv_coordinate)

lemma relay_run_inv: "relay_run now idle grace buf_size s \<Longrightarrow> relay_inv buf_size s"
  by (induction rule: relay_run.induct) (auto intro: relay_inv_start relay_step_inv)

lemma set_task_simps [simp]:
  "rl_task (set_task d t s) d' = (if d' = d then t else rl_task s d')" "rl_count (set_task d t s) = rl_count s"
  "rl_written (set_task d t s) = rl_written s"
  by (simp_all add: set_task_def)

text \<open>What a step does to the counts of a direction that has ended, and to one that ends in it.\<close>

lemma coordinate_counts:
  "rl_count (coordinate_relay now grace s) = rl_count s" "rl_written (coordinate_relay now grace s) = rl_written s"
  "task_done (rl_task s d) \<Longrightarrow> rl_task (coordinate_relay now grace s) d = rl_task s d"
  by (auto simp: coordinate_relay_def split: coordinator.split)

lemma watch_counts:
  "rl_task (watch_idle now idle s) = rl_task s" "rl_count (watch_idle now idle s) = rl_count s"
  "rl_written (watch_idle now idle s) = rl_written s"
  by (simp_all add: watch_idle_def)

lemma relay_step_ended:
  assumes "relay_step idle grace buf_size s s'" "task_done (rl_task s d)"
  shows "rl_task s' d = rl_task s d \<and> rl_count s' d = rl_count s d \<and> rl_written s' d = rl_written s d"
  using assms
  by (induction rule: relay_step.induct)
    (auto simp: copy_write_def copy_done_def copy_leave_def watch_counts coordinate_counts)

lemma relay_step_ends:
  assumes "relay_step idle grace buf_size s s'" "rl_task s d = Reading" "task_done (rl_task s' d)"
  shows "rl_count s' d = rl_count s d \<and> rl_written s' d = rl_written s d"
  using assms
  by (induction rule: relay_step.induct)
    (auto simp: copy_write_def copy_done_def copy_leave_def watch_counts coordinate_counts)

text \<open>C33. The relay leaks nothing and never over-reports, whatever the interleaving of reads, partial
  writes, errors, idle expiry and the grace abort. When it returns, both copy tasks and the idle watcher
  have ended, and the byte counts returned are those of the two directions. A count is never more than
  the bytes that really crossed (below \<open>2 ^ 64\<close>) and at most one buffer less; it is exact while the
  direction is between chunks and when it ends there (end of input, a cancel or a read error); a chunk
  cut short by a failed write or an abort is what can be missing. A direction that has ended stays ended
  with its count unchanged.\<close>

theorem relay_reaps_and_counts:
  assumes "relay_run now idle grace buf_size s" "rl_written s Up < 2 ^ 64" "rl_written s Down < 2 ^ 64"
  shows "(\<forall>u v. rl_coord s = Returned u v \<longrightarrow>
      task_done (rl_task s Up) \<and> task_done (rl_task s Down) \<and> \<not> rl_watching s
      \<and> u = rl_count s Up \<and> v = rl_count s Down)
    \<and> (\<forall>d. unat (rl_count s d) \<le> rl_written s d \<and> rl_written s d \<le> unat (rl_count s d) + buf_size)
    \<and> (\<forall>d. rl_task s d = Reading \<longrightarrow> unat (rl_count s d) = rl_written s d)
    \<and> (\<forall>d s'. relay_step idle grace buf_size s s' \<longrightarrow>
        (rl_task s d = Reading \<and> task_done (rl_task s' d) \<longrightarrow> unat (rl_count s' d) = rl_written s' d) \<and>
        (task_done (rl_task s d) \<longrightarrow> rl_task s' d = rl_task s d \<and> rl_count s' d = rl_count s d \<and>
           rl_written s' d = rl_written s d))
    \<and> (\<forall>d. task_done (rl_task s d) \<longrightarrow> rl_cancelled s)"
proof -
  have inv: "relay_inv buf_size s" using assms(1) by (rule relay_run_inv)
  have c: "counted_ok buf_size s d" for d using inv by (simp add: relay_inv_def)
  have w: "rl_written s d < 2 ^ 64" for d using assms(2,3) by (cases d) simp_all
  have le: "unat (rl_count s d) \<le> rl_written s d \<and> rl_written s d \<le> unat (rl_count s d) + buf_size" for d
    using c [of d] w [of d] by (cases "rl_task s d") (auto simp: counted_ok_def)
  have ret: "task_done (rl_task s Up) \<and> task_done (rl_task s Down) \<and> \<not> rl_watching s
      \<and> u = rl_count s Up \<and> v = rl_count s Down" if "rl_coord s = Returned u v" for u v
    using inv that by (simp add: relay_inv_def coord_ok_def)
  have eq: "unat (rl_count s d) = rl_written s d" if "rl_task s d = Reading" for d
    using c [of d] w [of d] that by (simp add: counted_ok_def)
  have canc: "rl_cancelled s" if "task_done (rl_task s d)" for d
    using inv that by (auto simp: relay_inv_def exits_ok_def task_done_def)
  have ends: "unat (rl_count s' d) = rl_written s' d"
    if "relay_step idle grace buf_size s s'" "rl_task s d = Reading" "task_done (rl_task s' d)" for d s'
    using relay_step_ends [OF that] eq [OF that(2)] by simp
  show ?thesis using ret le eq canc ends relay_step_ended by blast
qed

theorem relay_reaps_and_counts_witness:
  "let s = coordinate_relay 600 500 (coordinate_relay 600 500 (coordinate_relay 1 500
        (copy_leave Up (copy_done Up 3 (copy_write Up 3 0 3 (set_task Up (Writing 3 0) (relay_start 0 300)))))))
   in rl_coord s = Returned 3 0 \<and> task_done (rl_task s Down) \<and> \<not> rl_watching s"
proof -
  define s where "s = coordinate_relay 600 500 (coordinate_relay 600 500 (coordinate_relay 1 500
    (copy_leave Up (copy_done Up 3 (copy_write Up 3 0 3 (set_task Up (Writing 3 0) (relay_start 0 300)))))))"
  have r: "relay_run 0 300 500 4096 s" unfolding s_def
    by (intro relay_run.step [OF _ relay_step.coordinate] relay_run.step [OF _ relay_step.leave]
        relay_run.step [OF _ relay_step.write_done] relay_run.step [OF _ relay_step.write_some]
        relay_run.step [OF _ relay_step.read_chunk] relay_run.start)
      (simp_all add: relay_start_def set_task_def copy_write_def copy_done_def)
  have "rl_coord s = Returned 3 0" "rl_written s Up = 3" "rl_written s Down = 0"
    by (simp_all add: s_def relay_start_def set_task_def copy_write_def copy_done_def copy_leave_def
        coordinate_relay_def)
  with relay_reaps_and_counts [OF r] show ?thesis unfolding Let_def s_def [symmetric] by simp
qed

end
