(* ===== verification/Health.thy ===== *)
theory Health
  imports Prelude Net_Types Config Egress "HOL-Library.Multiset"
begin

text \<open>
  \<open>src/health.rs\<close>: one probe of a target, the quorum over all targets, and a round of the probe loop,
  which combines the age of the WireGuard handshake, the quorum and the business egress window into
  one supervisor event.
\<close>

section \<open>Model\<close>

definition HANDSHAKE_STALE_AFTER :: duration where "HANDSHAKE_STALE_AFTER = from_secs 180"

definition EGRESS_DEGRADED_ROUNDS :: u32 where "EGRESS_DEGRADED_ROUNDS = 2"

text \<open>\<open>SupervisorEvent\<close> of \<open>src/supervisor.rs\<close>, with the reasons as data.\<close>

datatype probe_reason =
    HandshakeStale duration
  | QuorumFailed error
  | EgressDegraded egress_window

datatype supervisor_event =
    ProbeOk instant
  | ProbeFailed probe_reason instant
  | RefreshTick

datatype dial_attempt = DialTimedOut | DialReturned "unit res"

definition probe_once :: "duration \<Rightarrow> dial_attempt \<Rightarrow> unit res" where
  "probe_once timeout d =
     (case d of
        DialReturned r \<Rightarrow> r
      | DialTimedOut \<Rightarrow> Err (Other (ProbeTimeout timeout)))"

text \<open>The task spawned for a target yields the target with its result; \<open>None\<close> stands for a task
  that panicked or was aborted, which the join set reports as an error.\<close>

type_synonym probe_joined = "(sockaddr \<times> unit res) option"

definition probe_task :: "duration \<Rightarrow> sockaddr \<times> dial_attempt option \<Rightarrow> probe_joined" where
  "probe_task timeout p =
     (case snd p of None \<Rightarrow> None | Some d \<Rightarrow> Some (fst p, probe_once timeout d))"

fun probe_success :: "probe_joined \<Rightarrow> bool" where
  "probe_success (Some (t, Ok u)) \<longleftrightarrow> True"
| "probe_success j \<longleftrightarrow> False"

fun probe_failure :: "probe_joined \<Rightarrow> (sockaddr option \<times> error option) list" where
  "probe_failure (Some (t, Ok u)) = []"
| "probe_failure (Some (t, Err e)) = [(Some t, Some e)]"
| "probe_failure j = [(None, None)]"

text \<open>\<open>joined\<close> is what \<open>join_next\<close> yields, in completion order.\<close>

definition probe_targets :: "nat \<Rightarrow> probe_joined list \<Rightarrow> unit res" where
  "probe_targets min_successes joined =
     (let successes = length (filter probe_success joined);
          failures = concat (map probe_failure joined)
      in if min_successes \<le> successes then Ok ()
         else Err (Other (EgressQuorumFailed successes min_successes failures)))"

datatype probe_metric =
    CountTargetFail sockaddr
  | CountHandshakeStale
  | CountProbeFail
  | CountProbeOk
  | CountEgressDegraded

text \<open>The counter of a target, by its label, for every probe of it that returned an error.\<close>

fun target_failure :: "probe_joined \<Rightarrow> probe_metric list" where
  "target_failure (Some (t, Err e)) = [CountTargetFail t]"
| "target_failure j = []"

definition u32_saturating_inc :: "u32 \<Rightarrow> u32" where
  "u32_saturating_inc n = (if n = - 1 then n else n + 1)"

text \<open>What one tick of the loop observes: the clock, the age of the last handshake, the joined
  probes, and the egress counters at the moment the window is taken.\<close>

record round_input =
  ri_observed_at :: instant
  ri_since_handshake :: "duration option"
  ri_joined :: "probe_joined list"
  ri_egress :: egress_stats

definition stale_handshake :: "round_input \<Rightarrow> duration option" where
  "stale_handshake ri =
     (case ri_since_handshake ri of
        Some since \<Rightarrow> if HANDSHAKE_STALE_AFTER < since then Some since else None
      | None \<Rightarrow> None)"

definition probe_round ::
  "nat \<Rightarrow> u32 \<Rightarrow> round_input \<Rightarrow> supervisor_event \<times> probe_metric list \<times> egress_stats \<times> u32" where
  "probe_round min_successes degraded_rounds ri =
     (let stale = stale_handshake ri;
          probe = probe_targets min_successes (ri_joined ri);
          (window, egress) = take_window (ri_egress ri);
          rounds = (if is_degraded window then u32_saturating_inc degraded_rounds else 0);
          egress_degraded = (EGRESS_DEGRADED_ROUNDS \<le> rounds);
          observed_at = ri_observed_at ri;
          failed = concat (map target_failure (ri_joined ri))
      in case stale of
           Some since \<Rightarrow>
             (ProbeFailed (HandshakeStale since) observed_at,
              failed @ [CountHandshakeStale, CountProbeFail], egress, rounds)
         | None \<Rightarrow>
             (case probe of
                Err e \<Rightarrow> (ProbeFailed (QuorumFailed e) observed_at, failed @ [CountProbeFail], egress, rounds)
              | _ \<Rightarrow>
                  if egress_degraded
                  then (ProbeFailed (EgressDegraded window) observed_at,
                        failed @ [CountEgressDegraded, CountProbeFail], egress, 0)
                  else (ProbeOk observed_at, failed @ [CountProbeOk], egress, rounds)))"

text \<open>The loop sends one event per tick and carries \<open>degraded_rounds\<close> from tick to tick.\<close>

fun probe_loop :: "nat \<Rightarrow> u32 \<Rightarrow> round_input list \<Rightarrow> supervisor_event list \<times> u32" where
  "probe_loop k d [] = ([], d)"
| "probe_loop k d (r # rs) =
     (let (ev, ms, egress, d1) = probe_round k d r; (evs, d2) = probe_loop k d1 rs
      in (ev # evs, d2))"

section \<open>The quorum\<close>

definition answered :: "sockaddr \<times> dial_attempt option \<Rightarrow> bool" where
  "answered p \<longleftrightarrow> snd p = Some (DialReturned (Ok ()))"

lemma probe_success_task [simp]: "probe_success (probe_task timeout p) = answered p"
  by (cases p; cases "snd p")
    (auto simp: probe_task_def answered_def probe_once_def split: dial_attempt.splits
      elim!: probe_success.elims)

lemma length_probe_failure: "length (probe_failure j) = (if probe_success j then 0 else 1)"
  by (cases j rule: probe_success.cases) auto

lemma length_failures:
  "length (concat (map probe_failure js)) + length (filter probe_success js) = length js"
  by (induction js) (auto simp: length_probe_failure)

lemma mset_length_filter: "mset xs = mset ys \<Longrightarrow> length (filter P xs) = length (filter P ys)"
  by (metis mset_filter size_mset)

text \<open>Property. The health quorum, over one probe per target whose tasks may complete in any order: the
  round passes exactly when at least \<open>min_successes\<close> targets accepted the connection in time, and a
  failing round reports that number, the required number and exactly one failure for each target
  that timed out, was refused, or whose task died.\<close>

theorem probe_quorum_exact:
  assumes "mset joined = mset (map (probe_task timeout) attempts)"
  shows "if k \<le> length (filter answered attempts) then probe_targets k joined = Ok ()
    else \<exists>failures.
      probe_targets k joined =
        Err (Other (EgressQuorumFailed (length (filter answered attempts)) k failures)) \<and>
      length failures = length (filter (\<lambda>p. \<not> answered p) attempts)"
proof -
  have n: "length (filter probe_success joined) = length (filter answered attempts)"
    using mset_length_filter [OF assms, of probe_success] by (simp add: filter_map o_def)
  have "length joined = length attempts"
    using arg_cong [OF assms, of size] by simp
  then have "length (concat (map probe_failure joined)) = length (filter (\<lambda>p. \<not> answered p) attempts)"
    using length_failures [of joined] n sum_length_filter_compl [of answered attempts] by linarith
  then show ?thesis by (simp add: probe_targets_def n)
qed

theorem probe_quorum_exact_witness:
  "probe_targets 2
     [None, Some (SA4 (Ipv4Addr 9 9 9 9) 443, Ok ()), Some (SA4 (Ipv4Addr 1 1 1 1) 443, Ok ())] = Ok ()"
  using probe_quorum_exact
    [of "[None, Some (SA4 (Ipv4Addr 9 9 9 9) 443, Ok ()), Some (SA4 (Ipv4Addr 1 1 1 1) 443, Ok ())]"
      "from_secs 8"
      "[(SA4 (Ipv4Addr 1 1 1 1) 443, Some (DialReturned (Ok ()))), (SA4 (Ipv4Addr 8 8 8 8) 443, None),
        (SA4 (Ipv4Addr 9 9 9 9) 443, Some (DialReturned (Ok ())))]" 2]
  by (simp add: probe_task_def probe_once_def answered_def)

section \<open>Verdicts of the loop\<close>

lemma unat_u32_saturating_inc: "unat (u32_saturating_inc n) = min (unat n + 1) (2 ^ 32 - 1)"
proof (cases "n = - 1")
  case False
  then have "unat n \<noteq> 2 ^ 32 - 1" by (auto simp: word_unat_eq_iff unsigned_minus_1_eq_mask mask_eq_exp_minus_1)
  then show ?thesis
    using unsigned_less [of n, where 'a = nat] False
    by (simp add: u32_saturating_inc_def unat_word_ariths)
qed (simp add: u32_saturating_inc_def unsigned_minus_1_eq_mask mask_eq_exp_minus_1)

lemma inc_reaches_threshold: "EGRESS_DEGRADED_ROUNDS \<le> u32_saturating_inc d \<longleftrightarrow> d \<noteq> 0"
  by (auto simp: word_le_nat_alt unat_u32_saturating_inc EGRESS_DEGRADED_ROUNDS_def Suc_le_eq unat_gt_0)

text \<open>The three signals of a round.\<close>

definition window_degraded :: "round_input \<Rightarrow> bool" where
  "window_degraded ri \<longleftrightarrow> is_degraded (fst (take_window (ri_egress ri)))"

definition probes_pass :: "nat \<Rightarrow> round_input \<Rightarrow> bool" where
  "probes_pass k ri \<longleftrightarrow>
     stale_handshake ri = None \<and> k \<le> length (filter probe_success (ri_joined ri))"

fun is_egress_failure :: "supervisor_event \<Rightarrow> bool" where
  "is_egress_failure (ProbeFailed (EgressDegraded w) t) \<longleftrightarrow> True"
| "is_egress_failure e \<longleftrightarrow> False"

fun is_probe_ok :: "supervisor_event \<Rightarrow> bool" where
  "is_probe_ok (ProbeOk t) \<longleftrightarrow> True"
| "is_probe_ok e \<longleftrightarrow> False"

definition round_event :: "nat \<Rightarrow> u32 \<Rightarrow> round_input \<Rightarrow> supervisor_event" where
  "round_event k d r = fst (probe_round k d r)"

definition round_next :: "nat \<Rightarrow> u32 \<Rightarrow> round_input \<Rightarrow> u32" where
  "round_next k d r = snd (snd (snd (probe_round k d r)))"

lemmas round_unfold = round_event_def round_next_def probe_round_def probes_pass_def
  window_degraded_def probe_targets_def take_window_def swap_ok_def swap_failed_def Let_def
  inc_reaches_threshold [unfolded EGRESS_DEGRADED_ROUNDS_def] EGRESS_DEGRADED_ROUNDS_def

lemma round_event_egress:
  "is_egress_failure (round_event k d r) \<longleftrightarrow> probes_pass k r \<and> window_degraded r \<and> d \<noteq> 0"
  by (auto simp: round_unfold
      split: prod.splits option.splits if_splits)

lemma round_event_ok:
  "is_probe_ok (round_event k d r) \<longleftrightarrow> probes_pass k r \<and> \<not> (window_degraded r \<and> d \<noteq> 0)"
  by (auto simp: round_unfold
      split: prod.splits option.splits if_splits)

lemma inc_nonzero: "u32_saturating_inc d \<noteq> 0"
proof
  assume "u32_saturating_inc d = 0"
  then have "unat (u32_saturating_inc d) = 0" by simp
  then show False by (simp add: unat_u32_saturating_inc)
qed

lemma round_next_nonzero:
  "round_next k d r \<noteq> 0 \<longleftrightarrow> window_degraded r \<and> \<not> is_egress_failure (round_event k d r)"
  by (auto simp: round_unfold inc_nonzero
      split: prod.splits option.splits if_splits)

text \<open>The value of \<open>degraded_rounds\<close> when round \<open>i\<close> starts.\<close>

definition rounds_before :: "nat \<Rightarrow> round_input list \<Rightarrow> nat \<Rightarrow> u32" where
  "rounds_before k rs i = snd (probe_loop k 0 (take i rs))"

lemma probe_loop_Cons:
  "probe_loop k d (r # rs) =
     (round_event k d r # fst (probe_loop k (round_next k d r) rs),
      snd (probe_loop k (round_next k d r) rs))"
  by (simp add: round_event_def round_next_def split: prod.splits)

declare probe_loop.simps(2) [simp del]
declare probe_loop_Cons [simp]

lemma probe_loop_nth:
  "i < length rs \<Longrightarrow>
     fst (probe_loop k d rs) ! i = round_event k (snd (probe_loop k d (take i rs))) (rs ! i)"
  by (induction rs arbitrary: d i) (auto simp: nth_Cons' take_Cons')

lemma probe_loop_length [simp]: "length (fst (probe_loop k d rs)) = length rs"
  by (induction rs arbitrary: d) auto

lemma probe_loop_snoc:
  "snd (probe_loop k d (rs @ [r])) = round_next k (snd (probe_loop k d rs)) r"
  by (induction rs arbitrary: d) auto

lemma rounds_before_0 [simp]: "rounds_before k rs 0 = 0"
  by (simp add: rounds_before_def)

lemma rounds_before_Suc:
  "i < length rs \<Longrightarrow> rounds_before k rs (Suc i) = round_next k (rounds_before k rs i) (rs ! i)"
  by (simp add: rounds_before_def take_Suc_conv_app_nth probe_loop_snoc)

lemma rounds_before_nonzero:
  "i < length rs \<Longrightarrow> rounds_before k rs i \<noteq> 0 \<longleftrightarrow>
     i \<noteq> 0 \<and> window_degraded (rs ! (i - 1)) \<and>
     \<not> is_egress_failure (fst (probe_loop k 0 rs) ! (i - 1))"
  by (cases i)
    (simp_all add: rounds_before_Suc round_next_nonzero probe_loop_nth rounds_before_def [symmetric])

text \<open>C38. Verdicts of the probe loop, from its start. Every round sends exactly one event. A round
  whose handshake is stale or whose quorum fails is reported as failed. A round that passes both is
  reported as an egress failure exactly when its own egress window and the previous round's were
  degraded and the previous round was not itself an egress failure (one bad window never triggers
  recovery, two consecutive ones always do), and as healthy otherwise.\<close>

theorem probe_loop_verdicts:
  fixes k :: nat and rs :: "round_input list"
  assumes "i < length rs"
  defines "evs \<equiv> fst (probe_loop k 0 rs)"
  defines "second_strike \<equiv>
    i \<noteq> 0 \<and> window_degraded (rs ! i) \<and> window_degraded (rs ! (i - 1)) \<and>
    \<not> is_egress_failure (evs ! (i - 1))"
  shows "length evs = length rs \<and>
    (is_probe_ok (evs ! i) \<longleftrightarrow> probes_pass k (rs ! i) \<and> \<not> second_strike) \<and>
    (is_egress_failure (evs ! i) \<longleftrightarrow> probes_pass k (rs ! i) \<and> second_strike)"
proof -
  have ev: "evs ! i = round_event k (rounds_before k rs i) (rs ! i)"
    using assms(1) by (simp add: evs_def probe_loop_nth rounds_before_def)
  have "rounds_before k rs i \<noteq> 0 \<longleftrightarrow>
      i \<noteq> 0 \<and> window_degraded (rs ! (i - 1)) \<and> \<not> is_egress_failure (evs ! (i - 1))"
    using rounds_before_nonzero [OF assms(1)] by (simp add: evs_def)
  then show ?thesis
    unfolding ev round_event_egress round_event_ok second_strike_def by (auto simp: evs_def)
qed

definition bad_round :: round_input where
  "bad_round = \<lparr>ri_observed_at = 0, ri_since_handshake = Some 0, ri_joined = [],
     ri_egress = \<lparr>es_ok = 0, es_failed = 20\<rparr>\<rparr>"

lemma bad_round_signals: "window_degraded bad_round" "probes_pass 0 bad_round"
  using degraded_iff [of "\<lparr>ew_ok = 0, ew_failed = 20\<rparr>"]
  by (simp_all add: window_degraded_def probes_pass_def bad_round_def stale_handshake_def
      HANDSHAKE_STALE_AFTER_def from_secs_def)

theorem probe_loop_verdicts_witness:
  "is_probe_ok (fst (probe_loop 0 0 [bad_round, bad_round]) ! 0) \<and>
   is_egress_failure (fst (probe_loop 0 0 [bad_round, bad_round]) ! 1)"
proof -
  have 0: "is_probe_ok (fst (probe_loop 0 0 [bad_round, bad_round]) ! 0)"
    "\<not> is_egress_failure (fst (probe_loop 0 0 [bad_round, bad_round]) ! 0)"
    using probe_loop_verdicts [of 0 "[bad_round, bad_round]" 0] bad_round_signals by auto
  then show ?thesis
    using probe_loop_verdicts [of 1 "[bad_round, bad_round]" 0] bad_round_signals by auto
qed

end
