(* ===== verification/Endpoints.thy ===== *)
theory Endpoints
  imports Prelude Rust_Str Net_Types "HOL-Library.Multiset"
begin

text \<open>
  The first half of \<open>src/tunnel.rs\<close>: which WARP ingress endpoints are tried and in which order, the
  bounded handshake race of \<open>connect_candidate\<close>, and the classification of its failures that decides
  whether the operator is pointed at the local firewall. \<open>'m\<close> is the type of connected tunnels.
\<close>

section \<open>Model\<close>

text \<open>\<open>WireGuardConfig\<close> of \<open>vendor/wireguard-netstack/src/wireguard.rs\<close>.\<close>

record wireguard_config =
  wg_private_key :: bytes
  wg_peer_public_key :: bytes
  wg_peer_endpoint :: sockaddr
  wg_peer_endpoint_candidates :: "sockaddr list"
  wg_tunnel_ip :: ipv4
  wg_tunnel_ipv6 :: "ipv6 option"
  wg_preshared_key :: "bytes option"
  wg_keepalive_seconds :: "u16 option"
  wg_mtu :: "u16 option"
  wg_tcp_buffer_size :: "nat option"

definition WARP_WG_FALLBACK_PORTS :: "u16 list" where
  "WARP_WG_FALLBACK_PORTS = [2408, 500, 1701, 4500]"

definition endpoint_ports :: "u16 \<Rightarrow> u16 list" where
  "endpoint_ports original_port =
     original_port # filter (\<lambda>port. port \<noteq> original_port) WARP_WG_FALLBACK_PORTS"

definition endpoint_bases :: "wireguard_config \<Rightarrow> sockaddr list" where
  "endpoint_bases cfg = push_all_unique [wg_peer_endpoint cfg] (wg_peer_endpoint_candidates cfg)"

definition endpoint_attempts :: "wireguard_config \<Rightarrow> sockaddr list" where
  "endpoint_attempts cfg =
     (let bases = endpoint_bases cfg;
          attempts = push_all_unique [] bases
      in foldl (\<lambda>attempts base.
           foldl (\<lambda>attempts port. push_unique attempts (sockaddr_new (sa_ip base) port))
             attempts (endpoint_ports (sa_port base)))
         attempts bases)"

definition MAX_PARALLEL_ENDPOINT_ATTEMPTS :: nat where "MAX_PARALLEL_ENDPOINT_ATTEMPTS = 2"

subsection \<open>Failure texts\<close>

definition os_errno :: "string \<Rightarrow> int option" where
  "os_errno failure =
     (case str_rfind failure ''(os error '' of
        None \<Rightarrow> None
      | Some i \<Rightarrow>
          let rest = drop (i + length ''(os error '') failure in
          case str_find rest '')'' of
            None \<Rightarrow> None
          | Some j \<Rightarrow> parse_i32 (trim (take j rest)))"

text \<open>\<open>std::io::Error::from_raw_os_error(n).kind()\<close> on Linux, as far as the code distinguishes
  kinds.\<close>

definition linux_error_kind :: "int \<Rightarrow> io_kind" where
  "linux_error_kind n =
     (if n = 101 then NetworkUnreachable
      else if n = 113 then HostUnreachable
      else if n = 100 then NetworkDown
      else if n = 99 then AddrNotAvailable
      else if n = 98 then AddrInUse
      else if n = 1 \<or> n = 13 then PermissionDenied
      else if n = 2 then NotFound
      else OtherKind)"

definition UNAVAILABLE_TEXTS :: "string list" where
  "UNAVAILABLE_TEXTS =
     [''family not supported'', ''Network is unreachable'', ''No route to host'', ''Network is down'',
      ''Cannot assign requested address'', ''Can'' @ [CHR 0x27] @ ''t assign requested address'']"

definition is_address_family_unavailable :: "string \<Rightarrow> bool" where
  "is_address_family_unavailable failure \<longleftrightarrow>
     (case os_errno failure of
        Some errno \<Rightarrow>
          linux_error_kind errno \<in> {NetworkUnreachable, HostUnreachable, NetworkDown, AddrNotAvailable}
      | None \<Rightarrow> False) \<or>
     list_ex (str_contains failure) UNAVAILABLE_TEXTS"

definition EPERM_TEXT :: string where "EPERM_TEXT = ''Operation not permitted''"

text \<open>The hint is the list of peers it names with the firewall tool it suggests for each; no
  hint is the empty list.\<close>

datatype firewall_tool = Iptables | Ip6tables

definition firewall_rule :: "ipaddr \<Rightarrow> firewall_tool \<times> ipaddr" where
  "firewall_rule i = (if ip_is_v4 i then Iptables else Ip6tables, i)"

definition firewall_hint :: "(sockaddr \<times> string) list \<Rightarrow> (firewall_tool \<times> ipaddr) list" where
  "firewall_hint failures =
     (let relevant = filter (\<lambda>f. \<not> is_address_family_unavailable (snd f)) failures in
      if relevant = [] \<or> \<not> list_all (\<lambda>f. str_contains (snd f) EPERM_TEXT) relevant then []
      else map firewall_rule (push_all_unique [] (map (\<lambda>f. sa_ip (fst f)) relevant)))"

subsection \<open>The handshake race\<close>

text \<open>What one endpoint attempt can end with: an established tunnel, an error (with its display
  text), or a task the runtime reports as lost.\<close>

datatype 'm attempt_end = Up 'm | Down string | Lost string

text \<open>\<open>er_started\<close> is a ghost history of the spawned attempts with their handshake timeouts.\<close>

record 'm endpoint_race =
  er_pending :: "(nat \<times> sockaddr) list"
  er_probes :: "wireguard_config list"
  er_failures :: "(sockaddr \<times> string) list"
  er_result :: "('m \<times> wireguard_config) res option"
  er_started :: "(sockaddr \<times> duration) list"

definition spawn_next :: "wireguard_config \<Rightarrow> 'm endpoint_race \<Rightarrow> 'm endpoint_race" where
  "spawn_next cfg s =
     (case er_pending s of
        [] \<Rightarrow> s
      | (index, endpoint) # rest \<Rightarrow>
          let timeout = (if index = 0 then from_secs 10 else from_secs 5) in
          s\<lparr>er_pending := rest, er_probes := er_probes s @ [cfg\<lparr>wg_peer_endpoint := endpoint\<rparr>],
            er_started := er_started s @ [(endpoint, timeout)]\<rparr>)"

definition race_done :: "'m endpoint_race \<Rightarrow> 'm endpoint_race" where
  "race_done s =
     (if er_probes s = []
      then s\<lparr>er_result := Some (Err (Other (AllEndpointsFailed (er_failures s)
               (map snd (firewall_hint (er_failures s))))))\<rparr>
      else s)"

definition race_start :: "wireguard_config \<Rightarrow> 'm endpoint_race" where
  "race_start cfg =
     race_done ((spawn_next cfg ^^ MAX_PARALLEL_ENDPOINT_ATTEMPTS)
       \<lparr>er_pending = enumerate 0 (endpoint_attempts cfg), er_probes = [], er_failures = [],
        er_result = None, er_started = []\<rparr>)"

text \<open>One turn of the \<open>join_next\<close> loop, for the attempt with configuration \<open>candidate\<close>. A success
  shuts every other attempt down.\<close>

definition race_joined ::
  "wireguard_config \<Rightarrow> wireguard_config \<Rightarrow> 'm attempt_end \<Rightarrow> 'm endpoint_race \<Rightarrow> 'm endpoint_race" where
  "race_joined cfg candidate j s =
     (let s = spawn_next cfg (s\<lparr>er_probes := remove1 candidate (er_probes s)\<rparr>) in
      case j of
        Up managed \<Rightarrow> s\<lparr>er_probes := [], er_result := Some (Ok (managed, candidate))\<rparr>
      | Down text \<Rightarrow>
          race_done (s\<lparr>er_failures := er_failures s @ [(wg_peer_endpoint candidate, text)]\<rparr>)
      | Lost text \<Rightarrow>
          race_done (s\<lparr>er_failures := er_failures s @
            [(sockaddr_new (V4 ipv4_unspecified) 0, ''endpoint probe task failed: '' @ text)]\<rparr>))"

inductive race_step :: "wireguard_config \<Rightarrow> 'm endpoint_race \<Rightarrow> 'm endpoint_race \<Rightarrow> bool"
  for cfg :: wireguard_config
where
  joined: "er_result s = None \<Longrightarrow> candidate \<in> set (er_probes s) \<Longrightarrow>
    race_step cfg s (race_joined cfg candidate j s)"

inductive race_run :: "wireguard_config \<Rightarrow> nat \<Rightarrow> 'm endpoint_race \<Rightarrow> bool"
  for cfg :: wireguard_config
where
  start: "race_run cfg 0 (race_start cfg)"
| step: "race_run cfg n s \<Longrightarrow> race_step cfg s s' \<Longrightarrow> race_run cfg (Suc n) s'"

section \<open>The list of attempts\<close>

lemma foldl_push_map: "foldl (\<lambda>acc x. push_unique acc (f x)) acc xs = push_all_unique acc (map f xs)"
  by (induction xs arbitrary: acc) simp_all

definition port_variants :: "sockaddr \<Rightarrow> sockaddr list" where
  "port_variants base = map (sockaddr_new (sa_ip base)) (endpoint_ports (sa_port base))"

lemma endpoint_attempts_flat:
  "endpoint_attempts cfg =
     push_all_unique (push_all_unique [] (endpoint_bases cfg))
       (concat (map port_variants (endpoint_bases cfg)))"
proof -
  have "foldl (\<lambda>acc base. push_all_unique acc (port_variants base)) acc bases =
      push_all_unique acc (concat (map port_variants bases))" for acc bases
    by (induction bases arbitrary: acc) (simp_all add: push_all_unique_append)
  then show ?thesis
    unfolding port_variants_def endpoint_attempts_def foldl_push_map Let_def by blast
qed

lemma endpoint_bases_props:
  "distinct (endpoint_bases cfg)" "hd (endpoint_bases cfg) = wg_peer_endpoint cfg"
  "set (endpoint_bases cfg) = insert (wg_peer_endpoint cfg) (set (wg_peer_endpoint_candidates cfg))"
  "endpoint_bases cfg \<noteq> []"
  using push_all_unique_prefix [of "[wg_peer_endpoint cfg]" "wg_peer_endpoint_candidates cfg"]
  by (auto simp: endpoint_bases_def hd_push_all_unique)

lemma attempts_prefix: "\<exists>rest. endpoint_attempts cfg = endpoint_bases cfg @ rest"
  using push_all_unique_prefix [of "endpoint_bases cfg"] endpoint_bases_props(1) [of cfg]
  by (simp add: endpoint_attempts_flat push_all_unique_distinct)

lemma attempts_nonempty [simp]: "endpoint_attempts cfg \<noteq> []"
  using attempts_prefix [of cfg] endpoint_bases_props(4) [of cfg] by auto

lemma set_endpoint_ports: "set (endpoint_ports p) = insert p (set WARP_WG_FALLBACK_PORTS)"
  by (auto simp: endpoint_ports_def)

text \<open>Property. The list of ingress attempts: no address is tried twice; the active endpoint comes first and
  every known address is tried on its own port before any port fallback begins; and apart from those
  addresses, it holds exactly the combinations of a known IP with its own port or one of the four
  WARP ports.\<close>

theorem endpoint_attempts_complete:
  "distinct (endpoint_attempts cfg) \<and>
   hd (endpoint_attempts cfg) = wg_peer_endpoint cfg \<and>
   take (length (endpoint_bases cfg)) (endpoint_attempts cfg) = endpoint_bases cfg \<and>
   set (endpoint_bases cfg) = insert (wg_peer_endpoint cfg) (set (wg_peer_endpoint_candidates cfg)) \<and>
   set (endpoint_attempts cfg) = set (endpoint_bases cfg) \<union>
     {sockaddr_new (sa_ip b) p |b p.
        b \<in> set (endpoint_bases cfg) \<and> p \<in> {sa_port b, 2408, 500, 1701, 4500}}"
proof -
  obtain rest where rest: "endpoint_attempts cfg = endpoint_bases cfg @ rest"
    using attempts_prefix by blast
  have "distinct (endpoint_attempts cfg)" by (simp add: endpoint_attempts_flat)
  moreover have "set (endpoint_attempts cfg) = set (endpoint_bases cfg) \<union>
     {sockaddr_new (sa_ip b) p |b p.
        b \<in> set (endpoint_bases cfg) \<and> p \<in> {sa_port b, 2408, 500, 1701, 4500}}"
    by (auto simp: endpoint_attempts_flat port_variants_def set_endpoint_ports WARP_WG_FALLBACK_PORTS_def)
  ultimately show ?thesis using endpoint_bases_props [of cfg] by (simp add: rest)
qed

section \<open>The race\<close>

definition attempt_timeout :: "nat \<times> sockaddr \<Rightarrow> sockaddr \<times> duration" where
  "attempt_timeout p = (snd p, if fst p = 0 then from_secs 10 else from_secs 5)"

lemma attempt_timeout_pair [simp]:
  "attempt_timeout (i, e) = (e, if i = 0 then from_secs 10 else from_secs 5)"
  by (simp add: attempt_timeout_def)

text \<open>A configuration that one of the started attempts runs with.\<close>

definition launched :: "wireguard_config \<Rightarrow> (sockaddr \<times> duration) list \<Rightarrow> wireguard_config \<Rightarrow> bool" where
  "launched cfg started c \<longleftrightarrow> (\<exists>e \<in> set started. c = cfg\<lparr>wg_peer_endpoint := fst e\<rparr>)"

lemma launched_snoc [simp]:
  "launched cfg (started @ [e]) c \<longleftrightarrow> launched cfg started c \<or> c = cfg\<lparr>wg_peer_endpoint := fst e\<rparr>"
  by (auto simp: launched_def)

lemma launched_endpoint:
  "launched cfg started c \<Longrightarrow>
     wg_peer_endpoint c \<in> fst ` set started \<and> c = cfg\<lparr>wg_peer_endpoint := wg_peer_endpoint c\<rparr>"
  by (auto simp: launched_def intro: rev_image_eqI)

definition race_books :: "wireguard_config \<Rightarrow> 'm endpoint_race \<Rightarrow> bool" where
  "race_books cfg s \<longleftrightarrow>
     er_started s @ map attempt_timeout (er_pending s) =
       map attempt_timeout (enumerate 0 (endpoint_attempts cfg)) \<and>
     list_all (launched cfg (er_started s)) (er_probes s) \<and>
     length (er_probes s) \<le> 2"

definition race_inv :: "wireguard_config \<Rightarrow> 'm endpoint_race \<Rightarrow> bool" where
  "race_inv cfg s \<longleftrightarrow>
     race_books cfg s \<and>
     (er_result s = None \<longrightarrow> er_probes s \<noteq> [] \<and>
        length (er_failures s) + length (er_probes s) = length (er_started s) \<and>
        (er_pending s \<noteq> [] \<longrightarrow> length (er_probes s) = 2)) \<and>
     (er_result s \<noteq> None \<longrightarrow> er_probes s = []) \<and>
     (\<forall>m c. er_result s = Some (Ok (m, c)) \<longrightarrow>
        launched cfg (er_started s) c) \<and>
     (\<forall>e. er_result s = Some (Err e) \<longrightarrow> er_pending s = [] \<and>
        length (er_failures s) = length (er_started s) \<and>
        e = Other (AllEndpointsFailed (er_failures s) (map snd (firewall_hint (er_failures s))))) \<and>
     er_result s \<noteq> Some Panic"

lemmas race_defs = race_inv_def race_books_def spawn_next_def race_done_def

lemma race_start_inv: "race_inv cfg (race_start cfg)"
proof -
  obtain a rest where a: "endpoint_attempts cfg = a # rest"
    using attempts_nonempty [of cfg] by (cases "endpoint_attempts cfg") auto
  show ?thesis
    by (cases rest)
      (auto simp: race_start_def MAX_PARALLEL_ENDPOINT_ATTEMPTS_def numeral_2_eq_2 race_defs a launched_def)
qed

lemma spawn_next_books:
  assumes "race_books cfg s" "length (er_probes s) \<le> 1"
  shows "race_books cfg (spawn_next cfg s)"
  using assms by (cases "er_pending s") (auto simp: race_defs Let_def list_all_iff)

lemma race_joined_inv:
  assumes inv: "race_inv cfg s" and open': "er_result s = None" and c: "c \<in> set (er_probes s)"
  shows "race_inv cfg (race_joined cfg c j s)"
proof -
  define s1 where "s1 = s\<lparr>er_probes := remove1 c (er_probes s)\<rparr>"
  define s2 where "s2 = spawn_next cfg s1"
  have len: "length (er_probes s) = Suc (length (er_probes s1))"
    using c by (simp add: s1_def length_remove1) (metis Suc_pred length_pos_if_in_set)
  have books: "race_books cfg s1"
    using inv set_remove1_subset [of c "er_probes s"]
    by (auto simp: race_inv_def race_books_def s1_def length_remove1 list_all_iff)
  moreover have "length (er_probes s1) \<le> 1" using len inv by (simp add: race_inv_def race_books_def)
  ultimately have b2: "race_books cfg s2" unfolding s2_def by (rule spawn_next_books)
  have same: "er_result s2 = None" "er_failures s2 = er_failures s"
    using open' by (cases "er_pending s1"; auto simp: s2_def s1_def spawn_next_def Let_def)+
  have count: "length (er_failures s) + 1 + length (er_probes s2) = length (er_started s2)"
    "er_probes s2 = [] \<longrightarrow> er_pending s2 = []"
    "er_pending s2 \<noteq> [] \<longrightarrow> length (er_probes s2) = 2"
    using inv open' len
    by (cases "er_pending s"; auto simp: race_inv_def s2_def s1_def spawn_next_def Let_def)+
  have "launched cfg (er_started s) c"
    using inv c by (auto simp: race_inv_def race_books_def list_all_iff)
  then have "launched cfg (er_started s2) c"
    by (cases "er_pending s") (auto simp: s2_def s1_def spawn_next_def Let_def)
  moreover have "race_joined cfg c j s =
      (case j of
        Up managed \<Rightarrow> s2\<lparr>er_probes := [], er_result := Some (Ok (managed, c))\<rparr>
      | Down text \<Rightarrow> race_done (s2\<lparr>er_failures := er_failures s2 @ [(wg_peer_endpoint c, text)]\<rparr>)
      | Lost text \<Rightarrow> race_done (s2\<lparr>er_failures := er_failures s2 @
            [(sockaddr_new (V4 ipv4_unspecified) 0, ''endpoint probe task failed: '' @ text)]\<rparr>))"
    unfolding race_joined_def s2_def s1_def Let_def by (rule refl)
  ultimately show ?thesis
    using b2 count same by (cases j) (auto simp: race_inv_def race_books_def race_done_def)
qed

lemma race_run_inv: "race_run cfg n s \<Longrightarrow> race_inv cfg s"
  by (induction rule: race_run.induct) (auto intro: race_start_inv elim!: race_step.cases race_joined_inv)

lemma race_books_length:
  "race_books cfg s \<Longrightarrow> length (er_started s) + length (er_pending s) = length (endpoint_attempts cfg)"
  unfolding race_books_def by (metis length_append length_map length_enumerate)

lemma spawn_next_keeps [simp]:
  "er_failures (spawn_next cfg s) = er_failures s" "er_result (spawn_next cfg s) = er_result s"
  by (cases "er_pending s"; auto simp: spawn_next_def Let_def)+

lemma race_joined_failures:
  assumes "er_result (race_joined cfg c j s) = None" "er_result s = None"
  shows "length (er_failures (race_joined cfg c j s)) = Suc (length (er_failures s))"
  using assms by (cases j) (auto simp: race_joined_def race_done_def Let_def split: if_splits)

lemma race_run_length:
  "race_run cfg n s \<Longrightarrow>
     (er_result s = None \<longrightarrow> n = length (er_failures s)) \<and> n \<le> length (endpoint_attempts cfg)"
proof (induction rule: race_run.induct)
  case start
  show ?case
    by (simp add: race_start_def race_done_def MAX_PARALLEL_ENDPOINT_ATTEMPTS_def numeral_2_eq_2
        firewall_hint_def)
next
  case (step n s s')
  obtain c j where s': "s' = race_joined cfg c j s" and o: "er_result s = None"
    using step.hyps(2) by (auto elim: race_step.cases)
  have inv: "race_inv cfg s" using step.hyps(1) by (rule race_run_inv)
  then have "length (er_failures s) < length (er_started s)"
    using o by (auto simp: race_inv_def neq_Nil_conv)
  moreover have "length (er_started s) + length (er_pending s) = length (endpoint_attempts cfg)"
    by (rule race_books_length) (use inv in \<open>simp add: race_inv_def\<close>)
  ultimately show ?case
    using step.IH o race_joined_failures [of cfg c j s] by (auto simp: s')
qed

text \<open>C17. The handshake race. Attempts are started in list order, with a timeout of ten seconds for the
  active endpoint and five for every other, and never more than two at once. While the race is
  undecided an attempt is in flight, so (each attempt being bounded by its timeout) it never gets
  stuck, and it is decided after at most as many completions as there are attempts. A winner comes
  with the caller's configuration pointed at an endpoint that was tried, and no other attempt left
  running; the race fails only after every attempt has failed, with one report per attempt.\<close>

theorem endpoint_race_safe:
  assumes "race_run cfg n (s :: 'm endpoint_race)"
  shows "n \<le> length (endpoint_attempts cfg) \<and>
    length (er_probes s) \<le> 2 \<and>
    map fst (er_started s) @ map snd (er_pending s) = endpoint_attempts cfg \<and>
    map snd (er_started s) =
      take (length (er_started s)) (from_secs 10 # replicate (length (endpoint_attempts cfg) - 1) (from_secs 5)) \<and>
    (case er_result s of
       None \<Rightarrow> er_probes s \<noteq> []
     | Some (Ok (managed, c)) \<Rightarrow> er_probes s = [] \<and>
         wg_peer_endpoint c \<in> set (map fst (er_started s)) \<and>
         c = cfg\<lparr>wg_peer_endpoint := wg_peer_endpoint c\<rparr>
     | Some (Err e) \<Rightarrow> er_probes s = [] \<and> map fst (er_started s) = endpoint_attempts cfg \<and>
         length (er_failures s) = length (endpoint_attempts cfg) \<and>
         e = Other (AllEndpointsFailed (er_failures s) (map snd (firewall_hint (er_failures s))))
     | Some Panic \<Rightarrow> False)"
proof -
  have inv: "race_inv cfg s" using assms by (rule race_run_inv)
  then have all: "er_started s @ map attempt_timeout (er_pending s) =
      map attempt_timeout (enumerate 0 (endpoint_attempts cfg))"
    by (simp add: race_inv_def race_books_def)
  have fsts: "map fst (er_started s) @ map snd (er_pending s) = endpoint_attempts cfg"
    using arg_cong [OF all, of "map fst"] by (simp add: attempt_timeout_def o_def)
  have "map snd (map attempt_timeout (enumerate 0 (endpoint_attempts cfg))) =
      from_secs 10 # replicate (length (endpoint_attempts cfg) - 1) (from_secs 5)"
    using attempts_nonempty [of cfg]
    by (intro nth_equalityI) (auto simp: nth_enumerate_eq nth_Cons' less_diff_conv)
  then have snds: "map snd (er_started s) =
      take (length (er_started s)) (from_secs 10 # replicate (length (endpoint_attempts cfg) - 1) (from_secs 5))"
    using arg_cong [OF all, of "\<lambda>l. take (length (er_started s)) (map snd l)"] by simp
  have len: "length (er_started s) + length (er_pending s) = length (endpoint_attempts cfg)"
    using arg_cong [OF fsts, of length] by simp
  show ?thesis
    using race_run_length [OF assms] inv fsts snds len
    by (auto simp: race_inv_def race_books_def dest: launched_endpoint split: option.splits result.splits)
qed

definition example_wg :: wireguard_config where
  "example_wg = \<lparr>wg_private_key = [], wg_peer_public_key = [],
     wg_peer_endpoint = SA4 (Ipv4Addr 162 159 192 1) 2408, wg_peer_endpoint_candidates = [],
     wg_tunnel_ip = Ipv4Addr 172 16 0 2, wg_tunnel_ipv6 = None, wg_preshared_key = None,
     wg_keepalive_seconds = Some 25, wg_mtu = None, wg_tcp_buffer_size = None\<rparr>"

definition example_race :: "nat endpoint_race" where
  "example_race = race_joined example_wg (example_wg\<lparr>wg_peer_endpoint := SA4 (Ipv4Addr 162 159 192 1) 500\<rparr>)
     (Up 7) (race_start example_wg)"

lemma example_attempts:
  "endpoint_attempts example_wg = map (SA4 (Ipv4Addr 162 159 192 1)) [2408, 500, 1701, 4500]"
  by (simp add: endpoint_attempts_flat endpoint_bases_def port_variants_def endpoint_ports_def
      WARP_WG_FALLBACK_PORTS_def example_wg_def push_unique_def)

lemma example_race_run: "race_run example_wg 1 example_race"
proof -
  have "race_step example_wg (race_start example_wg) example_race"
    unfolding example_race_def
    by (rule race_step.joined)
      (simp_all add: race_start_def example_attempts MAX_PARALLEL_ENDPOINT_ATTEMPTS_def numeral_2_eq_2
        race_done_def spawn_next_def)
  then show ?thesis using race_run.step [OF race_run.start] by simp
qed

theorem endpoint_race_safe_witness:
  "\<exists>c. er_result example_race = Some (Ok (7, c)) \<and>
     wg_peer_endpoint c \<in> set (map fst (er_started example_race))"
  using endpoint_race_safe [OF example_race_run]
  by (simp add: example_race_def race_joined_def Let_def)

text \<open>What a whole race can return: a configuration with its tunnel is the result of some run of it.\<close>

definition decided_by_race :: "(wireguard_config \<Rightarrow> ('m \<times> wireguard_config) res) \<Rightarrow> bool" where
  "decided_by_race connect \<longleftrightarrow>
     (\<forall>wg r. connect wg = Ok r \<longrightarrow> (\<exists>n s. race_run wg n s \<and> er_result s = Some (Ok r)))"

lemma decided_config:
  fixes connect :: "wireguard_config \<Rightarrow> ('m \<times> wireguard_config) res"
  assumes "decided_by_race connect" "connect wg = Ok (managed, c)"
  shows "c = wg\<lparr>wg_peer_endpoint := wg_peer_endpoint c\<rparr>"
proof -
  obtain n and s :: "'m endpoint_race" where "race_run wg n s" "er_result s = Some (Ok (managed, c))"
    using assms unfolding decided_by_race_def by blast
  then have "launched wg (er_started s) c" using race_run_inv [of wg n s] by (simp add: race_inv_def)
  then show ?thesis by (blast dest: launched_endpoint)
qed

text \<open>The first attempt answers before any other.\<close>

definition first_wins :: "'m \<Rightarrow> wireguard_config \<Rightarrow> ('m \<times> wireguard_config) res" where
  "first_wins m wg = Ok (m, wg\<lparr>wg_peer_endpoint := hd (endpoint_attempts wg)\<rparr>)"

lemma first_wins_decided: "decided_by_race (first_wins m)"
proof -
  have "race_run wg 1 (race_joined wg (wg\<lparr>wg_peer_endpoint := hd (endpoint_attempts wg)\<rparr>) (Up m) (race_start wg))" for wg
  proof -
    obtain a rest where a: "endpoint_attempts wg = a # rest"
      using attempts_nonempty [of wg] by (cases "endpoint_attempts wg") auto
    have "race_step wg (race_start wg)
        (race_joined wg (wg\<lparr>wg_peer_endpoint := hd (endpoint_attempts wg)\<rparr>) (Up m) (race_start wg))"
      by (rule race_step.joined; cases rest)
        (auto simp: race_start_def MAX_PARALLEL_ENDPOINT_ATTEMPTS_def numeral_2_eq_2 race_defs a)
    then show ?thesis using race_run.step [OF race_run.start] by simp
  qed
  moreover have "er_result (race_joined wg (wg\<lparr>wg_peer_endpoint := hd (endpoint_attempts wg)\<rparr>) (Up m) (race_start wg)) =
      Some (first_wins m wg)" for wg
    by (simp add: race_joined_def first_wins_def Let_def)
  ultimately show ?thesis by (auto simp: decided_by_race_def first_wins_def)
qed

section \<open>Reading failures\<close>

lemma show_nat_plain: "c \<in> {CHR '')'', CHR ''(''} \<Longrightarrow> c \<notin> set (show_nat n)"
  using show_nat_digits [of c n] by (auto simp: is_digit_def Let_def)

lemma os_errno_reads:
  assumes n: "n < 2 ^ 31" and r: "CHR ''('' \<notin> set r"
  shows "os_errno (a @ ''(os error '' @ show_nat n @ '')'' @ r) = Some (int n)"
proof -
  let ?m = "''(os error ''"
  have no: "\<nexists>x y. tl ?m @ (show_nat n @ '')'' @ r) = x @ ?m @ y"
  proof
    assume "\<exists>x y. tl ?m @ (show_nat n @ '')'' @ r) = x @ ?m @ y"
    then obtain x y where "set (tl ?m @ (show_nat n @ '')'' @ r)) = set (x @ ?m @ y)" by metis
    moreover have "CHR ''('' \<in> set (x @ ?m @ y)" by simp
    ultimately have "CHR ''('' \<in> set (tl ?m @ (show_nat n @ '')'' @ r))" by blast
    then show False using r show_nat_plain [of "CHR ''(''" n] by simp
  qed
  have 1: "str_rfind (a @ ?m @ (show_nat n @ '')'' @ r)) ?m = Some (length a)"
    by (rule str_rfind_last [OF _ no]) simp
  have find: "str_find (w @ CHR '')'' # r) '')'' = Some (length w)" if "CHR '')'' \<notin> set w" for w r
    using that by (induction w) (auto simp: starts_with_def)
  have 2: "str_find (show_nat n @ '')'' @ r) '')'' = Some (length (show_nat n))"
    using find [of "show_nat n" r] show_nat_plain [of "CHR '')''" n] by simp
  show ?thesis unfolding os_errno_def 1 using 2 n by simp
qed

text \<open>Property. Reading the errno back from a failure text: a text that ends in \<open>(os error n)\<close>, whatever
  precedes it and whatever follows it without an opening parenthesis, is read as exactly \<open>n\<close> (so 101
  is never taken for 1), and is classified as an unavailable address family when \<open>n\<close> is one of
  ENETUNREACH, EHOSTUNREACH, ENETDOWN and EADDRNOTAVAIL.\<close>

theorem errno_classification:
  assumes "n < 2 ^ 31" and "CHR ''('' \<notin> set rest"
  shows "os_errno (msg @ ''(os error '' @ show_nat n @ '')'' @ rest) = Some (int n) \<and>
    (n \<in> {99, 100, 101, 113} \<longrightarrow>
       is_address_family_unavailable (msg @ ''(os error '' @ show_nat n @ '')'' @ rest))"
  using os_errno_reads [OF assms, of msg]
  by (auto simp: is_address_family_unavailable_def linux_error_kind_def)

theorem errno_classification_witness:
  "is_address_family_unavailable (''Blocked (os error '' @ show_nat 101 @ '')'')"
  using errno_classification [of 101 "[]" "''Blocked ''"] by simp

definition judged :: "sockaddr \<times> string \<Rightarrow> bool" where
  "judged f \<longleftrightarrow> \<not> is_address_family_unavailable (snd f)"

definition eperm :: "sockaddr \<times> string \<Rightarrow> bool" where
  "eperm f \<longleftrightarrow> str_contains (snd f) EPERM_TEXT"

text \<open>Property. The firewall hint is given exactly when some failure is not explained by an unavailable
  address family and every such failure was refused by the kernel (EPERM); it then names each IP of
  those failures once, and no other, with the tool of its address family.\<close>

theorem firewall_hint_exact:
  "(firewall_hint failures \<noteq> [] \<longleftrightarrow>
      (\<exists>f \<in> set failures. judged f) \<and> (\<forall>f \<in> set failures. judged f \<longrightarrow> eperm f)) \<and>
   distinct (map snd (firewall_hint failures)) \<and>
   (firewall_hint failures \<noteq> [] \<longrightarrow>
      set (firewall_hint failures) =
        (\<lambda>f. (if ip_is_v4 (sa_ip (fst f)) then Iptables else Ip6tables, sa_ip (fst f))) `
          {f \<in> set failures. judged f})"
proof -
  define relevant where "relevant = filter judged failures"
  define named where "named = push_all_unique [] (map (\<lambda>f. sa_ip (fst f)) relevant)"
  have hint: "firewall_hint failures =
      (if relevant = [] \<or> \<not> list_all eperm relevant then [] else map firewall_rule named)"
    unfolding firewall_hint_def relevant_def named_def judged_def eperm_def [abs_def] by (simp add: Let_def)
  have "map snd (map firewall_rule named) = named"
    by (simp add: firewall_rule_def o_def)
  then have "distinct (map snd (firewall_hint failures))"
    unfolding hint by (simp add: named_def)
  moreover have "firewall_hint failures \<noteq> [] \<longleftrightarrow> relevant \<noteq> [] \<and> list_all eperm relevant"
  proof -
    have "set named = {} \<longleftrightarrow> relevant = []" by (simp add: named_def)
    then show ?thesis unfolding hint by auto
  qed
  moreover have "relevant \<noteq> [] \<longleftrightarrow> (\<exists>f \<in> set failures. judged f)"
    by (auto simp: relevant_def filter_empty_conv)
  moreover have "list_all eperm relevant \<longleftrightarrow> (\<forall>f \<in> set failures. judged f \<longrightarrow> eperm f)"
    by (auto simp: relevant_def list_all_iff)
  moreover have "set (map firewall_rule named) =
      (\<lambda>f. (if ip_is_v4 (sa_ip (fst f)) then Iptables else Ip6tables, sa_ip (fst f))) `
        {f \<in> set failures. judged f}"
    by (simp add: named_def relevant_def firewall_rule_def image_image)
  ultimately show ?thesis unfolding hint by auto
qed

theorem firewall_hint_exact_witness:
  "set (firewall_hint
     [(SA4 (Ipv4Addr 162 159 192 1) 2408, ''Operation not permitted (os error 1)''),
      (SA6 (Ipv6Addr 38 6 71 0 0 0 0 0 0 0 0 0 0 0 0 1) 2408 0 0, ''Network is unreachable (os error 101)'')])
   = {(Iptables, V4 (Ipv4Addr 162 159 192 1))}"
proof -
  let ?f = "(SA4 (Ipv4Addr 162 159 192 1) 2408, ''Operation not permitted (os error 1)'')"
  let ?g = "(SA6 (Ipv6Addr 38 6 71 0 0 0 0 0 0 0 0 0 0 0 0 1) 2408 0 0, ''Network is unreachable (os error 101)'')"
  have "show_nat 1 = ''1''" "show_nat 101 = ''101''" by code_simp+
  then have "os_errno (snd ?f) = Some 1"
    using os_errno_reads [of 1 "[]" "''Operation not permitted ''"] by simp
  then have "judged ?f" "eperm ?f"
    by (simp_all add: judged_def eperm_def is_address_family_unavailable_def linux_error_kind_def
        UNAVAILABLE_TEXTS_def EPERM_TEXT_def str_contains_def starts_with_def)
  moreover have "\<not> judged ?g"
    by (simp add: judged_def is_address_family_unavailable_def UNAVAILABLE_TEXTS_def str_contains_def
        starts_with_def)
  moreover from calculation have "{f \<in> set [?f, ?g]. judged f} = {?f}" by auto
  ultimately show ?thesis using firewall_hint_exact [of "[?f, ?g]"] by simp
qed

end
