(* ===== verification/Generations.thy ===== *)
theory Generations
  imports Prelude Net_Types
begin

text \<open>
  The second half of \<open>src/tunnel.rs\<close>: the hot-swappable tunnel. A \<open>Tunnel\<close> points at the current
  generation; connections hold leases on the generation they were dialled on; replacing or clearing
  the tunnel retires the old generation, at once or after a drain window. Generations live in a
  store keyed by reference, an entry standing for an \<open>Arc\<close> that is still strongly held, so the last
  release is the \<open>Drop\<close>. \<open>'m\<close> is the type of managed tunnels.
\<close>

section \<open>Model\<close>

datatype replace_reason = Refresh | Recovery

record generation_policy =
  gp_drain_grace :: duration
  gp_recovery_drain_grace :: duration
  gp_max_age :: duration

definition default_generation_policy :: generation_policy where
  "default_generation_policy =
     \<lparr>gp_drain_grace = from_secs (5 * 60), gp_recovery_drain_grace = from_secs 15,
      gp_max_age = from_secs (26 * 60 * 60)\<rparr>"

definition MIN_TUNNEL_DRAIN_GRACE :: duration where "MIN_TUNNEL_DRAIN_GRACE = from_secs 30"

definition grace_for :: "generation_policy \<Rightarrow> replace_reason \<Rightarrow> duration" where
  "grace_for p reason =
     (case reason of Refresh \<Rightarrow> gp_drain_grace p | Recovery \<Rightarrow> gp_recovery_drain_grace p)"

text \<open>\<open>Duration::saturating_sub\<close> is subtraction of naturals.\<close>

definition retirement_delay :: "duration \<Rightarrow> generation_policy \<Rightarrow> replace_reason \<Rightarrow> duration" where
  "retirement_delay age p reason =
     (let grace = grace_for p reason
      in max (min grace (gp_max_age p - age)) (min MIN_TUNNEL_DRAIN_GRACE grace))"

text \<open>\<open>gn_displaced\<close> is a ghost: when the generation stopped being current, and the reason when it was
  replaced.\<close>

record 'm tunnel_generation =
  gn_id :: u64
  gn_managed :: 'm
  gn_retired :: bool
  gn_created_at :: instant
  gn_displaced :: "(instant \<times> replace_reason option) option"

text \<open>Who holds a generation besides the tunnel: a dial that has loaded it, a dial that passed the
  liveness check and is connecting, and a connection or socket that carries the lease.\<close>

datatype holder = Loaded (holder_ref: nat) | Connecting (holder_ref: nat) | Lease (holder_ref: nat)

record 'm tunnel_state =
  ts_now :: instant
  ts_next_id :: u64
  ts_fresh :: nat
  ts_gens :: "nat \<rightharpoonup> 'm tunnel_generation"
  ts_inner :: "nat option"
  ts_timers :: "(instant \<times> nat) list"
  ts_holders :: "holder list"
  ts_active_gauge :: int
  ts_forced_retire :: nat

definition generation_new :: "'m \<Rightarrow> 'm tunnel_state \<Rightarrow> nat \<times> 'm tunnel_state" where
  "generation_new managed s =
     (let g = ts_fresh s in
      (g, s\<lparr>ts_fresh := g + 1, ts_next_id := ts_next_id s + 1,
            ts_active_gauge := ts_active_gauge s + 1,
            ts_gens := (ts_gens s)(g \<mapsto> \<lparr>gn_id = ts_next_id s, gn_managed = managed, gn_retired = False,
                                       gn_created_at = ts_now s, gn_displaced = None\<rparr>)\<rparr>))"

definition is_held :: "'m tunnel_state \<Rightarrow> nat \<Rightarrow> bool" where
  "is_held s g \<longleftrightarrow> ts_inner s = Some g \<or> g \<in> holder_ref ` set (ts_holders s)"

text \<open>\<open>Drop\<close>: runs when the last strong reference goes away.\<close>

definition drop_ref :: "nat \<Rightarrow> 'm tunnel_state \<Rightarrow> 'm tunnel_state" where
  "drop_ref g s =
     (if is_held s g \<or> ts_gens s g = None then s
      else s\<lparr>ts_gens := (ts_gens s)(g := None), ts_active_gauge := ts_active_gauge s - 1\<rparr>)"

definition force_retire :: "nat \<Rightarrow> 'm tunnel_state \<Rightarrow> 'm tunnel_state" where
  "force_retire g s =
     (case ts_gens s g of
        None \<Rightarrow> s
      | Some gen \<Rightarrow>
          if gn_retired gen then s
          else s\<lparr>ts_gens := (ts_gens s)(g \<mapsto> gen\<lparr>gn_retired := True\<rparr>),
                 ts_forced_retire := ts_forced_retire s + 1\<rparr>)"

text \<open>\<open>runtime\<close>: whether a Tokio runtime is there to run the timer.\<close>

definition schedule_retirement ::
  "generation_policy \<Rightarrow> bool \<Rightarrow> replace_reason \<Rightarrow> nat \<Rightarrow> 'm tunnel_state \<Rightarrow> 'm tunnel_state" where
  "schedule_retirement p runtime reason g s =
     (case ts_gens s g of
        None \<Rightarrow> s
      | Some gen \<Rightarrow>
          let delay = retirement_delay (ts_now s - gn_created_at gen) p reason in
          if delay = 0 then force_retire g s
          else if runtime then s\<lparr>ts_timers := ts_timers s @ [(ts_now s + delay, g)]\<rparr>
          else force_retire g s)"

text \<open>Ghost bookkeeping of a swap.\<close>

definition displace :: "nat \<Rightarrow> replace_reason option \<Rightarrow> 'm tunnel_state \<Rightarrow> 'm tunnel_state" where
  "displace g why s =
     (case ts_gens s g of
        None \<Rightarrow> s
      | Some gen \<Rightarrow> s\<lparr>ts_gens := (ts_gens s)(g \<mapsto> gen\<lparr>gn_displaced := Some (ts_now s, why)\<rparr>)\<rparr>)"

definition replace ::
  "generation_policy \<Rightarrow> bool \<Rightarrow> 'm \<Rightarrow> replace_reason \<Rightarrow> 'm tunnel_state \<Rightarrow> 'm tunnel_state" where
  "replace p runtime managed reason s =
     (let (new, s1) = generation_new managed s;
          old = ts_inner s1;
          s2 = s1\<lparr>ts_inner := Some new\<rparr>
      in case old of
           None \<Rightarrow> s2
         | Some g \<Rightarrow> drop_ref g (schedule_retirement p runtime reason g (displace g (Some reason) s2)))"

definition clear :: "'m tunnel_state \<Rightarrow> 'm tunnel_state" where
  "clear s =
     (let old = ts_inner s; s1 = s\<lparr>ts_inner := None\<rparr>
      in case old of None \<Rightarrow> s1 | Some g \<Rightarrow> drop_ref g (force_retire g (displace g None s1)))"

text \<open>The timer task: it sleeps, and retires the generation if a lease still holds it.\<close>

definition timer_fires :: "instant \<times> nat \<Rightarrow> 'm tunnel_state \<Rightarrow> 'm tunnel_state" where
  "timer_fires t s = force_retire (snd t) (s\<lparr>ts_timers := remove1 t (ts_timers s)\<rparr>)"

definition from_managed :: "instant \<Rightarrow> 'm \<Rightarrow> 'm tunnel_state" where
  "from_managed now managed =
     (let (g, s) = generation_new managed
            \<lparr>ts_now = now, ts_next_id = 1, ts_fresh = 0, ts_gens = Map.empty, ts_inner = None,
             ts_timers = [], ts_holders = [], ts_active_gauge = 0, ts_forced_retire = 0\<rparr>
      in s\<lparr>ts_inner := Some g\<rparr>)"

text \<open>\<open>live_generation\<close>: the snapshot, then the check of its cancellation token; another task may swap
  the tunnel in between, so they are separate steps of a dial.\<close>

definition live_load :: "'m tunnel_state \<Rightarrow> nat res \<times> 'm tunnel_state" where
  "live_load s =
     (case ts_inner s of
        None \<Rightarrow> (Err TunnelNotReady, s)
      | Some g \<Rightarrow> (Ok g, s\<lparr>ts_holders := Loaded g # ts_holders s\<rparr>))"

definition is_retired :: "'m tunnel_state \<Rightarrow> nat \<Rightarrow> bool" where
  "is_retired s g \<longleftrightarrow> (case ts_gens s g of Some gen \<Rightarrow> gn_retired gen | None \<Rightarrow> True)"

definition unhold :: "holder \<Rightarrow> 'm tunnel_state \<Rightarrow> 'm tunnel_state" where
  "unhold h s = drop_ref (holder_ref h) (s\<lparr>ts_holders := remove1 h (ts_holders s)\<rparr>)"

definition rehold :: "holder \<Rightarrow> holder \<Rightarrow> 'm tunnel_state \<Rightarrow> 'm tunnel_state" where
  "rehold h h' s = s\<lparr>ts_holders := h' # remove1 h (ts_holders s)\<rparr>"

definition live_check :: "nat \<Rightarrow> 'm tunnel_state \<Rightarrow> nat res \<times> 'm tunnel_state" where
  "live_check g s =
     (if is_retired s g then (Err TunnelNotReady, unhold (Loaded g) s)
      else (Ok g, rehold (Loaded g) (Connecting g) s))"

text \<open>The rest of \<open>dial_tcp\<close>, once the connect has returned \<open>r\<close>. \<open>'c\<close> is the netstack connection.\<close>

definition dial_finish :: "sockaddr \<Rightarrow> nat \<Rightarrow> 'c ns_res \<Rightarrow> 'm tunnel_state \<Rightarrow> ('c \<times> nat) res \<times> 'm tunnel_state" where
  "dial_finish addr g r s =
     (case r of
        Ok inner \<Rightarrow>
          if is_retired s g then (Err TunnelNotReady, unhold (Connecting g) s)
          else (Ok (inner, g), rehold (Connecting g) (Lease g) s)
      | Err e \<Rightarrow> (Err (Dial addr e), unhold (Connecting g) s)
      | Panic \<Rightarrow> (Panic, unhold (Connecting g) s))"

text \<open>\<open>bind_udp\<close> and \<open>bind_udp_v6\<close> after the liveness check; \<open>created\<close> is what \<open>create_udp_socket\<close>
  returns and \<open>v6\<close> the IPv6 address of the tunnel.\<close>

definition bind_udp :: "nat \<Rightarrow> 'u ns_res \<Rightarrow> 'm tunnel_state \<Rightarrow> ('u \<times> nat) res \<times> 'm tunnel_state" where
  "bind_udp g created s =
     (case created of
        Ok inner \<Rightarrow> (Ok (inner, g), rehold (Connecting g) (Lease g) s)
      | Err e \<Rightarrow> (Err (Netstack e), unhold (Connecting g) s)
      | Panic \<Rightarrow> (Panic, unhold (Connecting g) s))"

definition bind_udp_v6 ::
  "nat \<Rightarrow> ipv6 option \<Rightarrow> 'u ns_res \<Rightarrow> 'm tunnel_state \<Rightarrow> ('u \<times> nat) option res \<times> 'm tunnel_state" where
  "bind_udp_v6 g v6 created s =
     (if v6 = None then (Ok None, unhold (Connecting g) s)
      else let (r, s') = bind_udp g created s in (map_res Some r, s'))"


definition time_since_last_handshake :: "('m \<Rightarrow> duration option) \<Rightarrow> 'm tunnel_state \<Rightarrow> duration option" where
  "time_since_last_handshake since s =
     (case ts_inner s of
        None \<Rightarrow> None
      | Some g \<Rightarrow> (case ts_gens s g of None \<Rightarrow> None | Some gen \<Rightarrow> since (gn_managed gen)))"

definition has_ipv6 :: "('m \<Rightarrow> ipv6 option) \<Rightarrow> 'm tunnel_state \<Rightarrow> bool" where
  "has_ipv6 tunnel_ipv6 s =
     (case ts_inner s of
        None \<Rightarrow> False
      | Some g \<Rightarrow> (case ts_gens s g of None \<Rightarrow> False | Some gen \<Rightarrow> tunnel_ipv6 (gn_managed gen) \<noteq> None))"

section \<open>Schedules\<close>

inductive gen_step :: "generation_policy \<Rightarrow> bool \<Rightarrow> 'm tunnel_state \<Rightarrow> 'm tunnel_state \<Rightarrow> bool"
  for p :: generation_policy and runtime :: bool
where
  elapse: "gen_step p runtime s (s\<lparr>ts_now := ts_now s + d\<rparr>)"
| replaced: "gen_step p runtime s (replace p runtime managed reason s)"
| cleared: "gen_step p runtime s (clear s)"
| timer: "t \<in> set (ts_timers s) \<Longrightarrow> fst t \<le> ts_now s \<Longrightarrow> gen_step p runtime s (timer_fires t s)"
| load: "gen_step p runtime s (snd (live_load s))"
| check: "Loaded g \<in> set (ts_holders s) \<Longrightarrow> gen_step p runtime s (snd (live_check g s))"
| dialled: "Connecting g \<in> set (ts_holders s) \<Longrightarrow>
    gen_step p runtime s (snd (dial_finish addr g (r :: unit ns_res) s))"
| bound: "Connecting g \<in> set (ts_holders s) \<Longrightarrow>
    gen_step p runtime s (snd (bind_udp g (r :: unit ns_res) s))"
| bound6: "Connecting g \<in> set (ts_holders s) \<Longrightarrow>
    gen_step p runtime s (snd (bind_udp_v6 g v6 (r :: unit ns_res) s))"
| closed: "Lease g \<in> set (ts_holders s) \<Longrightarrow> gen_step p runtime s (unhold (Lease g) s)"

inductive gen_reach :: "generation_policy \<Rightarrow> bool \<Rightarrow> 'm tunnel_state \<Rightarrow> bool"
  for p :: generation_policy and runtime :: bool
where
  start: "gen_reach p runtime (from_managed now managed)"
| step: "gen_reach p runtime s \<Longrightarrow> gen_step p runtime s s' \<Longrightarrow> gen_reach p runtime s'"

section \<open>The drain window\<close>

lemma retirement_delay_bounds:
  "min MIN_TUNNEL_DRAIN_GRACE (grace_for p r) \<le> retirement_delay age p r"
  "retirement_delay age p r \<le> grace_for p r"
  by (auto simp: retirement_delay_def Let_def)

text \<open>Property. The drain window of a replaced generation. It is never longer than the grace of its reason
  and never shorter than thirty seconds or that grace, so an old age compresses it without cutting
  connections at once; a generation young enough gets the full grace; and the total lifetime stays
  within the maximal age, or exceeds it by the minimal window only. With the shipped policy a
  recovery always drains for exactly 15 seconds, and a refresh for 30 seconds to 5 minutes.\<close>

theorem retirement_delay_bounded:
  "min MIN_TUNNEL_DRAIN_GRACE (grace_for p r) \<le> retirement_delay age p r \<and>
   retirement_delay age p r \<le> grace_for p r \<and>
   (if age + grace_for p r \<le> gp_max_age p then retirement_delay age p r = grace_for p r
    else age + retirement_delay age p r \<le> max (gp_max_age p) (age + MIN_TUNNEL_DRAIN_GRACE)) \<and>
   retirement_delay age default_generation_policy Recovery = from_secs 15 \<and>
   from_secs 30 \<le> retirement_delay age default_generation_policy Refresh \<and>
   retirement_delay age default_generation_policy Refresh \<le> from_secs 300"
  by (auto simp: retirement_delay_def Let_def grace_for_def default_generation_policy_def
      MIN_TUNNEL_DRAIN_GRACE_def from_secs_def)

section \<open>Invariant\<close>

definition earliest :: "generation_policy \<Rightarrow> replace_reason \<Rightarrow> duration" where
  "earliest p r = min MIN_TUNNEL_DRAIN_GRACE (grace_for p r)"

fun displaced_ok ::
  "generation_policy \<Rightarrow> bool \<Rightarrow> 'm tunnel_state \<Rightarrow> nat \<Rightarrow> bool \<Rightarrow> (instant \<times> replace_reason option) option \<Rightarrow> bool"
where
  "displaced_ok p runtime s g retired None \<longleftrightarrow> ts_inner s = Some g \<and> \<not> retired"
| "displaced_ok p runtime s g retired (Some (t, None)) \<longleftrightarrow> ts_inner s \<noteq> Some g \<and> retired"
| "displaced_ok p runtime s g retired (Some (t, Some r)) \<longleftrightarrow>
     ts_inner s \<noteq> Some g \<and> t \<le> ts_now s \<and>
     (retired \<or> (\<exists>d. (d, g) \<in> set (ts_timers s) \<and> d \<le> t + grace_for p r)) \<and>
     (runtime \<and> retired \<longrightarrow> t + earliest p r \<le> ts_now s)"

definition gens_ok :: "generation_policy \<Rightarrow> bool \<Rightarrow> 'm tunnel_state \<Rightarrow> bool" where
  "gens_ok p runtime s \<longleftrightarrow>
     (\<forall>g gen. ts_gens s g = Some gen \<longrightarrow>
        displaced_ok p runtime s g (gn_retired gen) (gn_displaced gen))"

definition timers_ok :: "generation_policy \<Rightarrow> 'm tunnel_state \<Rightarrow> bool" where
  "timers_ok p s \<longleftrightarrow>
     (\<forall>d g. (d, g) \<in> set (ts_timers s) \<longrightarrow> g < ts_fresh s \<and>
        (\<forall>gen. ts_gens s g = Some gen \<longrightarrow>
           (\<exists>t r. gn_displaced gen = Some (t, Some r) \<and> t + earliest p r \<le> d)))"

text \<open>The store, with \<open>X\<close> the references whose last holder may just have gone.\<close>

definition store_ok :: "nat set \<Rightarrow> 'm tunnel_state \<Rightarrow> bool" where
  "store_ok X s \<longleftrightarrow>
     finite (dom (ts_gens s)) \<and> ts_active_gauge s = int (card (dom (ts_gens s))) \<and>
     (\<forall>g. is_held s g \<longrightarrow> g \<in> dom (ts_gens s)) \<and>
     (\<forall>g \<in> dom (ts_gens s). g < ts_fresh s \<and> (is_held s g \<or> g \<in> X))"

definition gen_inv :: "nat set \<Rightarrow> generation_policy \<Rightarrow> bool \<Rightarrow> 'm tunnel_state \<Rightarrow> bool" where
  "gen_inv X p runtime s \<longleftrightarrow> gens_ok p runtime s \<and> timers_ok p s \<and> store_ok X s"

lemma displaced_ok_cong:
  "ts_inner s' = ts_inner s \<Longrightarrow> ts_now s' = ts_now s \<Longrightarrow> ts_timers s' = ts_timers s \<Longrightarrow>
     displaced_ok p runtime s' g b d = displaced_ok p runtime s g b d"
  by (cases "(p, runtime, s, g, b, d)" rule: displaced_ok.cases) auto

lemma insert_set_remove1: "x \<in> set xs \<Longrightarrow> insert x (set (remove1 x xs)) = set xs"
  by (induction xs) auto

lemma drop_ref_inv: "gen_inv {g} p runtime s \<Longrightarrow> gen_inv {} p runtime (drop_ref g s)"
proof -
  assume inv: "gen_inv {g} p runtime s"
  show "gen_inv {} p runtime (drop_ref g s)"
  proof (cases "is_held s g \<or> ts_gens s g = None")
    case True
    then show ?thesis using inv by (auto simp: drop_ref_def gen_inv_def store_ok_def)
  next
    case False
    then have d: "drop_ref g s =
        s\<lparr>ts_gens := (ts_gens s)(g := None), ts_active_gauge := ts_active_gauge s - 1\<rparr>"
      unfolding drop_ref_def by (rule if_not_P)
    have "g \<in> dom (ts_gens s)" using False by auto
    then have "int (card (dom (ts_gens s) - {g})) = int (card (dom (ts_gens s))) - 1"
      using inv card_Suc_Diff1 [of "dom (ts_gens s)" g] by (simp add: gen_inv_def store_ok_def)
    moreover have "gens_ok p runtime (drop_ref g s)"
      using inv by (auto simp: d gen_inv_def gens_ok_def split: if_splits
          cong: displaced_ok_cong)
    ultimately show ?thesis
      using inv False by (auto simp: d gen_inv_def timers_ok_def store_ok_def is_held_def)
  qed
qed

lemma unhold_inv:
  assumes inv: "gen_inv {} p runtime s" and h: "h \<in> set (ts_holders s)"
  shows "gen_inv {} p runtime (unhold h s)"
proof -
  have "set (remove1 h (ts_holders s)) \<subseteq> set (ts_holders s)" by (rule set_remove1_subset)
  moreover have "set (ts_holders s) \<subseteq> insert h (set (remove1 h (ts_holders s)))"
    by (metis in_set_remove1 insertCI subsetI)
  ultimately have "gen_inv {holder_ref h} p runtime (s\<lparr>ts_holders := remove1 h (ts_holders s)\<rparr>)"
    using inv by (auto simp: gen_inv_def gens_ok_def timers_ok_def store_ok_def is_held_def
        cong: displaced_ok_cong) blast+
  then show ?thesis unfolding unhold_def by (rule drop_ref_inv)
qed

lemma rehold_inv:
  assumes inv: "gen_inv {} p runtime s" and h: "h \<in> set (ts_holders s)" and r: "holder_ref h' = holder_ref h"
  shows "gen_inv {} p runtime (rehold h h' s)"
proof -
  have "holder_ref ` set (h' # remove1 h (ts_holders s)) = holder_ref ` set (ts_holders s)"
  proof -
    have "insert h (set (remove1 h (ts_holders s))) = set (ts_holders s)"
      using h by (rule insert_set_remove1)
    then show ?thesis using r by (metis image_insert list.simps(15))
  qed
  then have "is_held (rehold h h' s) = is_held s"
    by (auto simp: fun_eq_iff is_held_def rehold_def)
  then show ?thesis
    using inv by (auto simp: rehold_def gen_inv_def gens_ok_def timers_ok_def store_ok_def
        cong: displaced_ok_cong)
qed

lemma displaced_ok_mono:
  assumes "displaced_ok p runtime s g b x"
    and "ts_inner s' = Some g \<longleftrightarrow> ts_inner s = Some g" and "ts_now s \<le> ts_now s'"
    and "\<And>d. \<not> b \<Longrightarrow> (d, g) \<in> set (ts_timers s) \<Longrightarrow> (d, g) \<in> set (ts_timers s')"
  shows "displaced_ok p runtime s' g b x"
  using assms by (cases "(p, runtime, s, g, b, x)" rule: displaced_ok.cases) fastforce+

lemma force_retire_simps [simp]:
  "ts_gens (force_retire g s) = (case ts_gens s g of None \<Rightarrow> ts_gens s
     | Some gen \<Rightarrow> (ts_gens s)(g \<mapsto> gen\<lparr>gn_retired := True\<rparr>))"
  "ts_inner (force_retire g s) = ts_inner s" "ts_now (force_retire g s) = ts_now s"
  "ts_timers (force_retire g s) = ts_timers s" "ts_holders (force_retire g s) = ts_holders s"
  "ts_fresh (force_retire g s) = ts_fresh s" "ts_active_gauge (force_retire g s) = ts_active_gauge s"
  by (auto simp: force_retire_def fun_eq_iff split: option.splits)

lemma is_held_force_retire [simp]: "is_held (force_retire g s) = is_held s"
  by (simp add: is_held_def fun_eq_iff)

lemma gens_okD: "gens_ok p runtime s \<Longrightarrow> ts_gens s g = Some gen \<Longrightarrow>
    displaced_ok p runtime s g (gn_retired gen) (gn_displaced gen)"
  by (simp add: gens_ok_def)

lemma store_ok_same_dom:
  "store_ok X s \<Longrightarrow> dom (ts_gens s') = dom (ts_gens s) \<Longrightarrow> is_held s' = is_held s \<Longrightarrow>
     ts_fresh s' = ts_fresh s \<Longrightarrow> ts_active_gauge s' = ts_active_gauge s \<Longrightarrow> store_ok X s'"
  by (simp add: store_ok_def)

lemma timer_fires_inv:
  assumes inv: "gen_inv {} p runtime s" and t: "t \<in> set (ts_timers s)" and due: "fst t \<le> ts_now s"
  shows "gen_inv {} p runtime (timer_fires t s)"
proof -
  obtain d g where dg: "t = (d, g)" by (cases t)
  define s' where "s' = timer_fires t s"
  have sub: "set (ts_timers s') \<subseteq> set (ts_timers s)"
    using set_remove1_subset [of t "ts_timers s"] by (simp add: s'_def timer_fires_def)
  have others: "(d', g') \<in> set (ts_timers s')" if "(d', g') \<in> set (ts_timers s)" "g' \<noteq> g" for d' g'
    using that by (simp add: s'_def timer_fires_def dg in_set_remove1)
  have same: "ts_inner s' = ts_inner s" "ts_now s' = ts_now s" "ts_fresh s' = ts_fresh s"
    "ts_active_gauge s' = ts_active_gauge s" "is_held s' = is_held s"
    by (auto simp: s'_def timer_fires_def is_held_def fun_eq_iff)
  have gens: "ts_gens s' = (case ts_gens s g of None \<Rightarrow> ts_gens s
     | Some gen \<Rightarrow> (ts_gens s)(g \<mapsto> gen\<lparr>gn_retired := True\<rparr>))"
    by (simp add: s'_def timer_fires_def dg split: option.split)
  have "displaced_ok p runtime s' g' (gn_retired gen') (gn_displaced gen')"
    if g': "ts_gens s' g' = Some gen'" for g' gen'
  proof (cases "g' = g")
    case True
    then obtain gen where gen: "ts_gens s g = Some gen" "gen' = gen\<lparr>gn_retired := True\<rparr>"
      using g' by (auto simp: gens split: option.splits)
    obtain t0 r where disp: "gn_displaced gen = Some (t0, Some r)" "t0 + earliest p r \<le> d"
      using inv t gen(1) unfolding gen_inv_def timers_ok_def dg by blast
    have "ts_inner s \<noteq> Some g" "t0 \<le> ts_now s"
      using inv gen(1) disp(1) gens_okD [of p runtime s g gen] by (auto simp: gen_inv_def)
    then show ?thesis using disp due by (simp add: gen(2) True same dg)
  next
    case False
    then have "ts_gens s g' = Some gen'" using g' by (simp add: gens split: option.splits)
    then have "displaced_ok p runtime s g' (gn_retired gen') (gn_displaced gen')"
      using inv by (simp add: gen_inv_def gens_okD)
    then show ?thesis by (rule displaced_ok_mono) (use False others same in auto)
  qed
  then have "gens_ok p runtime s'" by (simp add: gens_ok_def)
  moreover have "timers_ok p s'"
    using inv sub by (fastforce simp: gen_inv_def timers_ok_def same gens split: option.splits if_splits)
  moreover have "dom (ts_gens s') = dom (ts_gens s)"
    by (cases "ts_gens s g") (auto simp: gens)
  then have "store_ok {} s'"
    using inv same by (intro store_ok_same_dom [of "{}" s s']) (simp_all add: gen_inv_def)
  ultimately show ?thesis by (simp add: gen_inv_def s'_def)
qed

text \<open>Swapping the current generation \<open>g0\<close> out: \<open>u\<close> is the state before the last reference is
  dropped.\<close>

lemma swap_out_inv:
  assumes inv: "gen_inv {} p runtime s" and cur: "ts_inner s = Some g0"
    and now: "ts_now u = ts_now s" and hold: "ts_holders u = ts_holders s"
    and inner: "ts_inner u \<noteq> Some g0"
    and old: "\<exists>gen. ts_gens u g0 = Some gen \<and> gn_displaced gen = Some (ts_now s, why) \<and>
      displaced_ok p runtime u g0 (gn_retired gen) (Some (ts_now s, why))"
    and rest: "\<And>g. g \<noteq> g0 \<Longrightarrow> ts_inner u \<noteq> Some g \<Longrightarrow> ts_gens u g = ts_gens s g"
    and timers: "set (ts_timers u) = set (ts_timers s) \<union> T"
    and T: "\<And>d g. (d, g) \<in> T \<Longrightarrow> g = g0 \<and> (\<exists>r. why = Some r \<and> ts_now s + earliest p r \<le> d)"
    and new: "case ts_inner u of
        None \<Rightarrow> ts_fresh u = ts_fresh s \<and> ts_active_gauge u = ts_active_gauge s
      | Some n \<Rightarrow> n = ts_fresh s \<and> ts_fresh u = ts_fresh s + 1 \<and>
          ts_active_gauge u = ts_active_gauge s + 1 \<and>
          (\<exists>gen. ts_gens u n = Some gen \<and> gn_displaced gen = None \<and> \<not> gn_retired gen)"
  shows "gen_inv {g0} p runtime u"
proof -
  have store: "store_ok {} s" and timers_s: "timers_ok p s" and gens_s: "gens_ok p runtime s"
    using inv by (auto simp: gen_inv_def)
  have g0: "g0 \<in> dom (ts_gens s)" using store cur by (auto simp: store_ok_def is_held_def)
  have fresh: "\<And>g. g \<in> dom (ts_gens s) \<Longrightarrow> g < ts_fresh s" using store by (auto simp: store_ok_def)
  have dom: "dom (ts_gens u) = (case ts_inner u of None \<Rightarrow> dom (ts_gens s) | Some n \<Rightarrow> insert n (dom (ts_gens s)))"
  proof -
    have "g \<in> dom (ts_gens u) \<longleftrightarrow> g \<in> dom (ts_gens s) \<or> ts_inner u = Some g" for g
    proof (cases "g = g0 \<or> ts_inner u = Some g")
      case True
      then show ?thesis using old g0 new by (auto split: option.splits)
    next
      case False
      then show ?thesis using rest [of g] by (simp add: domIff)
    qed
    then show ?thesis by (cases "ts_inner u") (simp_all add: set_eq_iff disj_commute eq_commute)
  qed
  have "displaced_ok p runtime u g (gn_retired gen) (gn_displaced gen)" if g: "ts_gens u g = Some gen" for g gen
  proof (cases "g = g0 \<or> ts_inner u = Some g")
    case True
    then show ?thesis using old inner new g by (auto split: option.splits)
  next
    case False
    then have "displaced_ok p runtime s g (gn_retired gen) (gn_displaced gen)"
      using gens_s g rest [of g] by (simp add: gens_okD)
    then show ?thesis
      by (rule displaced_ok_mono) (use False cur timers now in auto)
  qed
  then have "gens_ok p runtime u" by (simp add: gens_ok_def)
  moreover have "timers_ok p u"
    unfolding timers_ok_def
  proof (intro allI impI)
    fix d g assume dg: "(d, g) \<in> set (ts_timers u)"
    show "g < ts_fresh u \<and> (\<forall>gen. ts_gens u g = Some gen \<longrightarrow>
        (\<exists>t r. gn_displaced gen = Some (t, Some r) \<and> t + earliest p r \<le> d))"
    proof (cases "g = g0")
      case True
      have "(d, g0) \<notin> set (ts_timers s)"
      proof
        assume "(d, g0) \<in> set (ts_timers s)"
        moreover obtain gen0 where gen0: "ts_gens s g0 = Some gen0" using g0 by auto
        ultimately obtain x where "gn_displaced gen0 = Some x"
          using timers_s unfolding timers_ok_def by blast
        then show False using gens_okD [OF gens_s gen0] cur by (cases x; cases "snd x") auto
      qed
      then show ?thesis using dg T [of d g0] old True fresh [OF g0] new timers
        by (auto split: option.splits)
    next
      case False
      then have m: "(d, g) \<in> set (ts_timers s)" using dg timers T by auto
      then have lt: "g < ts_fresh s" using timers_s by (auto simp: timers_ok_def)
      then have "ts_gens u g = ts_gens s g" using rest [OF False] new by (auto split: option.splits)
      moreover have "g < ts_fresh u" using lt new by (cases "ts_inner u") simp_all
      ultimately show ?thesis using m timers_s unfolding timers_ok_def by simp
    qed
  qed
  moreover have "store_ok {g0} u"
  proof -
    define D where "D = dom (ts_gens s)"
    define H where "H = holder_ref ` set (ts_holders s)"
    have "is_held u = (\<lambda>g. ts_inner u = Some g \<or> g \<in> H)"
      by (auto simp: is_held_def hold H_def fun_eq_iff)
    moreover have "H \<subseteq> D" "finite D" "ts_active_gauge s = int (card D)" "D \<subseteq> insert g0 H"
      using store cur by (auto simp: store_ok_def is_held_def D_def H_def)
    moreover have "ts_fresh s \<notin> D" "\<And>g. g \<in> D \<Longrightarrow> g < ts_fresh s" using fresh by (auto simp: D_def)
    ultimately show ?thesis
      using new unfolding store_ok_def dom D_def [symmetric]
      by (cases "ts_inner u") (auto simp: less_Suc_eq)
  qed
  ultimately show ?thesis by (simp add: gen_inv_def)
qed

lemma schedule_retirement_cases:
  assumes "ts_gens s g = Some gen" and "delay = retirement_delay (ts_now s - gn_created_at gen) p reason"
  shows "schedule_retirement p runtime reason g s =
    (if delay \<noteq> 0 \<and> runtime then s\<lparr>ts_timers := ts_timers s @ [(ts_now s + delay, g)]\<rparr>
     else force_retire g s)"
  using assms by (simp add: schedule_retirement_def Let_def)

lemma replace_inv:
  assumes inv: "gen_inv {} p runtime s"
  shows "gen_inv {} p runtime (replace p runtime managed reason s)"
proof -
  define s2 where "s2 = (snd (generation_new managed s))\<lparr>ts_inner := Some (ts_fresh s)\<rparr>"
  have s2: "ts_now s2 = ts_now s" "ts_holders s2 = ts_holders s" "ts_inner s2 = Some (ts_fresh s)"
    "ts_timers s2 = ts_timers s" "ts_fresh s2 = ts_fresh s + 1"
    "ts_active_gauge s2 = ts_active_gauge s + 1"
    "ts_gens s2 = (ts_gens s)(ts_fresh s \<mapsto> \<lparr>gn_id = ts_next_id s, gn_managed = managed,
       gn_retired = False, gn_created_at = ts_now s, gn_displaced = None\<rparr>)"
    by (simp_all add: s2_def generation_new_def Let_def)
  have store: "store_ok {} s" using inv by (simp add: gen_inv_def)
  then have fresh: "ts_fresh s \<notin> dom (ts_gens s)" by (auto simp: store_ok_def)
  show ?thesis
  proof (cases "ts_inner s")
    case None
    have "replace p runtime managed reason s = s2"
      by (simp add: replace_def generation_new_def s2_def None Let_def)
    moreover have "gens_ok p runtime s2"
      using inv fresh unfolding gens_ok_def
      by (auto simp: s2 gen_inv_def None dest!: gens_okD intro: displaced_ok_mono)
    moreover have "timers_ok p s2"
      using inv by (fastforce simp: gen_inv_def timers_ok_def s2)
    moreover have "store_ok {} s2"
      using store fresh None by (auto simp: store_ok_def s2 is_held_def less_Suc_eq)
    ultimately show ?thesis by (simp add: gen_inv_def)
  next
    case (Some g0)
    define s3 where "s3 = displace g0 (Some reason) s2"
    define u where "u = schedule_retirement p runtime reason g0 s3"
    have r: "replace p runtime managed reason s = drop_ref g0 u"
      by (simp add: replace_def generation_new_def s2_def s3_def u_def Some Let_def)
    have ne: "g0 \<noteq> ts_fresh s" "g0 \<in> dom (ts_gens s)"
      using store Some fresh by (auto simp: store_ok_def is_held_def)
    then obtain gen0 where gen0: "ts_gens s g0 = Some gen0" by auto
    have live: "\<not> gn_retired gen0"
      using inv gens_okD [of p runtime s g0 gen0] gen0 Some
      by (cases "(p, runtime, s, g0, gn_retired gen0, gn_displaced gen0)" rule: displaced_ok.cases)
        (auto simp: gen_inv_def)
    define gen where "gen = gen0\<lparr>gn_displaced := Some (ts_now s, Some reason)\<rparr>"
    have s3: "ts_gens s3 = (ts_gens s2)(g0 \<mapsto> gen)" "ts_now s3 = ts_now s" "ts_holders s3 = ts_holders s"
      "ts_inner s3 = Some (ts_fresh s)" "ts_timers s3 = ts_timers s" "ts_fresh s3 = ts_fresh s + 1"
      "ts_active_gauge s3 = ts_active_gauge s + 1"
      using ne gen0 by (simp_all add: s3_def displace_def s2 gen_def)
    define delay where "delay = retirement_delay (ts_now s - gn_created_at gen) p reason"
    have bounds: "earliest p reason \<le> delay" "delay \<le> grace_for p reason"
      by (auto simp: delay_def earliest_def retirement_delay_bounds)
    have u: "u = (if delay \<noteq> 0 \<and> runtime then s3\<lparr>ts_timers := ts_timers s3 @ [(ts_now s + delay, g0)]\<rparr>
        else force_retire g0 s3)"
      using schedule_retirement_cases [of s3 g0 gen delay p reason runtime]
      by (simp add: u_def s3 delay_def)
    have "gen_inv {g0} p runtime u"
    proof (cases "delay \<noteq> 0 \<and> runtime")
      case True
      then have u: "u = s3\<lparr>ts_timers := ts_timers s3 @ [(ts_now s + delay, g0)]\<rparr>" using u by simp
      show ?thesis
        by (rule swap_out_inv [OF inv Some, where why = "Some reason" and T = "{(ts_now s + delay, g0)}"])
          (use ne bounds live in \<open>auto simp: u s3 s2 gen_def\<close>)
    next
      case False
      have u: "u = force_retire g0 s3" using u unfolding if_not_P [OF False] .
      show ?thesis
        by (rule swap_out_inv [OF inv Some, where why = "Some reason" and T = "{}"])
          (use ne bounds False in \<open>auto simp: u s3 s2 gen_def\<close>)
    qed
    then show ?thesis unfolding r by (rule drop_ref_inv)
  qed
qed

lemma clear_inv:
  assumes inv: "gen_inv {} p runtime s"
  shows "gen_inv {} p runtime (clear s)"
proof (cases "ts_inner s")
  case None
  then have "clear s = s" by (simp add: clear_def)
  then show ?thesis using inv by simp
next
  case (Some g0)
  define u where "u = force_retire g0 (displace g0 None (s\<lparr>ts_inner := None\<rparr>))"
  have c: "clear s = drop_ref g0 u" by (simp add: clear_def Some u_def)
  have "g0 \<in> dom (ts_gens s)" using inv Some by (auto simp: gen_inv_def store_ok_def is_held_def)
  then obtain gen0 where gen0: "ts_gens s g0 = Some gen0" by auto
  have "gen_inv {g0} p runtime u"
    by (rule swap_out_inv [OF inv Some, where why = None and T = "{}"])
      (auto simp: u_def displace_def gen0)
  then show ?thesis unfolding c by (rule drop_ref_inv)
qed

lemma gens_ok_mono:
  assumes "gens_ok p runtime s" and "ts_gens s' = ts_gens s" and "ts_inner s' = ts_inner s"
    and "ts_now s \<le> ts_now s'" and "ts_timers s' = ts_timers s"
  shows "gens_ok p runtime s'"
  unfolding gens_ok_def
proof (intro allI impI)
  fix g gen assume "ts_gens s' g = Some gen"
  then have "displaced_ok p runtime s g (gn_retired gen) (gn_displaced gen)"
    using assms(1,2) by (simp add: gens_okD)
  then show "displaced_ok p runtime s' g (gn_retired gen) (gn_displaced gen)"
    by (rule displaced_ok_mono) (simp_all add: assms)
qed

lemma elapse_inv: "gen_inv {} p runtime s \<Longrightarrow> gen_inv {} p runtime (s\<lparr>ts_now := ts_now s + d\<rparr>)"
  using gens_ok_mono [of p runtime s "s\<lparr>ts_now := ts_now s + d\<rparr>"]
  by (simp add: gen_inv_def timers_ok_def store_ok_def is_held_def)

lemma live_load_inv: "gen_inv {} p runtime s \<Longrightarrow> gen_inv {} p runtime (snd (live_load s))"
proof (cases "ts_inner s")
  case (Some g)
  assume inv: "gen_inv {} p runtime s"
  have "is_held (snd (live_load s)) = is_held s"
    by (auto simp: is_held_def live_load_def Some fun_eq_iff)
  then show ?thesis
    using inv gens_ok_mono [of p runtime s "snd (live_load s)"]
    by (simp add: live_load_def Some gen_inv_def timers_ok_def store_ok_def)
qed (simp add: live_load_def)

lemma live_check_inv:
  "gen_inv {} p runtime s \<Longrightarrow> Loaded g \<in> set (ts_holders s) \<Longrightarrow>
     gen_inv {} p runtime (snd (live_check g s))"
  by (auto simp: live_check_def intro: unhold_inv rehold_inv)

lemma bind_udp_inv:
  "gen_inv {} p runtime s \<Longrightarrow> Connecting g \<in> set (ts_holders s) \<Longrightarrow>
     gen_inv {} p runtime (snd (bind_udp g r s))"
  by (auto simp: bind_udp_def intro: unhold_inv rehold_inv split: result.split)

lemma bind_udp_v6_inv:
  "gen_inv {} p runtime s \<Longrightarrow> Connecting g \<in> set (ts_holders s) \<Longrightarrow>
     gen_inv {} p runtime (snd (bind_udp_v6 g v6 r s))"
  using bind_udp_inv [of p runtime s g r]
  by (auto simp: bind_udp_v6_def intro: unhold_inv split: prod.split)

lemma dial_finish_inv:
  "gen_inv {} p runtime s \<Longrightarrow> Connecting g \<in> set (ts_holders s) \<Longrightarrow>
     gen_inv {} p runtime (snd (dial_finish addr g r s))"
  by (auto simp: dial_finish_def intro: unhold_inv rehold_inv split: result.split)

lemma gen_step_inv: "gen_step p runtime s s' \<Longrightarrow> gen_inv {} p runtime s \<Longrightarrow> gen_inv {} p runtime s'"
  by (induction rule: gen_step.induct)
    (blast intro: elapse_inv replace_inv clear_inv timer_fires_inv live_load_inv live_check_inv
      dial_finish_inv bind_udp_inv bind_udp_v6_inv unhold_inv)+

lemma gen_reach_inv: "gen_reach p runtime s \<Longrightarrow> gen_inv {} p runtime s"
proof (induction rule: gen_reach.induct)
  case (start now managed)
  show ?case
    by (simp add: from_managed_def generation_new_def Let_def gen_inv_def gens_ok_def timers_ok_def
        store_ok_def is_held_def)
qed (rule gen_step_inv)

lemma retired_is_displaced:
  assumes "gen_reach p runtime s" and "ts_gens s g = Some gen"
  shows "displaced_ok p runtime s g (gn_retired gen) (gn_displaced gen)"
  using gen_reach_inv [OF assms(1)] assms(2) by (simp add: gen_inv_def gens_okD)

text \<open>C12. Generations are neither leaked nor cut early. In every reachable state the store holds exactly
  the generations that are current or still leased, and the gauge counts them; the current one is
  never retired; a cleared one is; a replaced one that is not retired yet has a timer armed no later
  than the grace of its reason, and (given a runtime) it is not retired before thirty seconds, or
  that grace if shorter, have passed.\<close>

theorem generations_drain:
  assumes "gen_reach p runtime s"
  shows "dom (ts_gens s) = {g. is_held s g} \<and> ts_active_gauge s = int (card {g. is_held s g}) \<and>
    (\<forall>g gen. ts_gens s g = Some gen \<longrightarrow>
      (case gn_displaced gen of
         None \<Rightarrow> ts_inner s = Some g \<and> \<not> gn_retired gen
       | Some (t, None) \<Rightarrow> ts_inner s \<noteq> Some g \<and> gn_retired gen
       | Some (t, Some r) \<Rightarrow> ts_inner s \<noteq> Some g \<and>
           (gn_retired gen \<or> (\<exists>d. (d, g) \<in> set (ts_timers s) \<and> d \<le> t + grace_for p r)) \<and>
           (runtime \<and> gn_retired gen \<longrightarrow> t + min MIN_TUNNEL_DRAIN_GRACE (grace_for p r) \<le> ts_now s)))"
proof -
  have inv: "gen_inv {} p runtime s" using assms by (rule gen_reach_inv)
  have dom: "dom (ts_gens s) = {g. is_held s g}"
    using inv unfolding gen_inv_def store_ok_def by blast
  moreover have "ts_active_gauge s = int (card {g. is_held s g})"
    using inv by (simp add: gen_inv_def store_ok_def dom)
  moreover have "case gn_displaced gen of
         None \<Rightarrow> ts_inner s = Some g \<and> \<not> gn_retired gen
       | Some (t, None) \<Rightarrow> ts_inner s \<noteq> Some g \<and> gn_retired gen
       | Some (t, Some r) \<Rightarrow> ts_inner s \<noteq> Some g \<and>
           (gn_retired gen \<or> (\<exists>d. (d, g) \<in> set (ts_timers s) \<and> d \<le> t + grace_for p r)) \<and>
           (runtime \<and> gn_retired gen \<longrightarrow> t + min MIN_TUNNEL_DRAIN_GRACE (grace_for p r) \<le> ts_now s)"
    if "ts_gens s g = Some gen" for g gen
    using retired_is_displaced [OF assms that]
    by (auto simp: earliest_def split: option.split prod.split)
  ultimately show ?thesis by blast
qed

text \<open>A run: a connection is dialled, then the tunnel is replaced for a recovery.\<close>

definition run_dialled :: "nat tunnel_state" where
  "run_dialled =
     snd (dial_finish (SA4 (Ipv4Addr 1 1 1 1) 443) 0 (Ok ())
       (snd (live_check 0 (snd (live_load (from_managed 100 7))))))"

definition run_replaced :: "nat tunnel_state" where
  "run_replaced = replace default_generation_policy True 8 Recovery run_dialled"

lemma run_dialled_simps:
  "ts_inner run_dialled = Some 0" "ts_holders run_dialled = [Lease 0]" "ts_fresh run_dialled = 1"
  by (simp_all add: run_dialled_def from_managed_def generation_new_def live_load_def live_check_def
      is_retired_def rehold_def dial_finish_def Let_def)

lemma run_reach:
  "gen_reach p runtime (snd (live_check 0 (snd (live_load (from_managed 100 (7 :: nat))))))"
  "gen_reach p runtime run_dialled"
  "gen_reach default_generation_policy True run_replaced"
proof -
  show 1: "gen_reach p runtime (snd (live_check 0 (snd (live_load (from_managed 100 (7 :: nat))))))"
    for p runtime
    by (rule gen_reach.step [OF gen_reach.step [OF gen_reach.start gen_step.load] gen_step.check])
      (simp add: live_load_def from_managed_def generation_new_def Let_def)
  show 2: "gen_reach p runtime run_dialled" for p runtime
    unfolding run_dialled_def
    by (rule gen_reach.step [OF 1 gen_step.dialled])
      (simp add: live_load_def live_check_def from_managed_def generation_new_def is_retired_def
        rehold_def Let_def)
  show "gen_reach default_generation_policy True run_replaced"
    unfolding run_replaced_def by (rule gen_reach.step [OF 2 gen_step.replaced])
qed

theorem generations_drain_witness:
  "dom (ts_gens run_replaced) = {g. is_held run_replaced g}"
  using generations_drain [OF run_reach(3)] by blast

section \<open>Dials and leases\<close>


lemma rehold_simps [simp]:
  "ts_gens (rehold h h' s) = ts_gens s" "h' \<in> set (ts_holders (rehold h h' s))"
  by (simp_all add: rehold_def)

lemma unhold_inner [simp]: "ts_inner (unhold h s) = ts_inner s"
  by (simp add: unhold_def drop_ref_def)



section \<open>Abstract tunnel\<close>

text \<open>What the rest of the program sees: at most one usable tunnel, swapped atomically.\<close>

definition tunnel_abs :: "'m tunnel_state \<Rightarrow> 'm option" where
  "tunnel_abs s =
     (case ts_inner s of None \<Rightarrow> None | Some g \<Rightarrow> map_option gn_managed (ts_gens s g))"

lemma tunnel_abs_same:
  "ts_inner s' = ts_inner s \<Longrightarrow> (\<And>g. ts_inner s = Some g \<Longrightarrow>
     map_option gn_managed (ts_gens s' g) = map_option gn_managed (ts_gens s g)) \<Longrightarrow> tunnel_abs s' = tunnel_abs s"
  by (simp add: tunnel_abs_def split: option.split)

lemma drop_ref_abs [simp]: "tunnel_abs (drop_ref g s) = tunnel_abs s"
  by (rule tunnel_abs_same) (auto simp: drop_ref_def is_held_def)

lemma force_retire_abs [simp]: "tunnel_abs (force_retire g s) = tunnel_abs s"
  by (rule tunnel_abs_same) (auto split: option.split)

lemma schedule_abs [simp]: "tunnel_abs (schedule_retirement p runtime r g s) = tunnel_abs s"
  by (cases "ts_gens s g") (auto simp: schedule_retirement_def Let_def intro: tunnel_abs_same)

lemma displace_abs [simp]: "tunnel_abs (displace g why s) = tunnel_abs s"
  by (cases "ts_gens s g") (auto simp: displace_def tunnel_abs_def split: option.split)

lemma unhold_abs [simp]: "tunnel_abs (unhold h s) = tunnel_abs s"
  unfolding unhold_def drop_ref_abs by (rule tunnel_abs_same) simp_all

lemma rehold_abs [simp]: "tunnel_abs (rehold h h' s) = tunnel_abs s"
  unfolding rehold_def by (rule tunnel_abs_same) simp_all

lemma replace_abs [simp]: "tunnel_abs (replace p runtime managed reason s) = Some managed"
proof -
  have "tunnel_abs ((snd (generation_new managed s))\<lparr>ts_inner := Some (ts_fresh s)\<rparr>) = Some managed"
    by (simp add: tunnel_abs_def generation_new_def Let_def)
  then show ?thesis
    by (simp add: replace_def generation_new_def Let_def split: option.split)
qed

lemma clear_abs [simp]: "tunnel_abs (clear s) = None"
proof -
  have "tunnel_abs (s\<lparr>ts_inner := None\<rparr>) = None" by (simp add: tunnel_abs_def)
  then show ?thesis by (simp add: clear_def Let_def split: option.split)
qed

subsection \<open>The contract of a swap cell\<close>

text \<open>What the owner of the tunnel and its users rely on: \<open>put\<close> installs, \<open>take\<close> empties, and whatever
  else goes on keeps the content.\<close>

datatype 'm cell_op = Install 'm | Empty | Quiet

fun cell_content :: "'m option \<Rightarrow> 'm cell_op list \<Rightarrow> 'm option" where
  "cell_content v [] = v"
| "cell_content v (Install m # ops) = cell_content (Some m) ops"
| "cell_content v (Empty # ops) = cell_content None ops"
| "cell_content v (Quiet # ops) = cell_content v ops"

locale swap_cell =
  fixes put :: "'r \<Rightarrow> 'm \<Rightarrow> 's \<Rightarrow> 's"
    and take_out :: "'s \<Rightarrow> 's"
    and quiet :: "'s \<Rightarrow> 's \<Rightarrow> bool"
    and view :: "'s \<Rightarrow> 'm option"
  assumes view_put: "view (put r m s) = Some m"
    and view_take: "view (take_out s) = None"
    and view_quiet: "quiet s s' \<Longrightarrow> view s' = view s"
begin

inductive cell_run :: "'s \<Rightarrow> 'm cell_op list \<Rightarrow> 's \<Rightarrow> bool" where
  stop: "cell_run s [] s"
| install: "cell_run (put r m s) ops s' \<Longrightarrow> cell_run s (Install m # ops) s'"
| empty: "cell_run (take_out s) ops s' \<Longrightarrow> cell_run s (Empty # ops) s'"
| quiet: "quiet s s1 \<Longrightarrow> cell_run s1 ops s' \<Longrightarrow> cell_run s (Quiet # ops) s'"

lemma view_run: "cell_run s ops s' \<Longrightarrow> view s' = cell_content (view s) ops"
  by (induction rule: cell_run.induct) (simp_all add: view_put view_take view_quiet)

end

lemma timer_abs [simp]: "tunnel_abs (timer_fires t s) = tunnel_abs s"
  unfolding timer_fires_def force_retire_abs by (rule tunnel_abs_same) simp_all

lemma elapse_abs [simp]: "tunnel_abs (s\<lparr>ts_now := t\<rparr>) = tunnel_abs s"
  by (rule tunnel_abs_same) simp_all

lemma holder_abs [simp]: "tunnel_abs (s\<lparr>ts_holders := h\<rparr>) = tunnel_abs s"
  by (rule tunnel_abs_same) simp_all

lemma live_load_abs [simp]: "tunnel_abs (snd (live_load s)) = tunnel_abs s"
  by (simp add: live_load_def split: option.split)

lemma access_abs [simp]:
  "tunnel_abs (snd (live_check g s)) = tunnel_abs s"
  "tunnel_abs (snd (dial_finish addr g r s)) = tunnel_abs s"
  "tunnel_abs (snd (bind_udp g b s)) = tunnel_abs s"
  "tunnel_abs (snd (bind_udp_v6 g v6 b s)) = tunnel_abs s"
  by (simp_all add: live_check_def dial_finish_def bind_udp_def bind_udp_v6_def
      split: result.split option.split)

text \<open>The steps that are neither a replacement nor a \<open>clear\<close>.\<close>

inductive background_step :: "'m tunnel_state \<Rightarrow> 'm tunnel_state \<Rightarrow> bool" where
  elapse: "background_step s (s\<lparr>ts_now := ts_now s + d\<rparr>)"
| timer: "background_step s (timer_fires t s)"
| load: "background_step s (snd (live_load s))"
| check: "background_step s (snd (live_check g s))"
| dialled: "background_step s (snd (dial_finish addr g (r :: unit ns_res) s))"
| bound: "background_step s (snd (bind_udp g (r :: unit ns_res) s))"
| bound6: "background_step s (snd (bind_udp_v6 g v6 (r :: unit ns_res) s))"
| closed: "background_step s (unhold h s)"

inductive_cases background_stepE: "background_step s s'"

interpretation tc: swap_cell
  "\<lambda>(p, runtime, reason) managed. replace p runtime managed reason" clear background_step tunnel_abs
  by unfold_locales (auto elim: background_stepE)

text \<open>Property. Over any history of replacements, \<open>clear\<close>s and other steps, in any order, a dial that loads the
  tunnel at the end is refused exactly when the cell described by the replacements and \<open>clear\<close>s
  alone is empty.\<close>

theorem tunnel_follows_installs:
  assumes "gen_reach p runtime s'"
    and "swap_cell.cell_run (\<lambda>(p, runtime, reason) managed. replace p runtime managed reason) clear
      background_step s ops s'"
  shows "tunnel_abs s' = cell_content (tunnel_abs s) ops \<and>
    (fst (live_load s') = Err TunnelNotReady \<longleftrightarrow> cell_content (tunnel_abs s) ops = None)"
proof -
  have "\<exists>gen. ts_gens s' g = Some gen" if "ts_inner s' = Some g" for g
    using gen_reach_inv [OF assms(1)] that unfolding gen_inv_def store_ok_def is_held_def by blast
  then have "fst (live_load s') = Err TunnelNotReady \<longleftrightarrow> tunnel_abs s' = None"
    by (auto simp: live_load_def tunnel_abs_def split: option.split)
  then show ?thesis using tc.view_run [OF assms(2)] by simp
qed

text \<open>C13. Refinement: seen through its current managed tunnel, the store of generations with its timers,
  leases and retirements is a single cell. A replacement sets the cell, \<open>clear\<close> empties it, every
  step of any other kind leaves it alone, dials are admitted exactly when it is full, and the IPv6 and
  handshake queries answer from its content.\<close>

theorem tunnel_refines_cell:
  assumes "gen_reach p runtime s"
  shows "tunnel_abs (replace p runtime managed reason s) = Some managed \<and>
    tunnel_abs (clear s) = None \<and>
    tunnel_abs (timer_fires t s) = tunnel_abs s \<and>
    tunnel_abs (snd (live_check g s)) = tunnel_abs s \<and>
    tunnel_abs (snd (dial_finish addr g r s)) = tunnel_abs s \<and>
    tunnel_abs (snd (bind_udp g b s)) = tunnel_abs s \<and>
    tunnel_abs (unhold h s) = tunnel_abs s \<and>
    (fst (live_load s) = Err TunnelNotReady \<longleftrightarrow> tunnel_abs s = None) \<and>
    tunnel_abs (snd (live_load s)) = tunnel_abs s \<and>
    has_ipv6 v6 s = (case tunnel_abs s of None \<Rightarrow> False | Some m \<Rightarrow> v6 m \<noteq> None) \<and>
    time_since_last_handshake since s = Option.bind (tunnel_abs s) since"
proof -
  have cur: "\<exists>gen. ts_gens s g = Some gen" if "ts_inner s = Some g" for g
    using gen_reach_inv [OF assms] that unfolding gen_inv_def store_ok_def is_held_def by blast
  have load: "fst (live_load s) = Err TunnelNotReady \<longleftrightarrow> tunnel_abs s = None"
    using cur by (auto simp: live_load_def tunnel_abs_def split: option.split)
  have queries: "has_ipv6 v6 s = (case tunnel_abs s of None \<Rightarrow> False | Some m \<Rightarrow> v6 m \<noteq> None)"
    "time_since_last_handshake since s = Option.bind (tunnel_abs s) since"
    using cur by (auto simp: has_ipv6_def time_since_last_handshake_def tunnel_abs_def split: option.split)
  show ?thesis
    using load queries by simp
qed

theorem tunnel_refines_cell_witness:
  "fst (live_load (clear run_replaced)) = Err TunnelNotReady"
proof -
  have "gen_reach default_generation_policy True (clear run_replaced)"
    by (rule gen_reach.step [OF run_reach(3) gen_step.cleared])
  from tunnel_refines_cell [OF this, where r = "Ok ()" and b = "Ok ()"]
  show ?thesis by simp
qed

end
