(* ===== verification/Persistence.thy ===== *)
theory Persistence
  imports Prelude Net_Types
begin

text \<open>
  \<open>src/warp/persistence.rs\<close>: loading and atomically saving a JSON document. The file system is a map
  from paths to content and permission bits, with, for every path, what the disk may still hold of it
  when the power fails; \<open>save\<close> is the sequence of system calls the code makes, each of which may fail,
  and a crash may stop it after any of them (or in the middle of the write). The codec is \<open>serde_json\<close>:
  \<open>enc\<close> and \<open>dec\<close> are parameters.
\<close>

section \<open>Model\<close>

type_synonym path = "string list"

text \<open>What reaches the disk, as POSIX promises it. The data of a file that was written and not synced may
  be anything after a power loss (\<open>Anything\<close>); \<open>OneOf\<close> lists what it may be otherwise. A directory
  entry that was changed and whose directory was not synced may still be any earlier one: \<open>od_past\<close>
  are those entries, \<open>None\<close> for no file. A directory that was created and whose parent was not synced
  may be lost with all it holds: \<open>fs_disk_dirs\<close> are the others.\<close>

datatype kept = Anything | OneOf "(bytes \<times> nat) list"

record on_disk =
  od_now :: kept
  od_past :: "kept option list"

record fs =
  fs_files :: "path \<rightharpoonup> bytes \<times> nat"
  fs_dirs :: "path set"
  fs_disk :: "path \<Rightarrow> on_disk"
  fs_disk_dirs :: "path set"

text \<open>A file system at rest: everything is on the disk.\<close>

definition fs_at :: "(path \<rightharpoonup> bytes \<times> nat) \<Rightarrow> path set \<Rightarrow> fs" where
  "fs_at files dirs = \<lparr>fs_files = files, fs_dirs = dirs,
     fs_disk = (\<lambda>q. \<lparr>od_now = OneOf (case files q of None \<Rightarrow> [] | Some f \<Rightarrow> [f]), od_past = []\<rparr>),
     fs_disk_dirs = dirs\<rparr>"

lemma fs_at_files [simp]: "fs_files (fs_at files dirs) = files"
  by (simp add: fs_at_def)

definition path_parent :: "path \<Rightarrow> path option" where
  "path_parent p = (if p = [] then None else Some (butlast p))"

definition MODE_0600 :: nat where "MODE_0600 = 6 * 64"

text \<open>\<open>fault\<close> is an error other than \<open>NotFound\<close> that \<open>read\<close> may report.\<close>

definition load :: "(bytes \<Rightarrow> 'a option) \<Rightarrow> io_error option \<Rightarrow> path \<Rightarrow> fs \<Rightarrow> 'a option res" where
  "load dec fault p s =
     (case fault of
        Some e \<Rightarrow> Err (Io e)
      | None \<Rightarrow>
          (case fs_files s p of
             None \<Rightarrow> Ok None
           | Some (content, mode) \<Rightarrow>
               (case dec content of Some v \<Rightarrow> Ok (Some v) | None \<Rightarrow> Err Json)))"

text \<open>The system calls, in order. \<open>write_all\<close> writes a byte at a time, the finest way the kernel may
  split it; \<open>NamedTempFile\<close> creates its file with mode 0600.\<close>

datatype save_step =
    CreateDirAll | NewTemp | WriteByte u8 | SyncTemp | Persist | Metadata | SetPermissions
  | SyncFile | SyncDir

definition set_file :: "path \<Rightarrow> bytes \<times> nat \<Rightarrow> fs \<Rightarrow> fs" where
  "set_file p f s = s\<lparr>fs_files := (fs_files s)(p \<mapsto> f)\<rparr>"

definition upd_disk :: "path \<Rightarrow> (on_disk \<Rightarrow> on_disk) \<Rightarrow> fs \<Rightarrow> fs" where
  "upd_disk p f s = s\<lparr>fs_disk := (fs_disk s)(p := f (fs_disk s p))\<rparr>"

text \<open>The present directory entry of a path, as the disk may show its file.\<close>

definition entry_now :: "fs \<Rightarrow> path \<Rightarrow> kept option" where
  "entry_now s p = (case fs_files s p of None \<Rightarrow> None | Some f \<Rightarrow> Some (od_now (fs_disk s p)))"

text \<open>\<open>unlink\<close>: the old entry may come back until its directory is synced.\<close>

definition drop_temp :: "path \<Rightarrow> fs \<Rightarrow> fs" where
  "drop_temp tmp s =
     (upd_disk tmp (\<lambda>d. d\<lparr>od_past := entry_now s tmp # od_past d\<rparr>) s)\<lparr>fs_files := (fs_files s)(tmp := None)\<rparr>"

text \<open>\<open>fsync\<close> of a file: its present content and mode are on the disk.\<close>

definition sync_file :: "path \<Rightarrow> fs \<Rightarrow> fs" where
  "sync_file p s =
     (case fs_files s p of None \<Rightarrow> s | Some f \<Rightarrow> upd_disk p (\<lambda>d. d\<lparr>od_now := OneOf [f]\<rparr>) s)"

text \<open>\<open>fsync\<close> of a directory: its present entries are on the disk.\<close>

definition sync_dir :: "path \<Rightarrow> fs \<Rightarrow> fs" where
  "sync_dir dir s =
     s\<lparr>fs_disk := (\<lambda>q. if path_parent q = Some dir then (fs_disk s q)\<lparr>od_past := []\<rparr> else fs_disk s q)\<rparr>"

text \<open>A change of the mode may or may not be on the disk.\<close>

fun or_kept :: "bytes \<times> nat \<Rightarrow> kept \<Rightarrow> kept" where
  "or_kept x Anything = Anything"
| "or_kept x (OneOf xs) = OneOf (x # xs)"

fun save_effect :: "path \<Rightarrow> path \<Rightarrow> path \<Rightarrow> save_step \<Rightarrow> fs \<Rightarrow> fs" where
  "save_effect dir tmp p CreateDirAll s =
     s\<lparr>fs_dirs := (\<lambda>n. take n dir) ` {..length dir} \<union> fs_dirs s\<rparr>"
| "save_effect dir tmp p NewTemp s =
     set_file tmp ([], MODE_0600)
       (upd_disk tmp (\<lambda>d. \<lparr>od_now = Anything, od_past = entry_now s tmp # od_past d\<rparr>) s)"
| "save_effect dir tmp p (WriteByte b) s =
     (case fs_files s tmp of
        None \<Rightarrow> s
      | Some (c, m) \<Rightarrow> set_file tmp (c @ [b], m) (upd_disk tmp (\<lambda>d. d\<lparr>od_now := Anything\<rparr>) s))"
| "save_effect dir tmp p SyncTemp s = sync_file tmp s"
| "save_effect dir tmp p Persist s =
     (case fs_files s tmp of
        None \<Rightarrow> s
      | Some f \<Rightarrow>
          set_file p f
            (upd_disk p (\<lambda>d. \<lparr>od_now = od_now (fs_disk s tmp), od_past = entry_now s p # od_past d\<rparr>)
              (drop_temp tmp s)))"
| "save_effect dir tmp p Metadata s = s"
| "save_effect dir tmp p SetPermissions s =
     (case fs_files s p of
        None \<Rightarrow> s
      | Some (c, m) \<Rightarrow>
          set_file p (c, MODE_0600) (upd_disk p (\<lambda>d. d\<lparr>od_now := or_kept (c, MODE_0600) (od_now d)\<rparr>) s))"
| "save_effect dir tmp p SyncFile s = sync_file p s"
| "save_effect dir tmp p SyncDir s = sync_dir dir s"

text \<open>\<open>fault i\<close> is the error of the \<open>i\<close>-th call. An early return drops the temporary file.\<close>

fun run_steps :: "(nat \<Rightarrow> io_error option) \<Rightarrow> path \<Rightarrow> path \<Rightarrow> path \<Rightarrow> nat \<Rightarrow> save_step list \<Rightarrow> fs \<Rightarrow> unit res \<times> fs" where
  "run_steps fault dir tmp p i [] s = (Ok (), s)"
| "run_steps fault dir tmp p i (st # sts) s =
     (case fault i of
        Some e \<Rightarrow> (Err (Io e), drop_temp tmp s)
      | None \<Rightarrow> run_steps fault dir tmp p (i + 1) sts (save_effect dir tmp p st s))"

definition save_steps :: "bytes \<Rightarrow> save_step list" where
  "save_steps content =
     [NewTemp] @ map WriteByte content @
     [SyncTemp, Persist, Metadata, SetPermissions, SyncFile, SyncDir]"

definition save ::
  "('a \<Rightarrow> bytes option) \<Rightarrow> (nat \<Rightarrow> io_error option) \<Rightarrow> path \<Rightarrow> path \<Rightarrow> 'a \<Rightarrow> fs \<Rightarrow> unit res \<times> fs" where
  "save enc fault tmp p v s =
     (case path_parent p of
        None \<Rightarrow> (Err (Other (PathHasNoParent [])), s)
      | Some dir \<Rightarrow>
          (case fault 0 of
             Some e \<Rightarrow> (Err (Io e), s)
           | None \<Rightarrow>
               let s1 = save_effect dir tmp p CreateDirAll s in
               case enc v of
                 None \<Rightarrow> (Err Json, s1)
               | Some content \<Rightarrow> run_steps fault dir tmp p 1 (save_steps content) s1))"

text \<open>The state in which a crash stops it after \<open>k\<close> of the calls.\<close>

definition crash_after :: "nat \<Rightarrow> path \<Rightarrow> path \<Rightarrow> path \<Rightarrow> bytes \<Rightarrow> fs \<Rightarrow> fs" where
  "crash_after k dir tmp p content s =
     fold (save_effect dir tmp p) (take k (CreateDirAll # save_steps content)) s"

text \<open>What the files may be after a power loss, each path for itself.\<close>

fun may_hold :: "kept option \<Rightarrow> (bytes \<times> nat) option \<Rightarrow> bool" where
  "may_hold None x \<longleftrightarrow> x = None"
| "may_hold (Some Anything) x \<longleftrightarrow> x \<noteq> None"
| "may_hold (Some (OneOf xs)) x \<longleftrightarrow> (case x of None \<Rightarrow> False | Some f \<Rightarrow> f \<in> set xs)"

definition dir_may_be_lost :: "fs \<Rightarrow> path \<Rightarrow> bool" where
  "dir_may_be_lost s q \<longleftrightarrow> (case path_parent q of None \<Rightarrow> False | Some d \<Rightarrow> d \<notin> fs_disk_dirs s)"

definition may_show :: "fs \<Rightarrow> path \<Rightarrow> (bytes \<times> nat) option \<Rightarrow> bool" where
  "may_show s q x \<longleftrightarrow>
     list_ex (\<lambda>e. may_hold e x) (entry_now s q # od_past (fs_disk s q)) \<or> (dir_may_be_lost s q \<and> x = None)"

definition power_loss :: "fs \<Rightarrow> (path \<rightharpoonup> bytes \<times> nat) \<Rightarrow> bool" where
  "power_loss s f \<longleftrightarrow> (\<forall>q. may_show s q (f q))"

section \<open>Atomic replacement\<close>

lemma disk_simps [simp]:
  "fs_files (upd_disk q f s) = fs_files s" "fs_disk_dirs (upd_disk q f s) = fs_disk_dirs s"
  "fs_disk (upd_disk q f s) = (fs_disk s)(q := f (fs_disk s q))"
  "fs_files (set_file q x s) = (fs_files s)(q \<mapsto> x)" "fs_disk_dirs (set_file q x s) = fs_disk_dirs s"
  "fs_disk (set_file q x s) = fs_disk s"
  "fs_files (drop_temp q s) = (fs_files s)(q := None)" "fs_disk_dirs (drop_temp q s) = fs_disk_dirs s"
  "fs_disk (drop_temp q s) = (fs_disk s)(q := (fs_disk s q)\<lparr>od_past := entry_now s q # od_past (fs_disk s q)\<rparr>)"
  "fs_files (sync_file q s) = fs_files s" "fs_disk_dirs (sync_file q s) = fs_disk_dirs s"
  "fs_files (sync_dir d s) = fs_files s" "fs_disk_dirs (sync_dir d s) = fs_disk_dirs s"
  by (simp_all add: upd_disk_def set_file_def drop_temp_def sync_file_def sync_dir_def split: option.split)

text \<open>A path of which the disk shows nothing new.\<close>

definition calm :: "fs \<Rightarrow> fs \<Rightarrow> path \<Rightarrow> bool" where
  "calm s s' q \<longleftrightarrow> fs_files s' q = fs_files s q \<and> od_now (fs_disk s' q) = od_now (fs_disk s q) \<and>
     set (od_past (fs_disk s' q)) \<subseteq> set (od_past (fs_disk s q))"

lemma calm_shows:
  "calm s s' q \<Longrightarrow> fs_disk_dirs s' = fs_disk_dirs s \<Longrightarrow> may_show s' q x \<Longrightarrow> may_show s q x"
  by (auto simp: calm_def may_show_def entry_now_def dir_may_be_lost_def list_ex_iff split: option.splits)

text \<open>Until the rename only the temporary file changes; from it on the target's data is synced, and its
  entry is the new one or one it could have shown before.\<close>

definition staged :: "path \<Rightarrow> bytes \<Rightarrow> fs \<Rightarrow> fs \<Rightarrow> bool" where
  "staged tmp w s s' \<longleftrightarrow> (\<forall>q. q \<noteq> tmp \<longrightarrow> calm s s' q) \<and> fs_disk_dirs s' = fs_disk_dirs s \<and>
     fs_files s' tmp = Some (w, MODE_0600)"

definition renamed :: "path \<Rightarrow> path \<Rightarrow> bytes \<Rightarrow> fs \<Rightarrow> fs \<Rightarrow> bool" where
  "renamed tmp p c s s' \<longleftrightarrow> (\<forall>q. q \<noteq> tmp \<and> q \<noteq> p \<longrightarrow> calm s s' q) \<and> fs_disk_dirs s' = fs_disk_dirs s \<and>
     fs_files s' tmp = None \<and> fs_files s' p = Some (c, MODE_0600) \<and>
     (\<exists>xs. od_now (fs_disk s' p) = OneOf xs \<and> set xs \<subseteq> {(c, MODE_0600)}) \<and>
     set (od_past (fs_disk s' p)) \<subseteq> set (entry_now s p # od_past (fs_disk s p))"

lemma sync_file_disk:
  "fs_files s p = Some f \<Longrightarrow> fs_disk (sync_file p s) = (fs_disk s)(p := (fs_disk s p)\<lparr>od_now := OneOf [f]\<rparr>)"
  by (simp add: sync_file_def)

lemma staged_bytes:
  "staged tmp w s s' \<Longrightarrow> staged tmp (w @ bs) s (fold (save_effect dir tmp p) (map WriteByte bs) s')"
proof (induction bs arbitrary: w s')
  case (Cons b bs)
  have "staged tmp (w @ [b]) s (save_effect dir tmp p (WriteByte b) s')"
    using Cons.prems by (auto simp: staged_def calm_def)
  from Cons.IH [OF this] show ?case by simp
qed simp

lemma staged_sync: "staged tmp w s s' \<Longrightarrow> staged tmp w s (save_effect dir tmp p SyncTemp s')"
  by (simp add: staged_def calm_def sync_file_disk)

lemma persist_renamed:
  assumes "staged tmp c s s'" "tmp \<noteq> p"
  shows "renamed tmp p c s (save_effect dir tmp p Persist (save_effect dir tmp p SyncTemp s'))"
proof -
  have f: "fs_files s' tmp = Some (c, MODE_0600)" and q: "\<And>q. q \<noteq> tmp \<Longrightarrow> calm s s' q"
    using assms(1) by (simp_all add: staged_def)
  have "entry_now (sync_file tmp s') p = entry_now s p"
    using q [of p] assms(2) by (simp add: entry_now_def calm_def sync_file_disk [OF f] split: option.split)
  then show ?thesis
    using assms q [of p] by (auto simp: staged_def renamed_def calm_def f sync_file_disk [OF f])
qed

definition tail_steps :: "save_step list" where
  "tail_steps = [Metadata, SetPermissions, SyncFile, SyncDir]"

lemma tail_renamed_step:
  assumes "renamed tmp p c s s'" "st \<in> set tail_steps" "tmp \<noteq> p"
  shows "renamed tmp p c s (save_effect dir tmp p st s')"
proof -
  have f: "fs_files s' p = Some (c, MODE_0600)" using assms(1) by (simp add: renamed_def)
  from assms(2) consider "st = Metadata" | "st = SetPermissions" | "st = SyncFile" | "st = SyncDir"
    by (auto simp: tail_steps_def)
  then show ?thesis
  proof cases
    case 2
    then show ?thesis using assms(1,3) by (auto simp: renamed_def calm_def f)
  next
    case 3
    then show ?thesis using assms(1) by (auto simp: renamed_def calm_def f sync_file_disk [OF f])
  next
    case 4
    then show ?thesis using assms(1) by (auto simp: renamed_def calm_def sync_dir_def)
  qed (use assms(1) in simp)
qed

lemma tail_renamed:
  "renamed tmp p c s s' \<Longrightarrow> set sts \<subseteq> set tail_steps \<Longrightarrow> tmp \<noteq> p \<Longrightarrow>
     renamed tmp p c s (fold (save_effect dir tmp p) sts s')"
  by (induction sts arbitrary: s') (simp_all del: save_effect.simps add: tail_renamed_step)

text \<open>After \<open>k\<close> calls the temporary file is being written, or the target has been renamed.\<close>

lemma staged_new: "staged tmp [] s (save_effect dir tmp p NewTemp s)"
  by (simp add: staged_def calm_def)

lemma staged_written:
  "staged tmp bs s (fold (save_effect dir tmp p) (map WriteByte bs) (save_effect dir tmp p NewTemp s))"
  using staged_bytes [OF staged_new] by simp

lemma save_steps_tail: "save_steps c = NewTemp # map WriteByte c @ SyncTemp # Persist # tail_steps"
  by (simp add: save_steps_def tail_steps_def)

lemma save_stages:
  assumes "tmp \<noteq> p"
  shows "fold (save_effect dir tmp p) (take k (save_steps c)) s = s \<or>
    (\<exists>w. staged tmp w s (fold (save_effect dir tmp p) (take k (save_steps c)) s)) \<or>
    renamed tmp p c s (fold (save_effect dir tmp p) (take k (save_steps c)) s)"
proof -
  let ?e = "save_effect dir tmp p"
  define s1 where "s1 = fold ?e (map WriteByte c) (?e NewTemp s)"
  have s1: "staged tmp c s s1" by (simp only: s1_def staged_written)
  consider "k = 0" | j where "k = Suc j" "j \<le> length c" | "k = Suc (Suc (length c))"
    | i where "k = Suc (length c + Suc (Suc i))"
  proof -
    assume h: "k = 0 \<Longrightarrow> thesis" "\<And>j. k = Suc j \<Longrightarrow> j \<le> length c \<Longrightarrow> thesis"
      "k = Suc (Suc (length c)) \<Longrightarrow> thesis" "\<And>i. k = Suc (length c + Suc (Suc i)) \<Longrightarrow> thesis"
    have "k = 0 \<or> (\<exists>j. k = Suc j \<and> j \<le> length c) \<or> k = Suc (Suc (length c)) \<or>
        (\<exists>i. k = Suc (length c + Suc (Suc i)))" by presburger
    then show thesis using h by blast
  qed
  then show ?thesis
  proof cases
    case 1
    then show ?thesis by simp
  next
    case (2 j)
    then have "fold ?e (take k (save_steps c)) s = fold ?e (map WriteByte (take j c)) (?e NewTemp s)"
      by (simp add: save_steps_tail take_map)
    then show ?thesis using staged_written by metis
  next
    case 3
    then have "fold ?e (take k (save_steps c)) s = ?e SyncTemp s1" by (simp add: save_steps_tail s1_def)
    then show ?thesis using staged_sync [OF s1] by metis
  next
    case (4 i)
    then have "fold ?e (take k (save_steps c)) s = fold ?e (take i tail_steps) (?e Persist (?e SyncTemp s1))"
      by (simp add: save_steps_tail s1_def)
    then show ?thesis
      using tail_renamed [OF persist_renamed [OF s1 assms], of "take i tail_steps"] assms set_take_subset by metis
  qed
qed

lemma save_complete:
  assumes "tmp \<noteq> p"
  obtains s2 where "renamed tmp p c s s2" "fold (save_effect dir tmp p) (save_steps c) s = sync_dir dir s2"
proof -
  let ?e = "save_effect dir tmp p"
  define s2 where "s2 = fold ?e [Metadata, SetPermissions, SyncFile]
    (?e Persist (?e SyncTemp (fold ?e (map WriteByte c) (?e NewTemp s))))"
  have "renamed tmp p c s s2" unfolding s2_def
    by (rule tail_renamed [OF persist_renamed [OF staged_written assms]]) (simp_all add: tail_steps_def assms)
  moreover have "fold ?e (save_steps c) s = sync_dir dir s2"
    by (simp add: save_steps_tail tail_steps_def s2_def)
  ultimately show thesis by (rule that)
qed

text \<open>What processes see: the temporary file aside, the files are the old ones, with the target either
  untouched or holding the whole new content.\<close>

definition replaced :: "path \<Rightarrow> path \<Rightarrow> bytes \<Rightarrow> fs \<Rightarrow> fs \<Rightarrow> bool" where
  "replaced tmp p content s s' \<longleftrightarrow>
     (fs_files s')(tmp := None) = fs_files s \<or>
     fs_files s' = (fs_files s)(p \<mapsto> (content, MODE_0600))"

lemma renamed_files:
  "renamed tmp p c s s' \<Longrightarrow> fs_files s tmp = None \<Longrightarrow> tmp \<noteq> p \<Longrightarrow>
     fs_files s' x = ((fs_files s)(p \<mapsto> (c, MODE_0600))) x"
  by (cases "x = tmp") (auto simp: renamed_def calm_def)

lemma staged_files: "staged tmp w s s' \<Longrightarrow> fs_files s tmp = None \<Longrightarrow> (fs_files s')(tmp := None) = fs_files s"
  by (rule ext) (auto simp: staged_def calm_def)

lemma crash_replaced:
  assumes "fs_files s tmp = None" "tmp \<noteq> p"
  shows "replaced tmp p c s (fold (save_effect dir tmp p) (take k (save_steps c)) s)"
  using save_stages [OF assms(2), of dir k c s] assms renamed_files staged_files
  unfolding replaced_def by (metis fun_upd_idem ext)

lemma fold_save_steps:
  assumes "fs_files s tmp = None" and "tmp \<noteq> p"
  shows "fs_files (fold (save_effect dir tmp p) (save_steps c) s) = (fs_files s)(p \<mapsto> (c, MODE_0600))"
  using save_complete [OF assms(2), of c s dir] renamed_files [OF _ assms] by (metis disk_simps(12) ext)

lemma create_dir_files [simp]: "fs_files (save_effect dir tmp p CreateDirAll s) = fs_files s"
  by simp

lemma renamed_shows:
  assumes "renamed tmp p c s s'" "may_show s' q x" "q \<noteq> tmp"
  shows "may_show s q x \<or> (q = p \<and> x = Some (c, MODE_0600))"
proof (cases "q = p")
  case True
  obtain xs where xs: "od_now (fs_disk s' p) = OneOf xs" "set xs \<subseteq> {(c, MODE_0600)}"
    and past: "set (od_past (fs_disk s' p)) \<subseteq> set (entry_now s p # od_past (fs_disk s p))"
    and d: "fs_disk_dirs s' = fs_disk_dirs s" and f: "fs_files s' p = Some (c, MODE_0600)"
    using assms(1) by (auto simp: renamed_def)
  from assms(2) consider "may_hold (entry_now s' p) x" | e where "e \<in> set (od_past (fs_disk s' p))" "may_hold e x"
    | "dir_may_be_lost s' p \<and> x = None"
    by (auto simp: may_show_def True list_ex_iff)
  then show ?thesis
  proof cases
    case 1
    then show ?thesis using xs f True by (auto simp: entry_now_def split: option.splits)
  next
    case 2
    then have "e \<in> set (entry_now s p # od_past (fs_disk s p))" using past by blast
    with 2 show ?thesis unfolding may_show_def list_ex_iff True by blast
  next
    case 3
    then show ?thesis using d by (auto simp: may_show_def True dir_may_be_lost_def split: option.splits)
  qed
next
  case False
  then show ?thesis using assms calm_shows by (auto simp: renamed_def)
qed

lemma save_shows:
  assumes "tmp \<noteq> p" "q \<noteq> tmp" "may_show (fold (save_effect dir tmp p) (take k (save_steps c)) s) q x"
  shows "may_show s q x \<or> (q = p \<and> x = Some (c, MODE_0600))"
  using save_stages [OF assms(1), of dir k c s]
proof (elim disjE exE)
  fix w assume "staged tmp w s (fold (save_effect dir tmp p) (take k (save_steps c)) s)"
  then show ?thesis using assms(2,3) calm_shows unfolding staged_def by blast
next
  assume "renamed tmp p c s (fold (save_effect dir tmp p) (take k (save_steps c)) s)"
  then show ?thesis using assms(2,3) renamed_shows by blast
qed (use assms(3) in simp)

text \<open>With all calls made, and the directory itself on the disk, only the new document can be seen.\<close>

lemma save_durable:
  assumes "tmp \<noteq> p" "path_parent p = Some dir" "dir \<in> fs_disk_dirs s"
    and "may_show (fold (save_effect dir tmp p) (save_steps c) s) p x"
  shows "x = Some (c, MODE_0600)"
proof -
  obtain s2 where r: "renamed tmp p c s s2" "fold (save_effect dir tmp p) (save_steps c) s = sync_dir dir s2"
    by (rule save_complete [OF assms(1)])
  from r(1) obtain xs where "od_now (fs_disk s2 p) = OneOf xs" "set xs \<subseteq> {(c, MODE_0600)}"
    "fs_files s2 p = Some (c, MODE_0600)" "fs_disk_dirs s2 = fs_disk_dirs s"
    by (auto simp: renamed_def)
  with assms(2-4) show ?thesis
    by (auto simp: r(2) may_show_def entry_now_def dir_may_be_lost_def sync_dir_def split: option.splits)
qed

text \<open>C26. Crash safety of \<open>save\<close>. Whichever system call a crash follows, and wherever it cuts the write:
  if only the process dies, the target still holds exactly what it held before or the complete new
  document with mode 0600, and no file but the temporary one has changed. If the power fails, data
  that was not synced may be anything and directory entries that were not synced may be old ones, and
  still the target shows the complete new document or something a power loss could have shown before
  the save, as do all other files; and once all calls have returned, in a directory that is itself on
  the disk, the target shows the new document and nothing else.\<close>

theorem save_crash_atomic:
  fixes k :: nat and dir :: path and content :: bytes
  assumes "fs_files s tmp = None" and "tmp \<noteq> p" and "path_parent p = Some dir"
  defines "s' \<equiv> crash_after k dir tmp p content s"
  shows "(fs_files s' p = fs_files s p \<or> fs_files s' p = Some (content, MODE_0600)) \<and>
    (\<forall>q. q \<noteq> p \<and> q \<noteq> tmp \<longrightarrow> fs_files s' q = fs_files s q) \<and>
    (\<forall>f. power_loss s' f \<longrightarrow>
      (may_show s p (f p) \<or> f p = Some (content, MODE_0600)) \<and>
      (\<forall>q. q \<noteq> p \<and> q \<noteq> tmp \<longrightarrow> may_show s q (f q)) \<and>
      (length (CreateDirAll # save_steps content) \<le> k \<and> dir \<in> fs_disk_dirs s \<longrightarrow>
        f p = Some (content, MODE_0600)))"
proof -
  let ?s1 = "save_effect dir tmp p CreateDirAll s"
  have s1: "may_show ?s1 q x = may_show s q x" for q x
    by (simp add: may_show_def entry_now_def dir_may_be_lost_def split: option.split)
  have run: "s' = (case k of 0 \<Rightarrow> s | Suc j \<Rightarrow> fold (save_effect dir tmp p) (take j (save_steps content)) ?s1)"
    by (simp add: s'_def crash_after_def split: nat.split)
  have "replaced tmp p content s s'"
  proof (cases k)
    case (Suc j)
    have "replaced tmp p content ?s1 s'"
      using crash_replaced [of ?s1 tmp p content dir j] assms by (simp add: run Suc)
    then show ?thesis by (simp add: replaced_def)
  qed (use assms in \<open>auto simp: run replaced_def fun_upd_idem\<close>)
  then have files: "fs_files s' p = fs_files s p \<or> fs_files s' p = Some (content, MODE_0600)"
    "\<forall>q. q \<noteq> p \<and> q \<noteq> tmp \<longrightarrow> fs_files s' q = fs_files s q"
    using assms(2) unfolding replaced_def by (metis fun_upd_apply)+
  have shows': "may_show s q x \<or> (q = p \<and> x = Some (content, MODE_0600))"
    if "may_show s' q x" "q \<noteq> tmp" for q x
    using that save_shows [of tmp p q dir _ content ?s1 x] assms(2)
    by (cases k) (auto simp: run s1 simp del: save_effect.simps)
  have durable: "x = Some (content, MODE_0600)"
    if "may_show s' p x" "length (CreateDirAll # save_steps content) \<le> k" "dir \<in> fs_disk_dirs s" for x
  proof (cases k)
    case (Suc j)
    with that have "take j (save_steps content) = save_steps content" by simp
    with that Suc show ?thesis using save_durable [OF assms(2,3), of ?s1 content x] by (simp add: run)
  qed (use that in simp)
  show ?thesis using files shows' durable assms(2) unfolding power_loss_def by blast
qed

theorem save_crash_atomic_witness:
  "\<exists>f. power_loss (crash_after 3 [''data''] [''data'', ''tmp''] [''data'', ''account.json''] [1, 2]
       (fs_at Map.empty {[''data'']})) f \<and> f [''data'', ''tmp''] = Some ([9, 9, 9], 0) \<and>
     f [''data'', ''account.json''] \<in> {None, Some ([1, 2], MODE_0600)}"
proof -
  let ?s = "crash_after 3 [''data''] [''data'', ''tmp''] [''data'', ''account.json''] [1, 2] (fs_at Map.empty {[''data'']})"
  let ?f = "[[''data'', ''tmp''] \<mapsto> ([9 :: u8, 9, 9], 0 :: nat)]"
  have "power_loss ?s ?f"
    by (auto simp: power_loss_def may_show_def entry_now_def crash_after_def save_steps_def fs_at_def
        numeral_3_eq_3)
  moreover have "power_loss ?s f \<Longrightarrow> may_show (fs_at Map.empty {[''data'']}) [''data'', ''account.json''] (f [''data'', ''account.json''])
      \<or> f [''data'', ''account.json''] = Some ([1, 2], MODE_0600)" for f
    using save_crash_atomic [of "fs_at Map.empty {[''data'']}" "[''data'', ''tmp'']" "[''data'', ''account.json'']"
      "[''data'']" 3 "[1, 2]"] by (auto simp: path_parent_def)
  ultimately have "may_show (fs_at Map.empty {[''data'']}) [''data'', ''account.json''] (?f [''data'', ''account.json''])
      \<or> ?f [''data'', ''account.json''] = Some ([1, 2], MODE_0600)" by blast
  then have "?f [''data'', ''account.json''] \<in> {None, Some ([1, 2], MODE_0600)}"
    by (auto simp: may_show_def entry_now_def fs_at_def)
  with \<open>power_loss ?s ?f\<close> show ?thesis by (intro exI [of _ ?f]) simp
qed

section \<open>Outcome of a save\<close>

lemma run_steps_cases:
  "run_steps fault dir tmp p i sts s =
     (if \<forall>j < length sts. fault (i + j) = None then (Ok (), fold (save_effect dir tmp p) sts s)
      else
        let j = (LEAST j. j < length sts \<and> fault (i + j) \<noteq> None)
        in (Err (Io (the (fault (i + j)))), drop_temp tmp (fold (save_effect dir tmp p) (take j sts) s)))"
proof (induction sts arbitrary: i s)
  case (Cons st sts)
  show ?case
  proof (cases "fault i")
    case None
    have all: "(\<forall>j < length (st # sts). fault (i + j) = None) \<longleftrightarrow> (\<forall>j < length sts. fault (Suc i + j) = None)"
      using None by (auto simp: less_Suc_eq_0_disj)
    show ?thesis
    proof (cases "\<forall>j < length sts. fault (Suc i + j) = None")
      case True
      then have "\<forall>j < length (st # sts). fault (i + j) = None" using all by simp
      then show ?thesis using Cons.IH [of "i + 1"] None True by simp
    next
      case False
      then obtain j where j: "j < length sts \<and> fault (Suc i + j) \<noteq> None" by blast
      have "(LEAST j. j < length (st # sts) \<and> fault (i + j) \<noteq> None) =
          Suc (LEAST j. j < length sts \<and> fault (Suc i + j) \<noteq> None)"
        using Least_Suc [of "\<lambda>j. j < length (st # sts) \<and> fault (i + j) \<noteq> None" "Suc j"] j None by simp
      moreover have "\<not> (\<forall>j < length (st # sts). fault (i + j) = None)" using all False by simp
      ultimately show ?thesis using Cons.IH [of "i + 1"] None False by (simp add: Let_def)
    qed
  next
    case (Some e)
    then have "(LEAST j. j < length (st # sts) \<and> fault (i + j) \<noteq> None) = 0" by (intro Least_equality) auto
    moreover have "\<not> (\<forall>j < length (st # sts). fault (i + j) = None)"
      using Some by (metis add.right_neutral length_Cons option.distinct(1) zero_less_Suc)
    ultimately show ?thesis using Some by simp
  qed
qed simp

definition save_result :: "path \<Rightarrow> bytes option \<Rightarrow> fs \<Rightarrow> unit res \<Rightarrow> fs \<Rightarrow> bool" where
  "save_result p content s r s' \<longleftrightarrow>
     (case r of
        Ok u \<Rightarrow> content \<noteq> None \<and> fs_files s' = (fs_files s)(p \<mapsto> (the content, MODE_0600))
      | Err e \<Rightarrow> fs_files s' = fs_files s \<or>
          (content \<noteq> None \<and> fs_files s' = (fs_files s)(p \<mapsto> (the content, MODE_0600)))
      | Panic \<Rightarrow> False)"

lemma save_result:
  assumes tmp: "fs_files s tmp = None" and ne: "tmp \<noteq> p"
  shows "case save enc fault tmp p v s of (r, s') \<Rightarrow> save_result p (enc v) s r s'"
proof (cases "path_parent p")
  case None
  then show ?thesis by (simp add: save_def save_result_def)
next
  case (Some dir)
  define s1 where "s1 = save_effect dir tmp p CreateDirAll s"
  have s1: "fs_files s1 = fs_files s" by (simp add: s1_def)
  show ?thesis
  proof (cases "fault 0 = None \<and> enc v \<noteq> None")
    case False
    then show ?thesis
      using Some by (auto simp: save_def save_result_def split: option.split)
  next
    case True
    then obtain c where c: "enc v = Some c" by blast
    have run: "save enc fault tmp p v s = run_steps fault dir tmp p 1 (save_steps c) s1"
      using True by (simp add: save_def Some c s1_def Let_def)
    show ?thesis
    proof (cases "\<forall>j < length (save_steps c). fault (1 + j) = None")
      case True
      then have "save enc fault tmp p v s = (Ok (), fold (save_effect dir tmp p) (save_steps c) s1)"
        unfolding run run_steps_cases by (rule if_P)
      then show ?thesis using fold_save_steps [of s1 tmp p dir c] tmp ne by (simp add: save_result_def s1 c)
    next
      case False
      define j where "j = (LEAST j. j < length (save_steps c) \<and> fault (1 + j) \<noteq> None)"
      define s2 where "s2 = fold (save_effect dir tmp p) (take j (save_steps c)) s1"
      have r: "save enc fault tmp p v s = (Err (Io (the (fault (1 + j)))), drop_temp tmp s2)"
        unfolding run run_steps_cases if_not_P [OF False] Let_def j_def s2_def by (rule refl)
      have "replaced tmp p c s1 s2" unfolding s2_def by (rule crash_replaced) (use tmp ne s1 in auto)
      then have "fs_files (drop_temp tmp s2) = fs_files s \<or>
          fs_files (drop_temp tmp s2) = (fs_files s)(p \<mapsto> (c, MODE_0600))"
        using tmp ne by (auto simp: replaced_def s1 drop_temp_def fun_upd_twist fun_upd_idem)
      then show ?thesis unfolding r by (simp add: save_result_def c)
    qed
  qed
qed

text \<open>C27. Round trip and error behaviour of \<open>save\<close>, given that decoding inverts encoding. A save that
  returns \<open>Ok\<close> is read back as the saved value; one that fails, at whatever call, is read back as
  what was there before or as the saved value, never as a truncated document; in both cases the
  temporary file is gone and no other file has changed.\<close>

theorem save_load_roundtrip:
  assumes "fs_files s tmp = None" and "tmp \<noteq> p"
    and "\<And>content. enc v = Some content \<Longrightarrow> dec content = Some v"
  shows "case save enc fault tmp p v s of (r, s') \<Rightarrow>
    (case r of
       Ok u \<Rightarrow> load dec None p s' = Ok (Some v) \<and> map_option snd (fs_files s' p) = Some MODE_0600
     | Err e \<Rightarrow> load dec None p s' = load dec None p s \<or> load dec None p s' = Ok (Some v)
     | Panic \<Rightarrow> False) \<and>
    fs_files s' tmp = None \<and> (\<forall>q. q \<noteq> p \<longrightarrow> fs_files s' q = fs_files s q)"
proof -
  obtain r s' where rs: "save enc fault tmp p v s = (r, s')" by (cases "save enc fault tmp p v s")
  have res: "save_result p (enc v) s r s'"
    using save_result [OF assms(1,2), where enc = enc and fault = fault and v = v] by (simp add: rs)
  have new: "load dec None p s' = Ok (Some v)"
    if "enc v \<noteq> None" "fs_files s' = (fs_files s)(p \<mapsto> (the (enc v), MODE_0600))"
    using that assms(3) by (auto simp: load_def)
  show ?thesis
  proof (cases r)
    case (Ok u)
    then show ?thesis using res new assms(1,2) by (simp add: rs save_result_def)
  next
    case (Err e)
    then have "fs_files s' = fs_files s \<or>
        enc v \<noteq> None \<and> fs_files s' = (fs_files s)(p \<mapsto> (the (enc v), MODE_0600))"
      using res by (simp add: save_result_def)
    then show ?thesis
    proof
      assume "fs_files s' = fs_files s"
      then show ?thesis using Err assms(1) by (simp add: rs load_def)
    next
      assume "enc v \<noteq> None \<and> fs_files s' = (fs_files s)(p \<mapsto> (the (enc v), MODE_0600))"
      then show ?thesis using new Err assms(1,2) by (simp add: rs)
    qed
  qed (use res in \<open>simp add: save_result_def\<close>)
qed

theorem save_load_roundtrip_witness:
  "load (\<lambda>c. Some (length c)) None [''data'', ''account.json'']
     (snd (save (\<lambda>n. Some (replicate n 0)) (\<lambda>i. None) [''data'', ''tmp''] [''data'', ''account.json''] 3
       (fs_at Map.empty {}))) = Ok (Some 3)"
  using save_load_roundtrip [where s = "fs_at Map.empty {}" and tmp = "[''data'', ''tmp'']"
      and p = "[''data'', ''account.json'']" and enc = "\<lambda>n::nat. Some (replicate n 0)" and v = "3::nat"
      and dec = "\<lambda>c. Some (length c)" and fault = "\<lambda>i. None"]
  by (simp add: save_def path_parent_def save_steps_def Let_def numeral_3_eq_3)

end
