(* ===== verification/Account.thy ===== *)
theory Account
  imports Prelude Rust_Str Net_Types Config Endpoints Persistence "HOL-Library.List_Lexorder"
begin

text \<open>
  \<open>src/warp/account.rs\<close>: the only caller of the WARP API. Registration with its two cooldowns, the
  refresh of the tunnel configuration, and the candidate accounts that become current only through
  \<open>commit_candidate\<close>. The API client, the JSON codec and the clocks are inputs of each call; \<open>api_lock\<close>
  makes every operation atomic. What the manager needs of the API client is the locale
  \<open>registration_service\<close>, which \<open>Warp_Api\<close> provides. \<open>src/warp/identity_pool.rs\<close> is modelled here too.
\<close>

section \<open>Model\<close>

record warp_credentials =
  cr_device_id :: string
  cr_access_token :: string
  cr_private_key :: bytes
  cr_license_key :: string
  cr_client_id :: "bytes option"
  cr_is_teams :: bool

record account_file =
  af_credentials :: warp_credentials
  af_registered_at :: u64

record account_snapshot =
  as_wg_config :: wireguard_config
  as_credentials :: warp_credentials

record account_candidate =
  cd_wg_config :: wireguard_config
  cd_account_file :: account_file

text \<open>\<open>am_register_calls\<close> is a ghost: the monotonic times of the \<open>register\<close> calls that
  \<open>prepare_reregister\<close> made, latest first.\<close>

record account_manager =
  am_disk :: fs
  am_last_register_attempt :: "instant option"
  am_effective_mtu :: "u16 option"
  am_register_calls :: "instant list"

text \<open>What a call finds outside: the monotonic clock; the wall clock, in nanoseconds since the UNIX
  epoch, at the cooldown check and after the registration; the API; the file system's faults.\<close>

record api_env =
  ev_now :: instant
  ev_wall :: int
  ev_wall_after :: int
  ev_get_config :: "warp_credentials \<Rightarrow> (wireguard_config, warp_error) result"
  ev_register :: "string \<Rightarrow> string option \<Rightarrow> (wireguard_config \<times> warp_credentials, warp_error) result"
  ev_load_fault :: "io_error option"
  ev_save_fault :: "nat \<Rightarrow> io_error option"
  ev_tmp :: path

text \<open>The JSON codec of account files.\<close>

record json_codec =
  js_enc :: "account_file \<Rightarrow> bytes option"
  js_dec :: "bytes \<Rightarrow> account_file option"

fun from_warp :: "('a, warp_error) result \<Rightarrow> 'a res" where
  "from_warp (Ok x) = Ok x"
| "from_warp (Err e) = Err (WarpApi e)"
| "from_warp Panic = Panic"

definition account_path :: "warp_config \<Rightarrow> path" where
  "account_path cfg = [wc_data_dir cfg, ''account.json'']"

definition apply_transport_tuning :: "warp_config \<Rightarrow> wireguard_config \<Rightarrow> wireguard_config" where
  "apply_transport_tuning cfg wg =
     wg\<lparr>wg_mtu := Some (wc_mtu cfg), wg_tcp_buffer_size := Some (wc_tcp_buffer_size cfg)\<rparr>"

definition tuned :: "warp_config \<Rightarrow> account_manager \<Rightarrow> account_manager" where
  "tuned cfg m = m\<lparr>am_effective_mtu := Some (wc_mtu cfg)\<rparr>"

definition as_secs :: "duration \<Rightarrow> nat" where "as_secs d = d div 1000000000"

definition unix_secs :: "int \<Rightarrow> u64" where
  "unix_secs t = (if t < 0 then 0 else word_of_nat (as_secs (nat t)))"

definition register_candidate ::
  "warp_config \<Rightarrow> api_env \<Rightarrow> account_manager \<Rightarrow> account_candidate res \<times> account_manager" where
  "register_candidate cfg env m =
     (case from_warp (ev_register env (wc_device_model cfg) (wc_license_key cfg)) of
        Ok (wg, creds) \<Rightarrow>
          (Ok \<lparr>cd_wg_config = apply_transport_tuning cfg wg,
               cd_account_file = \<lparr>af_credentials = creds, af_registered_at = unix_secs (ev_wall_after env)\<rparr>\<rparr>,
           tuned cfg m)
      | Err e \<Rightarrow> (Err e, m)
      | Panic \<Rightarrow> (Panic, m))"

text \<open>\<open>get_config\<close> followed by the tuning.\<close>

definition fetch_config ::
  "warp_config \<Rightarrow> api_env \<Rightarrow> warp_credentials \<Rightarrow> account_manager \<Rightarrow> wireguard_config res \<times> account_manager" where
  "fetch_config cfg env creds m =
     (case from_warp (ev_get_config env creds) of
        Ok wg \<Rightarrow> (Ok (apply_transport_tuning cfg wg), tuned cfg m)
      | Err e \<Rightarrow> (Err e, m)
      | Panic \<Rightarrow> (Panic, m))"

definition save_account ::
  "json_codec \<Rightarrow> warp_config \<Rightarrow> api_env \<Rightarrow> account_file \<Rightarrow> account_manager \<Rightarrow> unit res \<times> account_manager" where
  "save_account js cfg env file m =
     (let (r, disk) = save (js_enc js) (ev_save_fault env) (ev_tmp env) (account_path cfg) file (am_disk m)
      in (r, m\<lparr>am_disk := disk\<rparr>))"

definition load_or_register ::
  "json_codec \<Rightarrow> warp_config \<Rightarrow> api_env \<Rightarrow> account_manager \<Rightarrow> account_snapshot res \<times> account_manager" where
  "load_or_register js cfg env m =
     (case load (js_dec js) (ev_load_fault env) (account_path cfg) (am_disk m) of
        Err e \<Rightarrow> (Err e, m)
      | Panic \<Rightarrow> (Panic, m)
      | Ok (Some file) \<Rightarrow>
          (case fetch_config cfg env (af_credentials file) m of
             (Ok wg, m1) \<Rightarrow> (Ok \<lparr>as_wg_config = wg, as_credentials = af_credentials file\<rparr>, m1)
           | (Err e, m1) \<Rightarrow> (Err e, m1)
           | (Panic, m1) \<Rightarrow> (Panic, m1))
      | Ok None \<Rightarrow>
          (case register_candidate cfg env m of
             (Ok cand, m1) \<Rightarrow>
               (case save_account js cfg env (cd_account_file cand) m1 of
                  (Ok u, m2) \<Rightarrow>
                    (Ok \<lparr>as_wg_config = cd_wg_config cand,
                         as_credentials = af_credentials (cd_account_file cand)\<rparr>, m2)
                | (Err e, m2) \<Rightarrow> (Err e, m2)
                | (Panic, m2) \<Rightarrow> (Panic, m2))
           | (Err e, m1) \<Rightarrow> (Err e, m1)
           | (Panic, m1) \<Rightarrow> (Panic, m1)))"

text \<open>\<open>UNIX_EPOCH + Duration::from_secs(registered_at)\<close> panics beyond the range of the platform's
  signed seconds; \<open>duration_since\<close> fails for a time in the future.\<close>

definition disk_cooldown :: "warp_config \<Rightarrow> api_env \<Rightarrow> account_file \<Rightarrow> unit res" where
  "disk_cooldown cfg env file =
     (if 2 ^ 63 \<le> unat (af_registered_at file) then Panic
      else
        let registered = int (from_secs (unat (af_registered_at file))) in
        if ev_wall env < registered then Ok ()
        else
          let elapsed = nat (ev_wall env - registered) in
          if elapsed < wc_register_cooldown cfg
          then Err (Other (RegisterCooldown (as_secs (wc_register_cooldown cfg - elapsed))))
          else Ok ())"

definition attempt_cooldown :: "warp_config \<Rightarrow> api_env \<Rightarrow> account_manager \<Rightarrow> unit res" where
  "attempt_cooldown cfg env m =
     (case am_last_register_attempt m of
        None \<Rightarrow> Ok ()
      | Some since \<Rightarrow>
          let elapsed = ev_now env - since in
          if elapsed < wc_register_cooldown cfg
          then Err (Other (RegisterCooldownAttempt (as_secs (wc_register_cooldown cfg - elapsed))))
          else Ok ())"

definition reregister_guard :: "json_codec \<Rightarrow> warp_config \<Rightarrow> api_env \<Rightarrow> account_manager \<Rightarrow> unit res" where
  "reregister_guard js cfg env m =
     and_then (load (js_dec js) (ev_load_fault env) (account_path cfg) (am_disk m)) (\<lambda>file.
     and_then (case file of None \<Rightarrow> Ok () | Some f \<Rightarrow> disk_cooldown cfg env f) (\<lambda>u.
       attempt_cooldown cfg env m))"

definition prepare_reregister ::
  "json_codec \<Rightarrow> warp_config \<Rightarrow> api_env \<Rightarrow> account_manager \<Rightarrow> account_candidate res \<times> account_manager" where
  "prepare_reregister js cfg env m =
     (case reregister_guard js cfg env m of
        Ok u \<Rightarrow> register_candidate cfg env
                 (m\<lparr>am_last_register_attempt := Some (ev_now env),
                    am_register_calls := ev_now env # am_register_calls m\<rparr>)
      | Err e \<Rightarrow> (Err e, m)
      | Panic \<Rightarrow> (Panic, m))"

definition refresh_config ::
  "warp_config \<Rightarrow> api_env \<Rightarrow> warp_credentials \<Rightarrow> account_manager \<Rightarrow> wireguard_config res \<times> account_manager" where
  "refresh_config cfg env creds m = fetch_config cfg env creds m"

definition prepare_identity ::
  "json_codec \<Rightarrow> warp_config \<Rightarrow> api_env \<Rightarrow> path \<Rightarrow> account_manager \<Rightarrow> account_candidate res \<times> account_manager" where
  "prepare_identity js cfg env source m =
     (case load (js_dec js) (ev_load_fault env) source (am_disk m) of
        Err e \<Rightarrow> (Err e, m)
      | Panic \<Rightarrow> (Panic, m)
      | Ok None \<Rightarrow> (Err (Other (IdentityDisappeared (last source))), m)
      | Ok (Some file) \<Rightarrow>
          (case fetch_config cfg env (af_credentials file) m of
             (Ok wg, m1) \<Rightarrow> (Ok \<lparr>cd_wg_config = wg, cd_account_file = file\<rparr>, m1)
           | (Err e, m1) \<Rightarrow> (Err e, m1)
           | (Panic, m1) \<Rightarrow> (Panic, m1)))"

definition commit_candidate ::
  "json_codec \<Rightarrow> warp_config \<Rightarrow> api_env \<Rightarrow> account_file \<Rightarrow> account_manager \<Rightarrow> unit res \<times> account_manager" where
  "commit_candidate js cfg env file m = save_account js cfg env file m"

section \<open>Identity pool\<close>

record identity_pool =
  ip_files :: "path list"
  ip_next_idx :: nat

text \<open>Paths are compared componentwise, their names by bytes.\<close>

definition path_key :: "path \<Rightarrow> nat list list" where
  "path_key p = map (map of_char) p"

text \<open>\<open>Path::extension\<close> of the last component is \<open>json\<close>.\<close>

definition has_json_extension :: "path \<Rightarrow> bool" where
  "has_json_extension p \<longleftrightarrow>
     p \<noteq> [] \<and>
     (case rsplit_once (CHR ''.'') (last p) of
        None \<Rightarrow> False
      | Some (stem, ext) \<Rightarrow> stem \<noteq> [] \<and> ext = ''json'')"

datatype dir_listing = DirMissing | DirUnreadable io_error | DirEntries "path option list"

definition pool_load :: "dir_listing \<Rightarrow> identity_pool res" where
  "pool_load dir =
     (case dir of
        DirMissing \<Rightarrow> Ok \<lparr>ip_files = [], ip_next_idx = 0\<rparr>
      | DirUnreadable e \<Rightarrow> Err (Io e)
      | DirEntries entries \<Rightarrow>
          Ok \<lparr>ip_files = sort_key path_key (filter has_json_extension (map the (filter (\<lambda>e. e \<noteq> None) entries))),
              ip_next_idx = 0\<rparr>)"

definition next_identity :: "identity_pool \<Rightarrow> path option \<times> identity_pool" where
  "next_identity pool =
     (if ip_files pool = [] then (None, pool)
      else (Some (ip_files pool ! (ip_next_idx pool mod length (ip_files pool))),
            pool\<lparr>ip_next_idx := (ip_next_idx pool + 1) mod 2 ^ 64\<rparr>))"

section \<open>Preparing never commits\<close>

definition tuned_wg :: "warp_config \<Rightarrow> wireguard_config \<Rightarrow> bool" where
  "tuned_wg cfg wg \<longleftrightarrow> wg_mtu wg = Some (wc_mtu cfg) \<and> wg_tcp_buffer_size wg = Some (wc_tcp_buffer_size cfg)"

lemma apply_transport_tuning_tuned [simp]: "tuned_wg cfg (apply_transport_tuning cfg wg)"
  by (simp add: tuned_wg_def apply_transport_tuning_def)

lemma tuned_simps [simp]:
  "am_disk (tuned cfg m) = am_disk m" "am_register_calls (tuned cfg m) = am_register_calls m"
  "am_last_register_attempt (tuned cfg m) = am_last_register_attempt m"
  by (simp_all add: tuned_def)

lemma fetch_config_simps [simp]:
  "am_disk (snd (fetch_config cfg env creds m)) = am_disk m"
  "am_register_calls (snd (fetch_config cfg env creds m)) = am_register_calls m"
  "am_last_register_attempt (snd (fetch_config cfg env creds m)) = am_last_register_attempt m"
  by (auto simp: fetch_config_def split: result.split)

lemma fetch_config_Ok:
  "fetch_config cfg env creds m = (Ok wg, m') \<longleftrightarrow>
     (\<exists>wg0. ev_get_config env creds = Ok wg0 \<and> wg = apply_transport_tuning cfg wg0 \<and> m' = tuned cfg m)"
  by (cases "ev_get_config env creds") (auto simp: fetch_config_def)

lemma register_candidate_simps [simp]:
  "am_disk (snd (register_candidate cfg env m)) = am_disk m"
  "am_register_calls (snd (register_candidate cfg env m)) = am_register_calls m"
  "am_last_register_attempt (snd (register_candidate cfg env m)) = am_last_register_attempt m"
  by (auto simp: register_candidate_def split: result.split prod.split)

lemma register_candidate_Ok:
  "register_candidate cfg env m = (Ok cand, m') \<longleftrightarrow>
     (\<exists>wg creds. ev_register env (wc_device_model cfg) (wc_license_key cfg) = Ok (wg, creds) \<and>
        cand = \<lparr>cd_wg_config = apply_transport_tuning cfg wg,
          cd_account_file = \<lparr>af_credentials = creds, af_registered_at = unix_secs (ev_wall_after env)\<rparr>\<rparr> \<and>
        m' = tuned cfg m)"
  by (cases "ev_register env (wc_device_model cfg) (wc_license_key cfg)")
    (auto simp: register_candidate_def)

fun config_tuned :: "warp_config \<Rightarrow> wireguard_config res \<Rightarrow> bool" where
  "config_tuned cfg (Ok wg) \<longleftrightarrow> tuned_wg cfg wg"
| "config_tuned cfg r \<longleftrightarrow> True"

lemma fetch_config_tuned [simp]: "config_tuned cfg (fst (fetch_config cfg env creds m))"
  by (auto simp: fetch_config_def split: result.split)

lemma register_candidate_tuned [simp]:
  "config_tuned cfg (map_res cd_wg_config (fst (register_candidate cfg env m)))"
  by (auto simp: register_candidate_def split: result.split prod.split)

lemma prepare_identity_eq:
  "prepare_identity js cfg env source m =
     (case load (js_dec js) (ev_load_fault env) source (am_disk m) of
        Ok (Some file) \<Rightarrow>
          (map_res (\<lambda>wg. \<lparr>cd_wg_config = wg, cd_account_file = file\<rparr>)
             (fst (fetch_config cfg env (af_credentials file) m)),
           snd (fetch_config cfg env (af_credentials file) m))
      | Ok None \<Rightarrow> (Err (Other (IdentityDisappeared (last source))), m)
      | Err e \<Rightarrow> (Err e, m)
      | Panic \<Rightarrow> (Panic, m))"
  by (auto simp: prepare_identity_def split: result.split option.split prod.split)

lemma prepare_keeps_disk [simp]:
  "am_disk (snd (prepare_reregister js cfg env m)) = am_disk m"
  "am_disk (snd (prepare_identity js cfg env source m)) = am_disk m"
  "am_disk (snd (refresh_config cfg env creds m)) = am_disk m"
  by (auto simp: prepare_reregister_def prepare_identity_eq refresh_config_def
      split: result.split option.split)

lemma prepared_tuned:
  "config_tuned cfg (map_res cd_wg_config (fst (prepare_reregister js cfg env m)))"
  "config_tuned cfg (map_res cd_wg_config (fst (prepare_identity js cfg env source m)))"
  "config_tuned cfg (fst (refresh_config cfg env creds m))"
proof -
  have "config_tuned cfg (map_res cd_wg_config (map_res (\<lambda>wg. \<lparr>cd_wg_config = wg, cd_account_file = file\<rparr>)
      (fst (fetch_config cfg env c m))))" for "file" c
    using fetch_config_tuned [of cfg env c m] by (cases "fst (fetch_config cfg env c m)") auto
  then show "config_tuned cfg (map_res cd_wg_config (fst (prepare_identity js cfg env source m)))"
    by (auto simp: prepare_identity_eq split: result.split option.split)
qed (auto simp: prepare_reregister_def refresh_config_def split: result.split)

text \<open>Property. Candidates are prepared without touching the current account. Preparing a re-registration,
  preparing a pooled identity and refreshing the configuration all leave the disk as it was, whether
  they succeed or fail; every configuration they hand out carries the configured MTU and TCP buffer
  size; and a pooled identity is handed out with exactly the account file it was read from.\<close>

theorem prepare_never_commits:
  "am_disk (snd (prepare_reregister js cfg env m)) = am_disk m \<and>
   am_disk (snd (prepare_identity js cfg env source m)) = am_disk m \<and>
   am_disk (snd (refresh_config cfg env creds m)) = am_disk m \<and>
   config_tuned cfg (map_res cd_wg_config (fst (prepare_reregister js cfg env m))) \<and>
   config_tuned cfg (map_res cd_wg_config (fst (prepare_identity js cfg env source m))) \<and>
   config_tuned cfg (fst (refresh_config cfg env creds m)) \<and>
   (case fst (prepare_identity js cfg env source m) of
      Ok cand \<Rightarrow> load (js_dec js) (ev_load_fault env) source (am_disk m) = Ok (Some (cd_account_file cand))
    | _ \<Rightarrow> True)"
proof -
  have "case fst (prepare_identity js cfg env source m) of
      Ok cand \<Rightarrow> load (js_dec js) (ev_load_fault env) source (am_disk m) = Ok (Some (cd_account_file cand))
    | _ \<Rightarrow> True"
  proof (cases "load (js_dec js) (ev_load_fault env) source (am_disk m)")
    case (Ok f)
    show ?thesis
    proof (cases f)
      case (Some "file")
      then show ?thesis
        by (cases "fst (fetch_config cfg env (af_credentials file) m)") (simp_all add: prepare_identity_eq Ok)
    qed (simp add: prepare_identity_eq Ok)
  qed (simp_all add: prepare_identity_eq)
  then show ?thesis using prepared_tuned by simp
qed

section \<open>What the manager needs of the registration service\<close>

text \<open>Every configuration the service gives for good credentials is good, registering gives good ones of
  both, and tuning the transport does not matter. Then every operation of the manager yields only good
  configurations and credentials, if those on the disk are good.\<close>

locale registration_service =
  fixes env :: api_env
    and good_config :: "wireguard_config \<Rightarrow> bool"
    and good_creds :: "warp_credentials \<Rightarrow> bool"
  assumes get_good: "ev_get_config env creds = Ok wg \<Longrightarrow> good_creds creds \<Longrightarrow> good_config wg"
    and register_good: "ev_register env model license = Ok (wg, creds) \<Longrightarrow> good_config wg \<and> good_creds creds"
    and tuning_good: "good_config (apply_transport_tuning cfg wg) \<longleftrightarrow> good_config wg"
begin

lemma fetch_good:
  "fetch_config cfg env creds m = (Ok wg, m') \<Longrightarrow> good_creds creds \<Longrightarrow> good_config wg"
  by (auto simp: fetch_config_Ok tuning_good get_good)

lemma candidate_good:
  "register_candidate cfg env m = (Ok cand, m') \<Longrightarrow>
     good_config (cd_wg_config cand) \<and> good_creds (af_credentials (cd_account_file cand))"
  by (cases "ev_register env (wc_device_model cfg) (wc_license_key cfg)")
    (auto simp: register_candidate_def tuning_good dest: register_good)

lemma loaded_good:
  assumes "\<forall>c f. js_dec js c = Some f \<longrightarrow> good_creds (af_credentials f)"
  shows "load (js_dec js) fault p disk = Ok (Some f) \<Longrightarrow> good_creds (af_credentials f)"
  using assms by (auto simp: load_def split: option.splits)

lemma refresh_good:
  assumes "good_creds creds"
  shows "case fst (refresh_config cfg env creds m) of Ok wg \<Rightarrow> good_config wg | _ \<Rightarrow> True"
  using fetch_good [OF _ assms]
  by (auto simp: refresh_config_def prod_eq_iff split: result.split)

lemma reregister_good:
  "case fst (prepare_reregister js cfg env m) of
     Ok cand \<Rightarrow> good_config (cd_wg_config cand) \<and> good_creds (af_credentials (cd_account_file cand)) | _ \<Rightarrow> True"
  using candidate_good by (auto simp: prepare_reregister_def prod_eq_iff split: result.splits)

lemma identity_good:
  assumes "\<forall>c f. js_dec js c = Some f \<longrightarrow> good_creds (af_credentials f)"
  shows "case fst (prepare_identity js cfg env source m) of
     Ok cand \<Rightarrow> good_config (cd_wg_config cand) \<and> good_creds (af_credentials (cd_account_file cand)) | _ \<Rightarrow> True"
  by (auto simp: prepare_identity_def split: prod.splits result.splits option.splits
      dest: loaded_good [OF assms] elim: fetch_good)

lemma load_or_register_good:
  assumes "\<forall>c f. js_dec js c = Some f \<longrightarrow> good_creds (af_credentials f)"
  shows "case fst (load_or_register js cfg env m) of
     Ok s \<Rightarrow> good_config (as_wg_config s) \<and> good_creds (as_credentials s) | _ \<Rightarrow> True"
  by (auto simp: load_or_register_def split: prod.splits result.splits option.splits
      dest: loaded_good [OF assms] candidate_good elim: fetch_good)

end

section \<open>Registration cooldown\<close>

text \<open>Any sequence of operations under one process, with a monotonic clock.\<close>

inductive account_reach :: "json_codec \<Rightarrow> warp_config \<Rightarrow> instant \<Rightarrow> account_manager \<Rightarrow> bool"
  for js :: json_codec and cfg :: warp_config
where
  start: "account_reach js cfg now
    \<lparr>am_disk = disk, am_last_register_attempt = None, am_effective_mtu = None, am_register_calls = []\<rparr>"
| first: "account_reach js cfg now m \<Longrightarrow> now \<le> ev_now env \<Longrightarrow>
    account_reach js cfg (ev_now env) (snd (load_or_register js cfg env m))"
| reregister: "account_reach js cfg now m \<Longrightarrow> now \<le> ev_now env \<Longrightarrow>
    account_reach js cfg (ev_now env) (snd (prepare_reregister js cfg env m))"
| refresh: "account_reach js cfg now m \<Longrightarrow> now \<le> ev_now env \<Longrightarrow>
    account_reach js cfg (ev_now env) (snd (refresh_config cfg env creds m))"
| identity: "account_reach js cfg now m \<Longrightarrow> now \<le> ev_now env \<Longrightarrow>
    account_reach js cfg (ev_now env) (snd (prepare_identity js cfg env source m))"
| commit: "account_reach js cfg now m \<Longrightarrow> now \<le> ev_now env \<Longrightarrow>
    account_reach js cfg (ev_now env) (snd (commit_candidate js cfg env file m))"

fun spaced :: "duration \<Rightarrow> instant list \<Rightarrow> bool" where
  "spaced d (t # u # ts) \<longleftrightarrow> u + d \<le> t \<and> spaced d (u # ts)"
| "spaced d ts \<longleftrightarrow> True"

definition calls_ok :: "warp_config \<Rightarrow> instant \<Rightarrow> account_manager \<Rightarrow> bool" where
  "calls_ok cfg now m \<longleftrightarrow>
     spaced (wc_register_cooldown cfg) (am_register_calls m) \<and>
     am_last_register_attempt m = (case am_register_calls m of [] \<Rightarrow> None | t # ts \<Rightarrow> Some t) \<and>
     (\<forall>t \<in> set (am_register_calls m). t \<le> now)"

lemma calls_ok_same:
  "calls_ok cfg now m \<Longrightarrow> now \<le> now' \<Longrightarrow> am_register_calls m' = am_register_calls m \<Longrightarrow>
     am_last_register_attempt m' = am_last_register_attempt m \<Longrightarrow> calls_ok cfg now' m'"
  by (auto simp: calls_ok_def)

lemma save_account_simps [simp]:
  "am_register_calls (snd (save_account js cfg env file m)) = am_register_calls m"
  "am_last_register_attempt (snd (save_account js cfg env file m)) = am_last_register_attempt m"
  by (simp_all add: save_account_def split: prod.split)

lemma load_or_register_eq:
  "load_or_register js cfg env m =
     (case load (js_dec js) (ev_load_fault env) (account_path cfg) (am_disk m) of
        Ok (Some file) \<Rightarrow>
          (map_res (\<lambda>wg. \<lparr>as_wg_config = wg, as_credentials = af_credentials file\<rparr>)
             (fst (fetch_config cfg env (af_credentials file) m)),
           snd (fetch_config cfg env (af_credentials file) m))
      | Ok None \<Rightarrow>
          (case fst (register_candidate cfg env m) of
             Ok cand \<Rightarrow>
               (map_res (\<lambda>u. \<lparr>as_wg_config = cd_wg_config cand,
                    as_credentials = af_credentials (cd_account_file cand)\<rparr>)
                  (fst (save_account js cfg env (cd_account_file cand) (snd (register_candidate cfg env m)))),
                snd (save_account js cfg env (cd_account_file cand) (snd (register_candidate cfg env m))))
           | Err e \<Rightarrow> (Err e, snd (register_candidate cfg env m))
           | Panic \<Rightarrow> (Panic, snd (register_candidate cfg env m)))
      | Err e \<Rightarrow> (Err e, m)
      | Panic \<Rightarrow> (Panic, m))"
  by (auto simp: load_or_register_def split: result.split option.split prod.split)

lemma other_ops_calls [simp]:
  "am_register_calls (snd (load_or_register js cfg env m)) = am_register_calls m"
  "am_last_register_attempt (snd (load_or_register js cfg env m)) = am_last_register_attempt m"
  "am_register_calls (snd (refresh_config cfg env creds m)) = am_register_calls m"
  "am_last_register_attempt (snd (refresh_config cfg env creds m)) = am_last_register_attempt m"
  "am_register_calls (snd (prepare_identity js cfg env source m)) = am_register_calls m"
  "am_last_register_attempt (snd (prepare_identity js cfg env source m)) = am_last_register_attempt m"
  "am_register_calls (snd (commit_candidate js cfg env file m)) = am_register_calls m"
  "am_last_register_attempt (snd (commit_candidate js cfg env file m)) = am_last_register_attempt m"
  by (auto simp: load_or_register_eq refresh_config_def prepare_identity_eq commit_candidate_def
      split: result.split option.split)

lemma reregister_calls:
  "snd (prepare_reregister js cfg env m) = m \<or>
   (reregister_guard js cfg env m = Ok () \<and>
    am_register_calls (snd (prepare_reregister js cfg env m)) = ev_now env # am_register_calls m \<and>
    am_last_register_attempt (snd (prepare_reregister js cfg env m)) = Some (ev_now env))"
  by (auto simp: prepare_reregister_def split: result.split)

lemma attempt_cooldown_Ok:
  "attempt_cooldown cfg env m = Ok () \<longleftrightarrow>
     (\<forall>t. am_last_register_attempt m = Some t \<longrightarrow> wc_register_cooldown cfg \<le> ev_now env - t)"
  by (auto simp: attempt_cooldown_def Let_def split: option.split)

lemma guard_Ok:
  "reregister_guard js cfg env m = Ok () \<Longrightarrow>
     attempt_cooldown cfg env m = Ok () \<and>
     (\<forall>file. load (js_dec js) (ev_load_fault env) (account_path cfg) (am_disk m) = Ok (Some file) \<longrightarrow>
        disk_cooldown cfg env file = Ok ())"
  by (auto simp: reregister_guard_def)

lemma reregister_calls_ok:
  assumes "calls_ok cfg now m" and "now \<le> ev_now env"
  shows "calls_ok cfg (ev_now env) (snd (prepare_reregister js cfg env m))"
  using reregister_calls [of js cfg env m]
proof
  assume "snd (prepare_reregister js cfg env m) = m"
  then show ?thesis using calls_ok_same [OF assms] by simp
next
  assume a: "reregister_guard js cfg env m = Ok () \<and>
    am_register_calls (snd (prepare_reregister js cfg env m)) = ev_now env # am_register_calls m \<and>
    am_last_register_attempt (snd (prepare_reregister js cfg env m)) = Some (ev_now env)"
  have "attempt_cooldown cfg env m = Ok ()" using a guard_Ok by blast
  then have "spaced (wc_register_cooldown cfg) (ev_now env # am_register_calls m)"
    using assms by (cases "am_register_calls m") (auto simp: calls_ok_def attempt_cooldown_Ok)
  then show ?thesis using a assms by (fastforce simp: calls_ok_def)
qed

lemma account_reach_calls: "account_reach js cfg now m \<Longrightarrow> calls_ok cfg now m"
proof (induction rule: account_reach.induct)
  case (start now disk)
  show ?case by (simp add: calls_ok_def)
next
  case (reregister now m env)
  then show ?case by (simp add: reregister_calls_ok)
qed (auto elim: calls_ok_same)

lemma spaced_nth: "spaced d ts \<Longrightarrow> Suc i < length ts \<Longrightarrow> ts ! Suc i + d \<le> ts ! i"
proof (induction d ts arbitrary: i rule: spaced.induct)
  case (1 d t u ts)
  then show ?case by (cases i) auto
qed auto

lemma disk_cooldown_Ok:
  "disk_cooldown cfg env f = Ok () \<longleftrightarrow>
     unat (af_registered_at f) < 2 ^ 63 \<and>
     (ev_wall env < int (from_secs (unat (af_registered_at f))) \<or>
      int (from_secs (unat (af_registered_at f))) + int (wc_register_cooldown cfg) \<le> ev_wall env)"
  by (auto simp: disk_cooldown_def Let_def)

text \<open>Property. The registration cooldown, over any sequence of operations of a running process. Any two
  consecutive \<open>register\<close> calls made for a re-registration are at least the configured cooldown apart,
  failed ones included; and such a call is made only if the account file on disk, when there is one,
  is at least the cooldown old on the wall clock (or claims a time in the future).\<close>

theorem register_cooldown_respected:
  assumes "account_reach js cfg now m"
  shows "(\<forall>i. Suc i < length (am_register_calls m) \<longrightarrow>
      am_register_calls m ! Suc i + wc_register_cooldown cfg \<le> am_register_calls m ! i) \<and>
    (\<forall>f. load (js_dec js) (ev_load_fault env) (account_path cfg) (am_disk m) = Ok (Some f) \<longrightarrow>
      am_register_calls (snd (prepare_reregister js cfg env m)) \<noteq> am_register_calls m \<longrightarrow>
      ev_wall env < int (from_secs (unat (af_registered_at f))) \<or>
      int (from_secs (unat (af_registered_at f))) + int (wc_register_cooldown cfg) \<le> ev_wall env)"
proof -
  have "spaced (wc_register_cooldown cfg) (am_register_calls m)"
    using account_reach_calls [OF assms] by (simp add: calls_ok_def)
  moreover have "disk_cooldown cfg env f = Ok ()"
    if "load (js_dec js) (ev_load_fault env) (account_path cfg) (am_disk m) = Ok (Some f)"
      and "am_register_calls (snd (prepare_reregister js cfg env m)) \<noteq> am_register_calls m" for f
    using that reregister_calls [of js cfg env m] guard_Ok [of js cfg env m] by auto
  ultimately show ?thesis using spaced_nth disk_cooldown_Ok by blast
qed

definition example_creds :: warp_credentials where
  "example_creds = \<lparr>cr_device_id = ''dev'', cr_access_token = ''tok'', cr_private_key = [],
     cr_license_key = [], cr_client_id = None, cr_is_teams = False\<rparr>"

definition example_file :: account_file where
  "example_file = \<lparr>af_credentials = example_creds, af_registered_at = 5\<rparr>"

definition example_codec :: json_codec where
  "example_codec = \<lparr>js_enc = (\<lambda>f. if f = example_file then Some [1] else None),
     js_dec = (\<lambda>c. if c = [1] then Some example_file else None)\<rparr>"

definition example_env :: api_env where
  "example_env = \<lparr>ev_now = 7, ev_wall = 5000000000, ev_wall_after = 5000000000,
     ev_get_config = (\<lambda>c. Ok example_wg), ev_register = (\<lambda>d l. Ok (example_wg, example_creds)),
     ev_load_fault = None, ev_save_fault = (\<lambda>i. None), ev_tmp = [''data'', ''tmp'']\<rparr>"

definition empty_manager :: account_manager where
  "empty_manager = \<lparr>am_disk = fs_at Map.empty {}, am_last_register_attempt = None,
     am_effective_mtu = None, am_register_calls = []\<rparr>"

definition twice_registered :: account_manager where
  "twice_registered = snd (prepare_reregister example_codec default_warp
     (example_env\<lparr>ev_now := 7 + wc_register_cooldown default_warp\<rparr>)
     (snd (prepare_reregister example_codec default_warp example_env empty_manager)))"

lemma twice_registered_calls:
  "am_register_calls twice_registered = [7 + wc_register_cooldown default_warp, 7]"
proof -
  let ?m = "snd (prepare_reregister example_codec default_warp example_env empty_manager)"
  have guard: "reregister_guard example_codec default_warp env m = Ok ()"
    if "am_disk m = am_disk empty_manager" "ev_load_fault env = None" "attempt_cooldown default_warp env m = Ok ()"
    for env m
    using that by (simp add: reregister_guard_def load_def empty_manager_def)
  have "reregister_guard example_codec default_warp example_env empty_manager = Ok ()"
    by (rule guard) (simp_all add: attempt_cooldown_Ok example_env_def empty_manager_def)
  then have 1: "am_register_calls ?m = [7] \<and> am_last_register_attempt ?m = Some 7 \<and> am_disk ?m = am_disk empty_manager"
    by (simp add: prepare_reregister_def example_env_def empty_manager_def)
  have "reregister_guard example_codec default_warp
      (example_env\<lparr>ev_now := 7 + wc_register_cooldown default_warp\<rparr>) ?m = Ok ()"
    by (rule guard) (simp_all add: attempt_cooldown_Ok 1, simp_all add: example_env_def)
  then show ?thesis
    using 1 by (simp add: twice_registered_def prepare_reregister_def)
qed

theorem register_cooldown_respected_witness:
  "am_register_calls twice_registered ! 1 + wc_register_cooldown default_warp \<le>
     am_register_calls twice_registered ! 0 \<and> length (am_register_calls twice_registered) = 2"
proof -
  have "account_reach example_codec default_warp (7 + wc_register_cooldown default_warp) twice_registered"
    unfolding twice_registered_def empty_manager_def
    using account_reach.reregister [OF account_reach.reregister [OF account_reach.start [where now = 0]],
        where env = "example_env\<lparr>ev_now := 7 + wc_register_cooldown default_warp\<rparr>" and env1 = example_env]
    by (simp add: example_env_def)
  from register_cooldown_respected [OF this] have
    "Suc 0 < length (am_register_calls twice_registered) \<longrightarrow>
      am_register_calls twice_registered ! Suc 0 + wc_register_cooldown default_warp \<le>
        am_register_calls twice_registered ! 0" by blast
  then show ?thesis by (simp add: twice_registered_calls)
qed

section \<open>Restart\<close>

text \<open>Property. A restart keeps the identity. After a start-up that found no account file and succeeded, the
  next start-up does not register again: it uses the saved credentials with whatever configuration
  the API returns for them, and leaves the disk alone. (The JSON codec is assumed to read back what
  it wrote.)\<close>

theorem restart_keeps_identity:
  assumes "\<And>f c. js_enc js f = Some c \<Longrightarrow> js_dec js c = Some f"
    and "load (js_dec js) (ev_load_fault env) (account_path cfg) (am_disk m) = Ok None"
    and "load_or_register js cfg env m = (Ok snap, m')"
    and "fs_files (am_disk m) (ev_tmp env) = None" and "ev_tmp env \<noteq> account_path cfg"
    and "ev_load_fault env' = None"
  shows "fst (load_or_register js cfg env' m') =
      map_res (\<lambda>wg. \<lparr>as_wg_config = apply_transport_tuning cfg wg, as_credentials = as_credentials snap\<rparr>)
        (from_warp (ev_get_config env' (as_credentials snap))) \<and>
    am_disk (snd (load_or_register js cfg env' m')) = am_disk m'"
proof -
  obtain cand m1 where reg: "register_candidate cfg env m = (Ok cand, m1)"
    using assms(2,3) by (cases "register_candidate cfg env m"; cases "fst (register_candidate cfg env m)")
      (auto simp: load_or_register_def)
  have m1: "am_disk m1 = am_disk m" using register_candidate_simps(1) [of cfg env m] by (simp add: reg)
  obtain disk where saved: "save (js_enc js) (ev_save_fault env) (ev_tmp env) (account_path cfg)
      (cd_account_file cand) (am_disk m) = (Ok (), disk)"
    and snap: "as_credentials snap = af_credentials (cd_account_file cand)" and m': "am_disk m' = disk"
    using assms(2,3) by (auto simp: load_or_register_def reg save_account_def m1
        split: prod.splits result.splits)
  have "load (js_dec js) None (account_path cfg) disk = Ok (Some (cd_account_file cand))"
  proof -
    have "save_result (account_path cfg) (js_enc js (cd_account_file cand)) (am_disk m) (Ok ()) disk"
      using save_result [OF assms(4,5), where enc = "js_enc js" and fault = "ev_save_fault env"
          and v = "cd_account_file cand"] by (simp add: saved)
    then show ?thesis using assms(1) by (auto simp: save_result_def load_def)
  qed
  then show ?thesis
    by (cases "ev_get_config env' (af_credentials (cd_account_file cand))")
      (simp_all add: load_or_register_eq m' assms(6) snap fetch_config_def)
qed

lemma example_first_start:
  "load_or_register example_codec default_warp example_env empty_manager =
     (Ok \<lparr>as_wg_config = apply_transport_tuning default_warp example_wg, as_credentials = example_creds\<rparr>,
      snd (load_or_register example_codec default_warp example_env empty_manager))"
  and example_no_account:
  "load (js_dec example_codec) (ev_load_fault example_env) (account_path default_warp) (am_disk empty_manager)
     = Ok None"
proof -
  have secs: "unix_secs (ev_wall_after example_env) = 5"
    by (simp add: example_env_def unix_secs_def as_secs_def)
  show l: "load (js_dec example_codec) (ev_load_fault example_env) (account_path default_warp)
      (am_disk empty_manager) = Ok None"
    by (simp add: load_def example_env_def empty_manager_def)
  have reg: "register_candidate default_warp example_env empty_manager =
      (Ok \<lparr>cd_wg_config = apply_transport_tuning default_warp example_wg, cd_account_file = example_file\<rparr>,
       tuned default_warp empty_manager)"
    using secs by (simp add: register_candidate_def example_env_def example_file_def)
  have "fst (save_account example_codec default_warp example_env example_file m) = Ok ()" for m
    by (simp add: save_account_def save_def path_parent_def account_path_def example_env_def
        example_codec_def save_steps_def Let_def split: prod.split)
  then show "load_or_register example_codec default_warp example_env empty_manager =
     (Ok \<lparr>as_wg_config = apply_transport_tuning default_warp example_wg, as_credentials = example_creds\<rparr>,
      snd (load_or_register example_codec default_warp example_env empty_manager))"
    by (simp add: load_or_register_eq l reg example_file_def [of] prod_eq_iff) 
qed

theorem restart_keeps_identity_witness:
  "fst (load_or_register example_codec default_warp example_env
     (snd (load_or_register example_codec default_warp example_env empty_manager))) =
   Ok \<lparr>as_wg_config = apply_transport_tuning default_warp example_wg, as_credentials = example_creds\<rparr>"
proof -
  have c: "js_enc example_codec f = Some c \<Longrightarrow> js_dec example_codec c = Some f" for f c
    by (simp add: example_codec_def split: if_splits)
  have "ev_get_config example_env example_creds = Ok example_wg" "ev_load_fault example_env = None"
    "fs_files (am_disk empty_manager) (ev_tmp example_env) = None"
    "ev_tmp example_env \<noteq> account_path default_warp"
    by (simp_all add: example_env_def empty_manager_def account_path_def default_warp_def)
  then show ?thesis
    using restart_keeps_identity [OF c example_no_account example_first_start, where env' = example_env]
    by simp
qed

section \<open>Identity rotation\<close>

fun take_identities :: "nat \<Rightarrow> identity_pool \<Rightarrow> path option list" where
  "take_identities 0 pool = []"
| "take_identities (Suc n) pool = (let (r, pool') = next_identity pool in r # take_identities n pool')"

lemma take_identities_nth:
  "ip_files pool \<noteq> [] \<Longrightarrow> ip_next_idx pool + n \<le> 2 ^ 64 \<Longrightarrow>
     take_identities n pool =
       map (\<lambda>k. Some (ip_files pool ! ((ip_next_idx pool + k) mod length (ip_files pool)))) [0..<n]"
proof (induction n arbitrary: pool)
  case (Suc n)
  define q where "q = pool\<lparr>ip_next_idx := (ip_next_idx pool + 1) mod 2 ^ 64\<rparr>"
  have n: "next_identity pool = (Some (ip_files pool ! (ip_next_idx pool mod length (ip_files pool))), q)"
    using Suc.prems by (simp add: next_identity_def q_def)
  have "take_identities n q =
      map (\<lambda>k. Some (ip_files pool ! ((ip_next_idx pool + Suc k) mod length (ip_files pool)))) [0..<n]"
  proof (cases n)
    case (Suc m)
    then have "ip_next_idx q = ip_next_idx pool + 1" using Suc.prems by (simp add: q_def)
    then show ?thesis using Suc.IH [of q] Suc.prems by (simp add: q_def)
  qed simp
  then show ?case by (simp add: n upt_conv_Cons map_Suc_upt [symmetric] del: upt_Suc)
qed simp

text \<open>Property. Rotation is fair. From a freshly loaded pool, the \<open>k\<close>-th rotation hands out the \<open>k\<close>-th identity
  file of the directory in name order, wrapping around, so that any round of as many rotations as
  there are files uses each file exactly once; the pool consists of exactly the \<open>.json\<close> entries, and
  an empty or missing directory gives no identity.\<close>

theorem identity_rotation_fair:
  assumes "pool_load dir = Ok pool" and "n \<le> 2 ^ 64"
  shows "take_identities n pool =
      (if ip_files pool = [] then replicate n None
       else map (\<lambda>k. Some (ip_files pool ! (k mod length (ip_files pool)))) [0..<n]) \<and>
    sorted (map path_key (ip_files pool)) \<and>
    set (ip_files pool) =
      {p. has_json_extension p \<and> (\<exists>es. dir = DirEntries es \<and> Some p \<in> set es)}"
proof -
  have empty: "take_identities n pool = replicate n None" if "ip_files pool = []"
    using that by (induction n) (simp_all add: next_identity_def)
  have "ip_next_idx pool = 0" using assms(1) by (auto simp: pool_load_def split: dir_listing.splits)
  then have "take_identities n pool =
      (if ip_files pool = [] then replicate n None
       else map (\<lambda>k. Some (ip_files pool ! (k mod length (ip_files pool)))) [0..<n])"
    using empty take_identities_nth [of pool n] assms(2) by simp
  moreover have "sorted (map path_key (ip_files pool))"
    using assms(1) by (auto simp: pool_load_def split: dir_listing.splits)
  moreover have "set (ip_files pool) =
      {p. has_json_extension p \<and> (\<exists>es. dir = DirEntries es \<and> Some p \<in> set es)}"
    using assms(1) by (force simp: pool_load_def split: dir_listing.splits)
  ultimately show ?thesis by blast
qed

theorem identity_rotation_fair_witness:
  "take_identities 3 \<lparr>ip_files = [[''a.json''], [''b.json'']], ip_next_idx = 0\<rparr> =
     [Some [''a.json''], Some [''b.json''], Some [''a.json'']]"
proof -
  have "pool_load (DirEntries [Some [''b.json''], Some [''x.txt''], None, Some [''a.json'']]) =
      Ok \<lparr>ip_files = [[''a.json''], [''b.json'']], ip_next_idx = 0\<rparr>"
    by code_simp
  from identity_rotation_fair [OF this, of 3] show ?thesis by (simp add: upt_rec)
qed

end
