(* ===== verification/Supervisor.thy ===== *)
theory Supervisor
  imports Prelude Net_Types Config Endpoints Generations Health Persistence Account
begin

text \<open>
  \<open>src/supervisor.rs\<close>: the recovery state machine. It consumes the events of the health probe and the
  refresh timer, climbs the ladder of recovery actions with exponential backoff, and switches tunnel,
  configuration and credentials together. The tunnel is the model of \<open>Generations\<close>, the account
  manager that of \<open>Account\<close>; handshakes, API and clocks are inputs of each event.
\<close>

section \<open>Model\<close>

datatype recovery_action = NoAction | Reconnect | RebuildConfig | Reregister | RotateIdentity

fun action_rank :: "recovery_action \<Rightarrow> nat" where
  "action_rank NoAction = 0"
| "action_rank Reconnect = 1"
| "action_rank RebuildConfig = 2"
| "action_rank Reregister = 3"
| "action_rank RotateIdentity = 4"

lemma action_rank_inj: "action_rank a = action_rank b \<longleftrightarrow> a = b"
  by (cases a; cases b) auto

text \<open>Actions are ordered by how drastic they are.\<close>

instantiation recovery_action :: linorder
begin

definition less_eq_recovery_action :: "recovery_action \<Rightarrow> recovery_action \<Rightarrow> bool" where
  "less_eq_recovery_action a b \<longleftrightarrow> action_rank a \<le> action_rank b"

definition less_recovery_action :: "recovery_action \<Rightarrow> recovery_action \<Rightarrow> bool" where
  "less_recovery_action a b \<longleftrightarrow> action_rank a < action_rank b"

instance
  by intro_classes (auto simp: less_eq_recovery_action_def less_recovery_action_def action_rank_inj)

end

record 'm supervisor =
  sv_healthy :: bool
  sv_failures :: u8
  sv_last_recovery :: "instant option"
  sv_creds :: warp_credentials
  sv_wg_config :: wireguard_config
  sv_pool :: identity_pool
  sv_account :: account_manager
  sv_tunnel :: "'m tunnel_state"
  sv_backoffs :: "nat list"
  sv_rebuilds :: nat
  sv_reregisters :: nat
  sv_rotations :: nat

text \<open>What handling one event finds outside: the API as seen by the preparation, the refresh and the
  commit; what \<open>connect_candidate\<close> returns; how much time passes until the switch; the clock when the
  recovery completes.\<close>

record 'm sup_env =
  se_prepare :: api_env
  se_refresh :: api_env
  se_commit :: api_env
  se_connect :: "wireguard_config \<Rightarrow> ('m \<times> wireguard_config) res"
  se_elapsed :: duration
  se_runtime :: bool
  se_completed :: instant

definition supervisor_new ::
  "account_manager \<Rightarrow> 'm tunnel_state \<Rightarrow> identity_pool \<Rightarrow> warp_credentials \<Rightarrow> wireguard_config \<Rightarrow> 'm supervisor" where
  "supervisor_new account tunnel pool creds wg =
     \<lparr>sv_healthy = False, sv_failures = 0, sv_last_recovery = None, sv_creds = creds, sv_wg_config = wg,
      sv_pool = pool, sv_account = account, sv_tunnel = tunnel, sv_backoffs = [], sv_rebuilds = 0,
      sv_reregisters = 0, sv_rotations = 0\<rparr>"

definition probe_is_stale :: "instant \<Rightarrow> 'm supervisor \<Rightarrow> bool" where
  "probe_is_stale observed_at s \<longleftrightarrow>
     (case sv_last_recovery s of None \<Rightarrow> False | Some completed \<Rightarrow> observed_at \<le> completed)"

definition action_for :: "recovery_config \<Rightarrow> u8 \<Rightarrow> recovery_action" where
  "action_for r n =
     (if rc_rotate_identity_after r \<le> n then RotateIdentity
      else if rc_reregister_after r \<le> n then Reregister
      else if rc_rebuild_config_after r \<le> n then RebuildConfig
      else if rc_reconnect_after r \<le> n then Reconnect
      else NoAction)"

definition u64_max :: nat where "u64_max = 2 ^ 64 - 1"

definition backoff_ms :: "recovery_config \<Rightarrow> u8 \<Rightarrow> nat" where
  "backoff_ms r n =
     (let min_ms = as_millis (rc_backoff_min r) mod 2 ^ 64;
          max_ms = as_millis (rc_backoff_max r) mod 2 ^ 64;
          exp = min (unat n - 1) 16
      in min (min (min_ms * min (2 ^ exp) u64_max) u64_max) max_ms)"

text \<open>The switch itself: \<open>Tunnel::replace\<close> at the time it is reached.\<close>

definition switch_tunnel :: "'m sup_env \<Rightarrow> 'm \<Rightarrow> replace_reason \<Rightarrow> 'm supervisor \<Rightarrow> 'm supervisor" where
  "switch_tunnel env managed reason s =
     s\<lparr>sv_tunnel := replace default_generation_policy (se_runtime env) managed reason
          ((sv_tunnel s)\<lparr>ts_now := ts_now (sv_tunnel s) + se_elapsed env\<rparr>)\<rparr>"

text \<open>\<open>Tunnel::rebuild\<close>.\<close>

definition rebuild ::
  "'m sup_env \<Rightarrow> wireguard_config \<Rightarrow> replace_reason \<Rightarrow> 'm supervisor \<Rightarrow> wireguard_config res \<times> 'm supervisor" where
  "rebuild env wg reason s =
     (case se_connect env wg of
        Ok (managed, config) \<Rightarrow> (Ok config, switch_tunnel env managed reason s)
      | Err e \<Rightarrow> (Err e, s)
      | Panic \<Rightarrow> (Panic, s))"

definition rebuild_and_store ::
  "'m sup_env \<Rightarrow> wireguard_config \<Rightarrow> replace_reason \<Rightarrow> 'm supervisor \<Rightarrow> unit res \<times> 'm supervisor" where
  "rebuild_and_store env wg reason s =
     (case rebuild env wg reason s of
        (Ok active, s1) \<Rightarrow> (Ok (), s1\<lparr>sv_wg_config := active, sv_rebuilds := sv_rebuilds s1 + 1\<rparr>)
      | (Err e, s1) \<Rightarrow> (Err e, s1)
      | (Panic, s1) \<Rightarrow> (Panic, s1))"

definition action_reconnect :: "'m sup_env \<Rightarrow> 'm supervisor \<Rightarrow> unit res \<times> 'm supervisor" where
  "action_reconnect env s = rebuild_and_store env (sv_wg_config s) Recovery s"

definition action_rebuild_config ::
  "warp_config \<Rightarrow> 'm sup_env \<Rightarrow> replace_reason \<Rightarrow> 'm supervisor \<Rightarrow> unit res \<times> 'm supervisor" where
  "action_rebuild_config cfg env reason s =
     (let (r, m) = refresh_config cfg (se_refresh env) (sv_creds s) (sv_account s);
          s1 = s\<lparr>sv_account := m\<rparr>
      in case r of
           Ok wg \<Rightarrow> rebuild_and_store env wg reason s1
         | Err e \<Rightarrow> (Err e, s1)
         | Panic \<Rightarrow> (Panic, s1))"

text \<open>The candidate's handshake, the commit of its account, then the switch of credentials,
  configuration and tunnel.\<close>

definition activate_candidate ::
  "json_codec \<Rightarrow> warp_config \<Rightarrow> 'm sup_env \<Rightarrow> account_candidate \<Rightarrow> 'm supervisor \<Rightarrow> unit res \<times> 'm supervisor" where
  "activate_candidate js cfg env cand s =
     (case se_connect env (cd_wg_config cand) of
        Err e \<Rightarrow> (Err e, s)
      | Panic \<Rightarrow> (Panic, s)
      | Ok (managed, config) \<Rightarrow>
          (let (r, m) = commit_candidate js cfg (se_commit env) (cd_account_file cand) (sv_account s);
               s1 = s\<lparr>sv_account := m\<rparr>
           in case r of
                Err e \<Rightarrow> (Err e, s1)
              | Panic \<Rightarrow> (Panic, s1)
              | Ok u \<Rightarrow>
                  (Ok (), switch_tunnel env managed Recovery
                     (s1\<lparr>sv_creds := af_credentials (cd_account_file cand), sv_wg_config := config,
                         sv_rebuilds := sv_rebuilds s1 + 1\<rparr>))))"

definition action_reregister ::
  "json_codec \<Rightarrow> warp_config \<Rightarrow> 'm sup_env \<Rightarrow> 'm supervisor \<Rightarrow> unit res \<times> 'm supervisor" where
  "action_reregister js cfg env s =
     (let (r, m) = prepare_reregister js cfg (se_prepare env) (sv_account s);
          s1 = s\<lparr>sv_account := m\<rparr>
      in case r of
           Ok cand \<Rightarrow>
             (case activate_candidate js cfg env cand s1 of
                (Ok u, s2) \<Rightarrow> (Ok (), s2\<lparr>sv_reregisters := sv_reregisters s2 + 1\<rparr>)
              | (Err e, s2) \<Rightarrow> (Err e, s2)
              | (Panic, s2) \<Rightarrow> (Panic, s2))
         | Err e \<Rightarrow> action_rebuild_config cfg env Recovery s1
         | Panic \<Rightarrow> (Panic, s1))"

definition action_rotate ::
  "json_codec \<Rightarrow> warp_config \<Rightarrow> 'm sup_env \<Rightarrow> 'm supervisor \<Rightarrow> unit res \<times> 'm supervisor" where
  "action_rotate js cfg env s =
     (let (nxt, pool) = next_identity (sv_pool s); s1 = s\<lparr>sv_pool := pool\<rparr> in
      case nxt of
        Some path \<Rightarrow>
          (let (r, m) = prepare_identity js cfg (se_prepare env) path (sv_account s1);
               s2 = s1\<lparr>sv_account := m\<rparr>
           in case r of
                Ok cand \<Rightarrow>
                  (case activate_candidate js cfg env cand s2 of
                     (Ok u, s3) \<Rightarrow> (Ok (), s3\<lparr>sv_rotations := sv_rotations s3 + 1\<rparr>)
                   | (Err e, s3) \<Rightarrow> (Err e, s3)
                   | (Panic, s3) \<Rightarrow> (Panic, s3))
              | Err e \<Rightarrow> (Err e, s2)
              | Panic \<Rightarrow> (Panic, s2))
      | None \<Rightarrow> action_reregister js cfg env s1)"

definition run_action ::
  "json_codec \<Rightarrow> warp_config \<Rightarrow> 'm sup_env \<Rightarrow> recovery_action \<Rightarrow> 'm supervisor \<Rightarrow> unit res \<times> 'm supervisor" where
  "run_action js cfg env action s =
     (case action of
        NoAction \<Rightarrow> (Ok (), s)
      | Reconnect \<Rightarrow> action_reconnect env s
      | RebuildConfig \<Rightarrow> action_rebuild_config cfg env Recovery s
      | Reregister \<Rightarrow> action_reregister js cfg env s
      | RotateIdentity \<Rightarrow> action_rotate js cfg env s)"

definition escalate ::
  "json_codec \<Rightarrow> config \<Rightarrow> 'm sup_env \<Rightarrow> recovery_action \<Rightarrow> 'm supervisor \<Rightarrow> unit res \<times> 'm supervisor" where
  "escalate js cfg env action s =
     (let s1 = s\<lparr>sv_backoffs := backoff_ms (cfg_recovery cfg) (sv_failures s) # sv_backoffs s\<rparr> in
      if action = NoAction then (Ok (), s1)
      else case run_action js (cfg_warp cfg) env action s1 of
          (Ok u, s2) \<Rightarrow> (Ok (), s2\<lparr>sv_last_recovery := Some (se_completed env)\<rparr>)
        | (Err e, s2) \<Rightarrow> (Err e, s2)
        | (Panic, s2) \<Rightarrow> (Panic, s2))"

definition handle_event ::
  "json_codec \<Rightarrow> config \<Rightarrow> 'm sup_env \<Rightarrow> supervisor_event \<Rightarrow> 'm supervisor \<Rightarrow> unit res \<times> 'm supervisor" where
  "handle_event js cfg env evt s =
     (case evt of
        ProbeOk observed_at \<Rightarrow>
          if probe_is_stale observed_at s then (Ok (), s)
          else (Ok (), s\<lparr>sv_healthy := True, sv_failures := if 0 < sv_failures s then 0 else sv_failures s\<rparr>)
      | ProbeFailed reason observed_at \<Rightarrow>
          if probe_is_stale observed_at s then (Ok (), s)
          else
            let n = u8_saturating_inc (sv_failures s);
                s1 = s\<lparr>sv_healthy := False, sv_failures := n\<rparr>
            in escalate js cfg env (action_for (cfg_recovery cfg) n) s1
      | RefreshTick \<Rightarrow>
          (case action_rebuild_config (cfg_warp cfg) env Refresh s of
             (Panic, s1) \<Rightarrow> (Panic, s1)
           | (r, s1) \<Rightarrow> (Ok (), s1)))"

text \<open>The dispatch loop: events in order, errors only logged; a panicking handler ends it.\<close>

fun supervisor_run ::
  "json_codec \<Rightarrow> config \<Rightarrow> ('m sup_env \<times> supervisor_event) list \<Rightarrow> 'm supervisor \<Rightarrow> 'm supervisor" where
  "supervisor_run js cfg [] s = s"
| "supervisor_run js cfg ((env, evt) # evs) s =
     (let (r, s1) = handle_event js cfg env evt s
      in if r = Panic then s1 else supervisor_run js cfg evs s1)"

text \<open>What the biased select of \<open>Supervisor::run\<close> takes: the cancellation, the end of a background task
  (the probe loop or the refresh timer), or an event.\<close>

datatype background_end = BackgroundReturned | BackgroundDied string

datatype 'm loop_input = CancelLoop | BackgroundEnded background_end | Dispatch "'m sup_env" supervisor_event

definition background_error :: "background_end \<Rightarrow> error" where
  "background_error e =
     (case e of
        BackgroundReturned \<Rightarrow> other ''supervisor background task exited unexpectedly''
      | BackgroundDied text \<Rightarrow> other (''supervisor background task failed: '' @ text))"

text \<open>\<open>None\<close>: the loop is still waiting when the inputs are used up.\<close>

fun supervisor_loop ::
  "json_codec \<Rightarrow> config \<Rightarrow> 'm loop_input list \<Rightarrow> 'm supervisor \<Rightarrow> unit res option \<times> 'm supervisor" where
  "supervisor_loop js cfg [] s = (None, s)"
| "supervisor_loop js cfg (CancelLoop # ins) s = (Some (Ok ()), s)"
| "supervisor_loop js cfg (BackgroundEnded e # ins) s = (Some (Err (background_error e)), s)"
| "supervisor_loop js cfg (Dispatch env evt # ins) s =
     (let (r, s1) = handle_event js cfg env evt s
      in if r = Panic then (Some Panic, s1) else supervisor_loop js cfg ins s1)"

fun dispatched :: "'m loop_input list \<Rightarrow> ('m sup_env \<times> supervisor_event) list" where
  "dispatched (Dispatch env evt # ins) = (env, evt) # dispatched ins"
| "dispatched ins = []"

text \<open>The background tasks started: the refresh timer only for a non-zero interval.\<close>

definition background_tasks :: "config \<Rightarrow> string list" where
  "background_tasks cfg =
     ''probe_loop'' # (if wc_refresh_interval (cfg_warp cfg) \<noteq> 0 then [''refresh_timer''] else [])"

section \<open>The ladder\<close>

fun action_threshold :: "recovery_config \<Rightarrow> recovery_action \<Rightarrow> u8" where
  "action_threshold r NoAction = 0"
| "action_threshold r Reconnect = rc_reconnect_after r"
| "action_threshold r RebuildConfig = rc_rebuild_config_after r"
| "action_threshold r Reregister = rc_reregister_after r"
| "action_threshold r RotateIdentity = rc_rotate_identity_after r"

lemma action_for_greatest:
  "action_threshold r (action_for r n) \<le> n" "action_threshold r a \<le> n \<Longrightarrow> a \<le> action_for r n"
  by (simp_all add: action_for_def) (cases a; simp add: less_eq_recovery_action_def)

text \<open>Property. The recovery ladder: after \<open>n\<close> consecutive failures the action is the most drastic one whose
  threshold has been reached, however the thresholds are ordered; more failures never give a milder
  action; and once the lowest threshold is reached there is always an action.\<close>

theorem action_ladder:
  "action_threshold r (action_for r n) \<le> n \<and>
   (\<forall>a. action_threshold r a \<le> n \<longrightarrow> a \<le> action_for r n) \<and>
   (\<forall>m. n \<le> m \<longrightarrow> action_for r n \<le> action_for r m) \<and>
   (rc_reconnect_after r \<le> n \<longrightarrow> action_for r n \<noteq> NoAction)"
proof -
  have "action_for r n \<le> action_for r m" if "n \<le> m" for m
    using action_for_greatest(1) [of r n] that by (intro action_for_greatest(2)) (rule order_trans)
  then show ?thesis
    using action_for_greatest(1) [of r n] action_for_greatest(2) [of r _ n] by (auto simp: action_for_def)
qed

theorem action_ladder_witness:
  "Reconnect \<le> action_for default_recovery 1 \<and> action_for default_recovery 1 \<le> action_for default_recovery 7"
proof -
  have "rc_reconnect_after default_recovery = 1" by (simp add: default_recovery_def)
  then show ?thesis using action_ladder [of default_recovery 1] by (auto elim!: allE [of _ Reconnect] allE [of _ 7])
qed

section \<open>Backoff\<close>

text \<open>Property. The backoff never exceeds its maximum (nor undercuts a minimum below it), never decreases with
  the number of failures, and below the cap it is exactly the minimum doubled once for each failure
  after the first, up to sixteen times.\<close>

theorem backoff_exponential:
  assumes "as_millis (rc_backoff_max r) < 2 ^ 47" and "as_millis (rc_backoff_min r) \<le> as_millis (rc_backoff_max r)"
  shows "backoff_ms r n = min (as_millis (rc_backoff_min r) * 2 ^ min (unat n - 1) 16) (as_millis (rc_backoff_max r)) \<and>
    as_millis (rc_backoff_min r) \<le> backoff_ms r n \<and> backoff_ms r n \<le> as_millis (rc_backoff_max r) \<and>
    (\<forall>m. n \<le> m \<longrightarrow> backoff_ms r n \<le> backoff_ms r m)"
proof -
  define lo where "lo = as_millis (rc_backoff_min r)"
  define hi where "hi = as_millis (rc_backoff_max r)"
  have lohi: "lo \<le> hi" "hi < 2 ^ 47" using assms by (auto simp: lo_def hi_def)
  have eq: "backoff_ms r n = min (lo * 2 ^ min (unat n - 1) 16) hi" for n
  proof -
    define e where "e = min (unat n - 1) 16"
    have "(2::nat) ^ e \<le> 2 ^ 16" by (rule power_increasing) (auto simp: e_def)
    then have p: "(2::nat) ^ e \<le> 65536" by simp
    have "lo * 2 ^ e \<le> hi * 65536" using lohi(1) p by (rule mult_le_mono)
    then have "lo * 2 ^ e \<le> 2 ^ 64 - 1" using lohi(2) by simp
    moreover have "lo mod 2 ^ 64 = lo" "hi mod 2 ^ 64 = hi" using lohi by simp_all
    ultimately show ?thesis
      using p unfolding backoff_ms_def Let_def lo_def [symmetric] hi_def [symmetric] e_def [symmetric]
      by (simp add: u64_max_def min_def)
  qed
  have mono: "backoff_ms r n \<le> backoff_ms r m" if "n \<le> m" for m
  proof -
    have "min (unat n - 1) 16 \<le> min (unat m - 1) 16" using that by (auto simp: word_le_nat_alt)
    then have "(2::nat) ^ min (unat n - 1) 16 \<le> 2 ^ min (unat m - 1) 16" by (rule power_increasing) simp
    then have "lo * 2 ^ min (unat n - 1) 16 \<le> lo * 2 ^ min (unat m - 1) 16" by (rule mult_le_mono2)
    then show ?thesis unfolding eq by (rule min.mono) simp
  qed
  show ?thesis
    using eq [of n] mono lohi by (simp add: lo_def [symmetric] hi_def [symmetric])
qed

theorem backoff_exponential_witness:
  "backoff_ms \<lparr>rc_reconnect_after = 1, rc_rebuild_config_after = 3, rc_reregister_after = 5,
     rc_rotate_identity_after = 10, rc_backoff_min = from_millis 500, rc_backoff_max = from_millis 60000\<rparr> 4
   = 4000"
  using backoff_exponential [of "\<lparr>rc_reconnect_after = 1, rc_rebuild_config_after = 3, rc_reregister_after = 5,
     rc_rotate_identity_after = 10, rc_backoff_min = from_millis 500, rc_backoff_max = from_millis 60000\<rparr>" 4]
  by simp

section \<open>All or nothing\<close>

definition kept :: "'m supervisor \<Rightarrow> 'm supervisor \<Rightarrow> bool" where
  "kept s s' \<longleftrightarrow>
     sv_tunnel s' = sv_tunnel s \<and> sv_wg_config s' = sv_wg_config s \<and> sv_creds s' = sv_creds s \<and>
     sv_rebuilds s' = sv_rebuilds s \<and> sv_last_recovery s' = sv_last_recovery s"

text \<open>A switch to a tunnel whose handshake \<open>connect_candidate\<close> completed, for the current configuration
  or for a freshly tuned one.\<close>

definition switched :: "warp_config \<Rightarrow> 'm sup_env \<Rightarrow> 'm supervisor \<Rightarrow> 'm supervisor \<Rightarrow> bool" where
  "switched cfg env s s' \<longleftrightarrow>
     (\<exists>wg managed config reason.
        (wg = sv_wg_config s \<or> tuned_wg cfg wg) \<and> se_connect env wg = Ok (managed, config) \<and>
        sv_wg_config s' = config \<and> sv_rebuilds s' = sv_rebuilds s + 1 \<and>
        sv_tunnel s' = replace default_generation_policy (se_runtime env) managed reason
          ((sv_tunnel s)\<lparr>ts_now := ts_now (sv_tunnel s) + se_elapsed env\<rparr>))"

fun all_or_nothing :: "warp_config \<Rightarrow> 'm sup_env \<Rightarrow> 'm supervisor \<Rightarrow> unit res \<times> 'm supervisor \<Rightarrow> bool" where
  "all_or_nothing cfg env s (Ok u, s') \<longleftrightarrow> switched cfg env s s' \<and> sv_last_recovery s' = sv_last_recovery s"
| "all_or_nothing cfg env s (r, s') \<longleftrightarrow> kept s s'"

text \<open>Whether the outside lets a rung of the ladder succeed: a handshake for the current configuration, for
  a freshly fetched one, or for a candidate whose account can be stored, and without a candidate the
  fallback of the rung.\<close>

definition handshake_works :: "'m sup_env \<Rightarrow> wireguard_config \<Rightarrow> bool" where
  "handshake_works env wg \<longleftrightarrow> (\<exists>mc. se_connect env wg = Ok mc)"

definition config_works :: "warp_config \<Rightarrow> 'm sup_env \<Rightarrow> warp_credentials \<Rightarrow> account_manager \<Rightarrow> bool" where
  "config_works cfg env creds m \<longleftrightarrow>
     (\<exists>wg m'. refresh_config cfg (se_refresh env) creds m = (Ok wg, m') \<and> handshake_works env wg)"

definition candidate_works ::
  "json_codec \<Rightarrow> warp_config \<Rightarrow> 'm sup_env \<Rightarrow> account_candidate \<Rightarrow> account_manager \<Rightarrow> bool" where
  "candidate_works js cfg env cand m \<longleftrightarrow>
     handshake_works env (cd_wg_config cand) \<and>
     fst (commit_candidate js cfg (se_commit env) (cd_account_file cand) m) = Ok ()"

definition reregister_works ::
  "json_codec \<Rightarrow> warp_config \<Rightarrow> 'm sup_env \<Rightarrow> warp_credentials \<Rightarrow> account_manager \<Rightarrow> bool" where
  "reregister_works js cfg env creds m \<longleftrightarrow>
     (case prepare_reregister js cfg (se_prepare env) m of
        (Ok cand, m') \<Rightarrow> candidate_works js cfg env cand m'
      | (Err e, m') \<Rightarrow> config_works cfg env creds m'
      | (Panic, m') \<Rightarrow> False)"

definition rung_works ::
  "json_codec \<Rightarrow> warp_config \<Rightarrow> 'm sup_env \<Rightarrow> recovery_action \<Rightarrow> 'm supervisor \<Rightarrow> bool" where
  "rung_works js cfg env action s \<longleftrightarrow>
     (case action of
        NoAction \<Rightarrow> True
      | Reconnect \<Rightarrow> handshake_works env (sv_wg_config s)
      | RebuildConfig \<Rightarrow> config_works cfg env (sv_creds s) (sv_account s)
      | Reregister \<Rightarrow> reregister_works js cfg env (sv_creds s) (sv_account s)
      | RotateIdentity \<Rightarrow>
          (case fst (next_identity (sv_pool s)) of
             None \<Rightarrow> reregister_works js cfg env (sv_creds s) (sv_account s)
           | Some path \<Rightarrow>
               (case prepare_identity js cfg (se_prepare env) path (sv_account s) of
                  (Ok cand, m) \<Rightarrow> candidate_works js cfg env cand m
                | (r, m) \<Rightarrow> False)))"

lemma rebuild_and_store_Ok: "fst (rebuild_and_store env wg reason s) = Ok () \<longleftrightarrow> handshake_works env wg"
  by (auto simp: rebuild_and_store_def rebuild_def handshake_works_def split: result.splits prod.splits)

lemma rebuild_config_Ok:
  "fst (action_rebuild_config cfg env reason s) = Ok () \<longleftrightarrow> config_works cfg env (sv_creds s) (sv_account s)"
  by (cases "refresh_config cfg (se_refresh env) (sv_creds s) (sv_account s)")
    (auto simp: action_rebuild_config_def config_works_def rebuild_and_store_Ok Let_def split: result.splits)

lemma activate_Ok:
  "fst (activate_candidate js cfg env cand s) = Ok () \<longleftrightarrow> candidate_works js cfg env cand (sv_account s)"
  by (cases "commit_candidate js cfg (se_commit env) (cd_account_file cand) (sv_account s)")
    (auto simp: activate_candidate_def candidate_works_def handshake_works_def Let_def split: result.splits)

lemma unit_result_Ok:
  "fst (case x of (Ok u, t) \<Rightarrow> (Ok (), f t) | (Err e, t) \<Rightarrow> (Err e, t) | (Panic, t) \<Rightarrow> (Panic, t)) = Ok () \<longleftrightarrow>
     fst x = Ok ()"
  by (auto split: prod.split result.split)

lemma reregister_Ok:
  "fst (action_reregister js cfg env s) = Ok () \<longleftrightarrow> reregister_works js cfg env (sv_creds s) (sv_account s)"
  by (cases "prepare_reregister js cfg (se_prepare env) (sv_account s)")
    (auto simp: action_reregister_def reregister_works_def unit_result_Ok activate_Ok rebuild_config_Ok
      split: result.split)

lemma rotate_Ok: "fst (action_rotate js cfg env s) = Ok () \<longleftrightarrow> rung_works js cfg env RotateIdentity s"
proof (cases "next_identity (sv_pool s)")
  case (Pair nxt pool)
  show ?thesis
  proof (cases nxt)
    case None
    then show ?thesis by (simp add: action_rotate_def rung_works_def Pair reregister_Ok)
  next
    case (Some path)
    then show ?thesis
      by (cases "prepare_identity js cfg (se_prepare env) path (sv_account s)")
        (auto simp: action_rotate_def rung_works_def Pair unit_result_Ok activate_Ok split: result.split)
  qed
qed

lemma run_action_Ok: "fst (run_action js cfg env action s) = Ok () \<longleftrightarrow> rung_works js cfg env action s"
proof (cases action)
  case RotateIdentity
  then show ?thesis by (simp add: run_action_def rotate_Ok)
qed (simp_all add: run_action_def reregister_Ok rebuild_config_Ok rung_works_def action_reconnect_def
    rebuild_and_store_Ok)

lemma rung_works_cong:
  assumes "sv_wg_config s' = sv_wg_config s" "sv_creds s' = sv_creds s" "sv_account s' = sv_account s"
    "sv_pool s' = sv_pool s"
  shows "rung_works js cfg env action s' = rung_works js cfg env action s"
  unfolding rung_works_def assms by (rule refl)

lemma escalate_Ok:
  "fst (escalate js cfg env action s) = Ok () \<longleftrightarrow> rung_works js (cfg_warp cfg) env action s"
proof -
  let ?s = "s\<lparr>sv_backoffs := backoff_ms (cfg_recovery cfg) (sv_failures s) # sv_backoffs s\<rparr>"
  have "rung_works js (cfg_warp cfg) env action ?s = rung_works js (cfg_warp cfg) env action s"
    by (rule rung_works_cong) simp_all
  then show ?thesis
    using run_action_Ok [of js "cfg_warp cfg" env action ?s]
    by (cases "action = NoAction") (simp_all add: escalate_def Let_def unit_result_Ok, simp add: rung_works_def)
qed

lemma rebuild_and_store_aon:
  "wg = sv_wg_config s \<or> tuned_wg cfg wg \<Longrightarrow> all_or_nothing cfg env s (rebuild_and_store env wg reason s)"
  by (cases "se_connect env wg")
    (auto simp: rebuild_and_store_def rebuild_def switch_tunnel_def kept_def switched_def split: prod.split)

lemma aon_shift:
  "all_or_nothing cfg env s1 x \<Longrightarrow> kept s s1 \<Longrightarrow> all_or_nothing cfg env s x"
  by (cases "(cfg, env, s, x)" rule: all_or_nothing.cases) (auto simp: kept_def switched_def)

lemma kept_simps [simp]:
  "kept s s" "kept s (s\<lparr>sv_account := m\<rparr>)" "kept s (s\<lparr>sv_pool := q\<rparr>)" "kept s (s\<lparr>sv_backoffs := b\<rparr>)"
  "kept s (s\<lparr>sv_healthy := h, sv_failures := n\<rparr>)" "kept s (s\<lparr>sv_pool := q, sv_account := m\<rparr>)"
  by (simp_all add: kept_def)

lemma action_reconnect_aon: "all_or_nothing cfg env s (action_reconnect env s)"
  unfolding action_reconnect_def by (rule rebuild_and_store_aon) simp

lemma action_rebuild_config_aon: "all_or_nothing cfg env s (action_rebuild_config cfg env reason s)"
proof -
  obtain r m where rm: "refresh_config cfg (se_refresh env) (sv_creds s) (sv_account s) = (r, m)"
    by (cases "refresh_config cfg (se_refresh env) (sv_creds s) (sv_account s)")
  have t: "config_tuned cfg r"
    using prepared_tuned(3) [of cfg "se_refresh env" "sv_creds s" "sv_account s"] by (simp add: rm)
  show ?thesis
  proof (cases r)
    case (Ok wg)
    then have "all_or_nothing cfg env (s\<lparr>sv_account := m\<rparr>)
        (rebuild_and_store env wg reason (s\<lparr>sv_account := m\<rparr>))"
      using t by (intro rebuild_and_store_aon) simp
    then have "all_or_nothing cfg env s (rebuild_and_store env wg reason (s\<lparr>sv_account := m\<rparr>))"
      by (rule aon_shift) simp
    then show ?thesis by (simp add: action_rebuild_config_def rm Ok)
  qed (simp_all add: action_rebuild_config_def rm)
qed

lemma activate_candidate_aon:
  "tuned_wg cfg (cd_wg_config cand) \<Longrightarrow> all_or_nothing cfg env s (activate_candidate js cfg env cand s)"
  by (cases "se_connect env (cd_wg_config cand)")
    (auto simp: activate_candidate_def switch_tunnel_def switched_def Let_def
      split: prod.split result.split)

lemma aon_count:
  assumes "all_or_nothing cfg env s x"
    and "\<And>t. sv_tunnel (f t) = sv_tunnel t \<and> sv_wg_config (f t) = sv_wg_config t \<and>
      sv_rebuilds (f t) = sv_rebuilds t \<and> sv_last_recovery (f t) = sv_last_recovery t"
  shows "all_or_nothing cfg env s (case x of (Ok u, t) \<Rightarrow> (Ok (), f t) | (Err e, t) \<Rightarrow> (Err e, t) | (Panic, t) \<Rightarrow> (Panic, t))"
  using assms by (cases "(cfg, env, s, x)" rule: all_or_nothing.cases) (auto simp: switched_def)

lemma action_reregister_aon: "all_or_nothing cfg env s (action_reregister js cfg env s)"
proof -
  obtain r m where rm: "prepare_reregister js cfg (se_prepare env) (sv_account s) = (r, m)"
    by (cases "prepare_reregister js cfg (se_prepare env) (sv_account s)")
  have t: "config_tuned cfg (map_res cd_wg_config r)"
    using prepared_tuned(1) [of cfg js "se_prepare env" "sv_account s"] by (simp add: rm)
  show ?thesis
  proof (cases r)
    case (Ok cand)
    have "all_or_nothing cfg env (s\<lparr>sv_account := m\<rparr>) (activate_candidate js cfg env cand (s\<lparr>sv_account := m\<rparr>))"
      using t Ok by (intro activate_candidate_aon) simp
    then have "all_or_nothing cfg env s (activate_candidate js cfg env cand (s\<lparr>sv_account := m\<rparr>))"
      by (rule aon_shift) simp
    then show ?thesis
      by (simp add: action_reregister_def rm Ok) (rule aon_count, simp_all)
  next
    case (Err e)
    have "all_or_nothing cfg env s (action_rebuild_config cfg env Recovery (s\<lparr>sv_account := m\<rparr>))"
      by (rule aon_shift [OF action_rebuild_config_aon]) simp
    then show ?thesis by (simp add: action_reregister_def rm Err)
  qed (simp add: action_reregister_def rm)
qed

lemma action_rotate_aon: "all_or_nothing cfg env s (action_rotate js cfg env s)"
proof -
  obtain nxt pool where np: "next_identity (sv_pool s) = (nxt, pool)" by (cases "next_identity (sv_pool s)")
  show ?thesis
  proof (cases nxt)
    case None
    have "all_or_nothing cfg env s (action_reregister js cfg env (s\<lparr>sv_pool := pool\<rparr>))"
      by (rule aon_shift [OF action_reregister_aon]) simp
    then show ?thesis by (simp add: action_rotate_def np None)
  next
    case (Some path)
    obtain r m where rm: "prepare_identity js cfg (se_prepare env) path (sv_account s) = (r, m)"
      by (cases "prepare_identity js cfg (se_prepare env) path (sv_account s)")
    have t: "config_tuned cfg (map_res cd_wg_config r)"
      using prepared_tuned(2) [of cfg js "se_prepare env" path "sv_account s"] by (simp add: rm)
    let ?s = "s\<lparr>sv_pool := pool, sv_account := m\<rparr>"
    show ?thesis
    proof (cases r)
      case (Ok cand)
      have "all_or_nothing cfg env ?s (activate_candidate js cfg env cand ?s)"
        using t Ok by (intro activate_candidate_aon) simp
      then have "all_or_nothing cfg env s (activate_candidate js cfg env cand ?s)"
        by (rule aon_shift) simp
      then show ?thesis
        by (simp add: action_rotate_def np Some rm Ok) (rule aon_count, simp_all)
    qed (simp_all add: action_rotate_def np Some rm)
  qed
qed

lemmas action_aon = action_reconnect_aon action_rebuild_config_aon action_reregister_aon action_rotate_aon

lemma run_action_aon:
  "action \<noteq> NoAction \<Longrightarrow> all_or_nothing cfg env s (run_action js cfg env action s)"
  by (cases action) (simp_all add: run_action_def action_aon)

text \<open>The outcome of an escalation.\<close>

lemma escalate_cases:
  "case escalate js cfg env action s of
     (Ok u, s') \<Rightarrow>
       if action = NoAction then kept s s'
       else switched (cfg_warp cfg) env s s' \<and> sv_last_recovery s' = Some (se_completed env)
   | (r, s') \<Rightarrow> kept s s'"
proof (cases "action = NoAction")
  case True
  then show ?thesis by (simp add: escalate_def)
next
  case False
  let ?s = "s\<lparr>sv_backoffs := backoff_ms (cfg_recovery cfg) (sv_failures s) # sv_backoffs s\<rparr>"
  have "all_or_nothing (cfg_warp cfg) env ?s (run_action js (cfg_warp cfg) env action ?s)"
    using False by (rule run_action_aon)
  then have aon: "all_or_nothing (cfg_warp cfg) env s (run_action js (cfg_warp cfg) env action ?s)"
    by (rule aon_shift) simp
  obtain r t where rt: "run_action js (cfg_warp cfg) env action ?s = (r, t)"
    by (cases "run_action js (cfg_warp cfg) env action ?s")
  show ?thesis
    using aon False by (cases r) (simp_all add: escalate_def rt switched_def)
qed

lemma refresh_cases:
  "case handle_event js cfg env RefreshTick s of
     (Ok u, s') \<Rightarrow> sv_last_recovery s' = sv_last_recovery s \<and>
       (kept s s' \<or> switched (cfg_warp cfg) env s s')
   | (r, s') \<Rightarrow> kept s s'"
proof -
  obtain r t where rt: "action_rebuild_config (cfg_warp cfg) env Refresh s = (r, t)"
    by (cases "action_rebuild_config (cfg_warp cfg) env Refresh s")
  have "all_or_nothing (cfg_warp cfg) env s (r, t)"
    using action_rebuild_config_aon [of "cfg_warp cfg" env s Refresh] by (simp add: rt)
  then show ?thesis by (cases r) (auto simp: handle_event_def rt kept_def)
qed

lemma handle_event_cases:
  "case handle_event js cfg env evt s of
     (Ok u, s') \<Rightarrow> kept s s' \<or> switched (cfg_warp cfg) env s s'
   | (r, s') \<Rightarrow> kept s s'"
proof (cases evt)
  case (ProbeFailed reason t)
  let ?n = "u8_saturating_inc (sv_failures s)"
  let ?s = "s\<lparr>sv_healthy := False, sv_failures := ?n\<rparr>"
  obtain r u where ru: "escalate js cfg env (action_for (cfg_recovery cfg) ?n) ?s = (r, u)"
    by (cases "escalate js cfg env (action_for (cfg_recovery cfg) ?n) ?s")
  show ?thesis
    using escalate_cases [where js = js and cfg = cfg and env = env and s = ?s
        and action = "action_for (cfg_recovery cfg) ?n"]
    by (cases r) (auto simp: ProbeFailed handle_event_def Let_def ru kept_def switched_def split: if_splits)
next
  case RefreshTick
  obtain r u where ru: "handle_event js cfg env RefreshTick s = (r, u)"
    by (cases "handle_event js cfg env RefreshTick s")
  show ?thesis using refresh_cases [where js = js and cfg = cfg and env = env and s = s] by (cases r) (simp_all add: RefreshTick ru)
qed (auto simp: handle_event_def kept_def)

text \<open>C6. Every event is handled all or nothing. Either the running tunnel, its configuration, the
  credentials and the recovery mark all stay as they were, whatever step of the API, the handshake,
  the disk or the lookup of the identity failed; or the tunnel is replaced, exactly once, by one whose
  handshake completed for the current configuration or a freshly tuned one, and the configuration
  stored is the one that handshake ended with. An event whose handler fails always falls in the first
  case.\<close>

theorem event_all_or_nothing:
  "case handle_event js cfg env evt s of
     (Ok u, s') \<Rightarrow> kept s s' \<or> switched (cfg_warp cfg) env s s'
   | (r, s') \<Rightarrow> kept s s'"
  by (rule handle_event_cases)

text \<open>Property. A fresh probe failure past the lowest threshold leads to a real recovery or to an error, never to
  a silent success: when its handler returns \<open>Ok\<close>, the abstract tunnel holds the newly connected one,
  and every probe observed before the recovery completed is discarded when it is dequeued later, so one
  outage does not climb the ladder twice. When it returns an error, nothing that carries traffic has
  changed.\<close>

theorem failure_recovers_or_reports:
  assumes "\<not> probe_is_stale t s"
    and "rc_reconnect_after (cfg_recovery cfg) \<le> u8_saturating_inc (sv_failures s)"
  shows "case handle_event js cfg env (ProbeFailed reason t) s of
      (Ok u, s') \<Rightarrow>
        (\<exists>wg managed config. se_connect env wg = Ok (managed, config) \<and>
          tunnel_abs (sv_tunnel s') = Some managed \<and> sv_wg_config s' = config) \<and>
        (\<forall>t' reason' env'. t' \<le> se_completed env \<longrightarrow>
          handle_event js cfg env' (ProbeFailed reason' t') s' = (Ok (), s') \<and>
          handle_event js cfg env' (ProbeOk t') s' = (Ok (), s'))
    | (r, s') \<Rightarrow> kept s s'"
proof -
  let ?n = "u8_saturating_inc (sv_failures s)"
  let ?s = "s\<lparr>sv_healthy := False, sv_failures := ?n\<rparr>"
  have act: "action_for (cfg_recovery cfg) ?n \<noteq> NoAction"
    using assms(2) by (simp add: action_for_def)
  have h: "handle_event js cfg env (ProbeFailed reason t) s =
      escalate js cfg env (action_for (cfg_recovery cfg) ?n) ?s"
    using assms(1) by (simp add: handle_event_def Let_def)
  obtain r u where ru: "escalate js cfg env (action_for (cfg_recovery cfg) ?n) ?s = (r, u)"
    by (cases "escalate js cfg env (action_for (cfg_recovery cfg) ?n) ?s")
  show ?thesis
    using escalate_cases [where js = js and cfg = cfg and env = env and s = ?s
        and action = "action_for (cfg_recovery cfg) ?n"] act
    unfolding h ru
    by (cases r) (auto simp: kept_def switched_def handle_event_def probe_is_stale_def)
qed

text \<open>A supervisor whose first probe has just failed, with a handshake that succeeds.\<close>

definition example_supervisor :: "nat supervisor" where
  "example_supervisor =
     supervisor_new empty_manager (from_managed 0 1) \<lparr>ip_files = [], ip_next_idx = 0\<rparr> example_creds example_wg"

definition example_sup_env :: "nat sup_env" where
  "example_sup_env = \<lparr>se_prepare = example_env, se_refresh = example_env, se_commit = example_env,
     se_connect = (\<lambda>wg. Ok (2, wg)), se_elapsed = 0, se_runtime = True, se_completed = 50\<rparr>"

theorem failure_recovers_or_reports_witness:
  "case handle_event example_codec (default_config None) example_sup_env (ProbeFailed (HandshakeStale 0) 10) example_supervisor of
     (r, s') \<Rightarrow> r = Ok () \<and> tunnel_abs (sv_tunnel s') = Some 2 \<and>
       handle_event example_codec (default_config None) example_sup_env (ProbeOk 50) s' = (Ok (), s')"
proof -
  have fresh: "\<not> probe_is_stale 10 example_supervisor"
    by (simp add: probe_is_stale_def example_supervisor_def supervisor_new_def)
  have one: "u8_saturating_inc (sv_failures example_supervisor) = 1"
    by (simp add: example_supervisor_def supervisor_new_def u8_saturating_inc_def)
  have cfg: "rc_reconnect_after (cfg_recovery (default_config None)) = 1"
    "action_for (cfg_recovery (default_config None)) 1 = Reconnect"
    by (simp_all add: default_config_def default_recovery_def action_for_def word_le_nat_alt)
  have thr: "rc_reconnect_after (cfg_recovery (default_config None)) \<le> u8_saturating_inc (sv_failures example_supervisor)"
    by (simp add: one cfg)
  obtain r s' where rs: "handle_event example_codec (default_config None) example_sup_env
      (ProbeFailed (HandshakeStale 0) 10) example_supervisor = (r, s')" by (metis surj_pair)
  have "r = Ok ()"
    using rs fresh by (simp add: handle_event_def Let_def one cfg escalate_def run_action_def
        action_reconnect_def rebuild_and_store_def rebuild_def example_sup_env_def)
  then show ?thesis
    using failure_recovers_or_reports [OF fresh thr, where js = example_codec and env = example_sup_env
        and reason = "HandshakeStale 0"] rs
    by (auto simp: example_sup_env_def)
qed

section \<open>Runs\<close>

lemma actions_keep_health [simp]:
  "sv_healthy (snd (rebuild_and_store env wg reason s)) = sv_healthy s"
  "sv_failures (snd (rebuild_and_store env wg reason s)) = sv_failures s"
  by (simp_all add: rebuild_and_store_def rebuild_def switch_tunnel_def case_prod_unfold split: result.split)

lemma rebuild_config_keeps_health [simp]:
  "sv_healthy (snd (action_rebuild_config cfg env reason s)) = sv_healthy s"
  "sv_failures (snd (action_rebuild_config cfg env reason s)) = sv_failures s"
  by (simp_all add: action_rebuild_config_def Let_def case_prod_unfold split: result.split)

lemma activate_keeps_health [simp]:
  "sv_healthy (snd (activate_candidate js cfg env cand s)) = sv_healthy s"
  "sv_failures (snd (activate_candidate js cfg env cand s)) = sv_failures s"
  by (simp_all add: activate_candidate_def switch_tunnel_def Let_def case_prod_unfold split: result.split)

lemma reregister_keeps_health [simp]:
  "sv_healthy (snd (action_reregister js cfg env s)) = sv_healthy s"
  "sv_failures (snd (action_reregister js cfg env s)) = sv_failures s"
  by (simp_all add: action_reregister_def Let_def case_prod_unfold split: result.split)

lemma rotate_keeps_health [simp]:
  "sv_healthy (snd (action_rotate js cfg env s)) = sv_healthy s"
  "sv_failures (snd (action_rotate js cfg env s)) = sv_failures s"
  by (simp_all add: action_rotate_def Let_def case_prod_unfold split: result.split option.split)

lemma escalate_keeps_health [simp]:
  "sv_healthy (snd (escalate js cfg env action s)) = sv_healthy s"
  "sv_failures (snd (escalate js cfg env action s)) = sv_failures s"
  by (cases action; simp add: escalate_def run_action_def action_reconnect_def Let_def case_prod_unfold
      split: result.split)+

lemma handle_event_health:
  "sv_healthy (snd (handle_event js cfg env evt s)) \<and> sv_failures (snd (handle_event js cfg env evt s)) = 0 \<or>
   \<not> sv_healthy (snd (handle_event js cfg env evt s)) \<and>
     sv_failures (snd (handle_event js cfg env evt s)) = u8_saturating_inc (sv_failures s) \<or>
   sv_healthy (snd (handle_event js cfg env evt s)) = sv_healthy s \<and>
     sv_failures (snd (handle_event js cfg env evt s)) = sv_failures s"
proof (cases evt)
  case (ProbeOk t)
  then show ?thesis by (auto simp: handle_event_def word_gt_0)
next
  case (ProbeFailed reason t)
  then show ?thesis by (auto simp: handle_event_def Let_def)
next
  case RefreshTick
  then show ?thesis by (simp add: handle_event_def case_prod_unfold split: result.split)
qed

lemma supervisor_run_invariant:
  assumes "P s" and "\<And>env evt s. (env, evt) \<in> set evs \<Longrightarrow> P s \<Longrightarrow> P (snd (handle_event js cfg env evt s))"
  shows "P (supervisor_run js cfg evs s)"
  using assms
proof (induction evs arbitrary: s)
  case (Cons e evs)
  obtain env evt where e: "e = (env, evt)" by (cases e)
  have "P (snd (handle_event js cfg env evt s))" by (rule Cons.prems(2)) (simp_all add: e Cons.prems(1))
  moreover have "P (supervisor_run js cfg evs t)" if "P t" for t
    using that by (rule Cons.IH) (use Cons.prems(2) in auto)
  ultimately show ?case by (simp add: e case_prod_unfold Let_def)
qed simp

text \<open>Property. How the supervisor ends. Its state is always that of the events it dispatched before the first
  cancellation or end of a background task. It returns \<open>Ok\<close> only when it is cancelled, an error only
  when a background task has ended, and otherwise keeps running or has died in a handler.\<close>

theorem supervisor_loop_ends:
  "case supervisor_loop js cfg ins s of (r, s') \<Rightarrow>
     s' = supervisor_run js cfg (dispatched ins) s \<and>
     (case r of
        None \<Rightarrow> ins = map (\<lambda>(env, evt). Dispatch env evt) (dispatched ins)
      | Some (Ok u) \<Rightarrow> \<exists>rest. ins = map (\<lambda>(env, evt). Dispatch env evt) (dispatched ins) @ CancelLoop # rest
      | Some (Err err) \<Rightarrow> \<exists>e rest. err = background_error e \<and>
          ins = map (\<lambda>(env, evt). Dispatch env evt) (dispatched ins) @ BackgroundEnded e # rest
      | Some Panic \<Rightarrow> True)"
proof (induction js cfg ins s rule: supervisor_loop.induct)
  case (4 js cfg env evt ins s)
  obtain r s1 where rs: "handle_event js cfg env evt s = (r, s1)" by (cases "handle_event js cfg env evt s")
  show ?case
  proof (cases "r = Panic")
    case True
    then show ?thesis by (simp add: rs)
  next
    case False
    then show ?thesis
      using "4.IH" [OF refl rs [symmetric] False]
      by (auto simp: rs split: prod.splits option.splits result.splits)
  qed
qed auto

lemma healthy_needs_probe:
  "(sv_healthy (supervisor_run js cfg evs (supervisor_new account tunnel pool creds wg)) \<longrightarrow>
     sv_failures (supervisor_run js cfg evs (supervisor_new account tunnel pool creds wg)) = 0 \<and>
     (\<exists>env t. (env, ProbeOk t) \<in> set evs))"
proof -
  define oks where "oks \<longleftrightarrow> (\<exists>env t. (env, ProbeOk t) \<in> set evs)"
  let ?P = "\<lambda>s. sv_healthy s \<longrightarrow> sv_failures s = 0 \<and> oks"
  have "?P (supervisor_run js cfg evs (supervisor_new account tunnel pool creds wg))"
  proof (rule supervisor_run_invariant)
    fix env evt and s :: "'a supervisor"
    assume m: "(env, evt) \<in> set evs" and P: "?P s"
    show "?P (snd (handle_event js cfg env evt s))"
    proof (cases evt)
      case (ProbeOk t)
      then have oks using m by (auto simp: oks_def)
      then show ?thesis using ProbeOk P by (auto simp: handle_event_def word_gt_0)
    next
      case (ProbeFailed reason t)
      then show ?thesis using P by (auto simp: handle_event_def Let_def)
    next
      case RefreshTick
      then show ?thesis using P
        by (simp add: handle_event_def case_prod_unfold split: result.split)
    qed
  qed (simp add: supervisor_new_def)
  then show ?thesis by (simp add: oks_def)
qed

text \<open>Property. The health flag that gates the SOCKS5 service and \<open>/healthz\<close>: over any sequence of events and
  recoveries, from start-up, it is never up while failures are being counted, and it is down until a
  first probe has succeeded.\<close>

theorem health_flag_sound:
  "(sv_healthy (supervisor_run js cfg evs (supervisor_new account tunnel pool creds wg)) \<longrightarrow>
     sv_failures (supervisor_run js cfg evs (supervisor_new account tunnel pool creds wg)) = 0 \<and>
     (\<exists>env t. (env, ProbeOk t) \<in> set evs))"
  by (rule healthy_needs_probe)

theorem health_flag_sound_witness:
  "sv_failures (supervisor_run example_codec (default_config None) [(example_sup_env, ProbeOk 3)] example_supervisor) = 0"
  using health_flag_sound [of example_codec "default_config None" "[(example_sup_env, ProbeOk 3)]" empty_manager
      "from_managed 0 1" "\<lparr>ip_files = [], ip_next_idx = 0\<rparr>" example_creds example_wg]
  unfolding example_supervisor_def [symmetric]
  by (simp add: handle_event_def probe_is_stale_def example_supervisor_def supervisor_new_def)

section \<open>Memory and disk\<close>

text \<open>The account file can be read, and, when no commit has met an error of the file system (\<open>clean\<close>), its
  credentials are those in memory.\<close>

definition disk_matches :: "bool \<Rightarrow> json_codec \<Rightarrow> warp_config \<Rightarrow> 'm supervisor \<Rightarrow> bool" where
  "disk_matches clean js cfg s \<longleftrightarrow>
     (\<exists>f. load (js_dec js) None (account_path cfg) (am_disk (sv_account s)) = Ok (Some f) \<and>
        (clean \<longrightarrow> af_credentials f = sv_creds s))"

definition free_temps :: "warp_config \<Rightarrow> path set \<Rightarrow> 'm supervisor \<Rightarrow> bool" where
  "free_temps cfg T s \<longleftrightarrow>
     (\<forall>tmp \<in> T. tmp \<noteq> account_path cfg \<and> fs_files (am_disk (sv_account s)) tmp = None)"

definition in_sync :: "bool \<Rightarrow> json_codec \<Rightarrow> warp_config \<Rightarrow> path set \<Rightarrow> 'm supervisor \<Rightarrow> bool" where
  "in_sync clean js cfg T s \<longleftrightarrow> disk_matches clean js cfg s \<and> free_temps cfg T s"

lemma in_sync_same:
  "in_sync clean js cfg T s \<Longrightarrow> am_disk (sv_account s') = am_disk (sv_account s) \<Longrightarrow> sv_creds s' = sv_creds s \<Longrightarrow>
     in_sync clean js cfg T s'"
  by (simp add: in_sync_def disk_matches_def free_temps_def)

lemma run_steps_Ok: "run_steps (\<lambda>i. None) dir tmp p i sts s = (Ok (), fold (save_effect dir tmp p) sts s)"
  by (induction sts arbitrary: i s) simp_all

lemma save_no_fault:
  assumes "path_parent p \<noteq> None"
  shows "fst (save enc (\<lambda>i. None) tmp p v s) = (if enc v = None then Err Json else Ok ())"
  using assms by (auto simp: save_def run_steps_Ok Let_def split: option.split)

lemma rebuild_sync [simp]:
  "am_disk (sv_account (snd (rebuild_and_store env wg reason s))) = am_disk (sv_account s)"
  "sv_creds (snd (rebuild_and_store env wg reason s)) = sv_creds s"
  by (simp_all add: rebuild_and_store_def rebuild_def switch_tunnel_def case_prod_unfold split: result.split)

lemma rebuild_config_sync [simp]:
  "am_disk (sv_account (snd (action_rebuild_config cfg env reason s))) = am_disk (sv_account s)"
  "sv_creds (snd (action_rebuild_config cfg env reason s)) = sv_creds s"
  by (simp_all add: action_rebuild_config_def Let_def case_prod_unfold split: result.split)

lemma activate_sync:
  assumes codec: "\<And>f c. js_enc js f = Some c \<Longrightarrow> js_dec js c = Some f"
    and nf: "clean \<Longrightarrow> ev_save_fault (se_commit env) = (\<lambda>i. None)" and T: "ev_tmp (se_commit env) \<in> T"
    and sync: "in_sync clean js cfg T s"
  shows "in_sync clean js cfg T (snd (activate_candidate js cfg env cand s))"
proof (cases "se_connect env (cd_wg_config cand)")
  case (Ok mc)
  obtain managed config where mc: "mc = (managed, config)" by (cases mc)
  let ?p = "account_path cfg" and ?tmp = "ev_tmp (se_commit env)" and ?f = "cd_account_file cand"
  let ?d = "am_disk (sv_account s)"
  have tmp: "?tmp \<noteq> ?p" "fs_files ?d ?tmp = None"
    using sync T by (auto simp: in_sync_def free_temps_def)
  obtain r disk where sv: "save (js_enc js) (ev_save_fault (se_commit env)) ?tmp ?p ?f ?d = (r, disk)"
    by (cases "save (js_enc js) (ev_save_fault (se_commit env)) ?tmp ?p ?f ?d")
  have commit: "commit_candidate js cfg (se_commit env) ?f (sv_account s) = (r, (sv_account s)\<lparr>am_disk := disk\<rparr>)"
    by (simp add: commit_candidate_def save_account_def sv)
  have res: "save_result ?p (js_enc js ?f) ?d r disk"
    using save_result [OF tmp(2,1), where enc = "js_enc js" and fault = "ev_save_fault (se_commit env)" and v = ?f]
    by (simp add: sv)
  have new: "load (js_dec js) None ?p disk = Ok (Some ?f) \<and> free_temps cfg T (s\<lparr>sv_account := (sv_account s)\<lparr>am_disk := disk\<rparr>\<rparr>)"
    if "js_enc js ?f \<noteq> None" "fs_files disk = (fs_files ?d)(?p \<mapsto> (the (js_enc js ?f), MODE_0600))"
    using that codec sync by (auto simp: load_def in_sync_def free_temps_def)
  have after: "snd (activate_candidate js cfg env cand s) = (case r of
      Ok u \<Rightarrow> switch_tunnel env managed Recovery (s\<lparr>sv_account := (sv_account s)\<lparr>am_disk := disk\<rparr>,
        sv_creds := af_credentials ?f, sv_wg_config := config, sv_rebuilds := sv_rebuilds s + 1\<rparr>)
    | _ \<Rightarrow> s\<lparr>sv_account := (sv_account s)\<lparr>am_disk := disk\<rparr>\<rparr>)"
    by (simp add: activate_candidate_def Ok mc commit split: result.split)
  show ?thesis
  proof (cases r)
    case (Ok u)
    with res new show ?thesis
      by (auto simp: after save_result_def in_sync_def disk_matches_def free_temps_def switch_tunnel_def)
  next
    case (Err e)
    have old: ?thesis if "fs_files disk = fs_files ?d"
      using that sync Err by (simp add: after in_sync_def disk_matches_def free_temps_def load_def)
    show ?thesis
    proof (cases "js_enc js ?f = None \<or> fs_files disk = fs_files ?d")
      case True
      then show ?thesis using old res Err by (auto simp: save_result_def)
    next
      case False
      have "\<not> clean"
        using save_no_fault [of ?p "js_enc js" ?tmp ?f ?d] False nf sv Err
        by (auto simp: path_parent_def account_path_def)
      with False new res Err show ?thesis
        by (auto simp: after save_result_def in_sync_def disk_matches_def free_temps_def)
    qed
  qed (use res in \<open>simp add: save_result_def\<close>)
qed (use sync in \<open>simp_all add: activate_candidate_def\<close>)

lemma case_unit_snd:
  "snd (case x of (Ok u, t) \<Rightarrow> (Ok (), f t) | (Err e, t) \<Rightarrow> (Err e, t) | (Panic, t) \<Rightarrow> (Panic, t)) =
     (case fst x of Ok u \<Rightarrow> f (snd x) | _ \<Rightarrow> snd x)"
  by (simp add: case_prod_unfold split: result.split)

lemma in_sync_counters [simp]:
  "in_sync clean js cfg T (s\<lparr>sv_reregisters := a\<rparr>) = in_sync clean js cfg T s"
  "in_sync clean js cfg T (s\<lparr>sv_rotations := a\<rparr>) = in_sync clean js cfg T s"
  "in_sync clean js cfg T (s\<lparr>sv_pool := q\<rparr>) = in_sync clean js cfg T s"
  "in_sync clean js cfg T (s\<lparr>sv_backoffs := b\<rparr>) = in_sync clean js cfg T s"
  "in_sync clean js cfg T (s\<lparr>sv_last_recovery := b'\<rparr>) = in_sync clean js cfg T s"
  "in_sync clean js cfg T (s\<lparr>sv_healthy := h, sv_failures := n\<rparr>) = in_sync clean js cfg T s"
  by (simp_all add: in_sync_def disk_matches_def free_temps_def)

lemma reregister_sync:
  assumes codec: "\<And>f c. js_enc js f = Some c \<Longrightarrow> js_dec js c = Some f"
    and nf: "clean \<Longrightarrow> ev_save_fault (se_commit env) = (\<lambda>i. None)" and T: "ev_tmp (se_commit env) \<in> T"
    and sync: "in_sync clean js cfg T s"
  shows "in_sync clean js cfg T (snd (action_reregister js cfg env s))"
proof -
  define m where "m = snd (prepare_reregister js cfg (se_prepare env) (sv_account s))"
  have s1: "in_sync clean js cfg T (s\<lparr>sv_account := m\<rparr>)"
    by (rule in_sync_same [OF sync]) (simp_all add: m_def)
  have "in_sync clean js cfg T (snd (activate_candidate js cfg env cand (s\<lparr>sv_account := m\<rparr>)))" for cand
    by (rule activate_sync [OF codec nf T s1])
  moreover have "in_sync clean js cfg T (snd (action_rebuild_config cfg env Recovery (s\<lparr>sv_account := m\<rparr>)))"
    by (rule in_sync_same [OF s1]) simp_all
  ultimately show ?thesis
    using s1 by (simp add: action_reregister_def Let_def case_prod_unfold m_def split: result.split)
qed

lemma rotate_sync:
  assumes codec: "\<And>f c. js_enc js f = Some c \<Longrightarrow> js_dec js c = Some f"
    and nf: "clean \<Longrightarrow> ev_save_fault (se_commit env) = (\<lambda>i. None)" and T: "ev_tmp (se_commit env) \<in> T"
    and sync: "in_sync clean js cfg T s"
  shows "in_sync clean js cfg T (snd (action_rotate js cfg env s))"
proof -
  define q where "q = snd (next_identity (sv_pool s))"
  have "in_sync clean js cfg T (s\<lparr>sv_pool := q, sv_account := m\<rparr>)"
    if "am_disk m = am_disk (sv_account s)" for m
    by (rule in_sync_same [OF sync]) (simp_all add: that)
  then have s2: "in_sync clean js cfg T (s\<lparr>sv_pool := q,
      sv_account := snd (prepare_identity js cfg (se_prepare env) path (sv_account s))\<rparr>)" for path
    by simp
  have "in_sync clean js cfg T (snd (activate_candidate js cfg env cand (s\<lparr>sv_pool := q,
      sv_account := snd (prepare_identity js cfg (se_prepare env) path (sv_account s))\<rparr>)))" for cand path
    by (rule activate_sync [OF codec nf T s2])
  moreover have "in_sync clean js cfg T (snd (action_reregister js cfg env (s\<lparr>sv_pool := q\<rparr>)))"
    by (rule reregister_sync [OF codec nf T]) (simp_all add: sync)
  ultimately show ?thesis
    using s2 by (simp add: action_rotate_def Let_def case_prod_unfold q_def split: result.split option.split)
qed

lemma handle_event_sync:
  assumes codec: "\<And>f c. js_enc js f = Some c \<Longrightarrow> js_dec js c = Some f"
    and nf: "clean \<Longrightarrow> ev_save_fault (se_commit env) = (\<lambda>i. None)" and T: "ev_tmp (se_commit env) \<in> T"
    and sync: "in_sync clean js (cfg_warp cfg) T s"
  shows "in_sync clean js (cfg_warp cfg) T (snd (handle_event js cfg env evt s))"
proof (cases evt)
  case (ProbeOk t)
  then show ?thesis using sync by (simp add: handle_event_def)
next
  case (ProbeFailed reason t)
  have "in_sync clean js (cfg_warp cfg) T (snd (run_action js (cfg_warp cfg) env action t))"
    if "in_sync clean js (cfg_warp cfg) T t" for action t
    using that reregister_sync [OF codec nf T that] rotate_sync [OF codec nf T that]
    by (cases action) (auto simp: run_action_def action_reconnect_def intro: in_sync_same)
  then have "in_sync clean js (cfg_warp cfg) T (snd (escalate js cfg env action t))"
    if "in_sync clean js (cfg_warp cfg) T t" for action t
    using that by (simp add: escalate_def Let_def case_prod_unfold split: result.split)
  then show ?thesis using sync by (simp add: ProbeFailed handle_event_def Let_def)
next
  case RefreshTick
  have "in_sync clean js (cfg_warp cfg) T (snd (action_rebuild_config (cfg_warp cfg) env Refresh s))"
    by (rule in_sync_same [OF sync]) simp_all
  then show ?thesis by (simp add: RefreshTick handle_event_def case_prod_unfold split: result.split)
qed

text \<open>Property. Memory and disk agree on the identity. If the account file holds the credentials the supervisor
  runs with, it does so after any sequence of events, re-registrations and rotations included, so that a
  restart resumes the identity in use, provided the commits themselves meet no file-system error and
  the JSON codec reads back what it wrote.\<close>

theorem identity_survives_restart:
  assumes "\<And>f c. js_enc js f = Some c \<Longrightarrow> js_dec js c = Some f"
    and "\<And>env evt. (env, evt) \<in> set evs \<Longrightarrow> ev_save_fault (se_commit env) = (\<lambda>i. None) \<and>
      ev_tmp (se_commit env) \<noteq> account_path (cfg_warp cfg) \<and>
      fs_files (am_disk (sv_account s)) (ev_tmp (se_commit env)) = None"
    and "load (js_dec js) None (account_path (cfg_warp cfg)) (am_disk (sv_account s)) = Ok (Some f)"
    and "af_credentials f = sv_creds s"
  shows "\<exists>f'. load (js_dec js) None (account_path (cfg_warp cfg))
        (am_disk (sv_account (supervisor_run js cfg evs s))) = Ok (Some f') \<and>
      af_credentials f' = sv_creds (supervisor_run js cfg evs s)"
proof -
  define T where "T = (\<lambda>e. ev_tmp (se_commit (fst e))) ` set evs"
  have "in_sync True js (cfg_warp cfg) T (supervisor_run js cfg evs s)"
  proof (rule supervisor_run_invariant)
    show "in_sync True js (cfg_warp cfg) T s"
      using assms(2-4) by (fastforce simp: in_sync_def disk_matches_def free_temps_def T_def)
  next
    fix env evt and s :: "'a supervisor"
    assume "(env, evt) \<in> set evs" and "in_sync True js (cfg_warp cfg) T s"
    then show "in_sync True js (cfg_warp cfg) T (snd (handle_event js cfg env evt s))"
      using assms(1,2) by (intro handle_event_sync) (force simp: T_def)+
  qed
  then show ?thesis by (simp add: in_sync_def disk_matches_def)
qed

definition resumed_supervisor :: "nat supervisor" where
  "resumed_supervisor = example_supervisor\<lparr>sv_account := empty_manager\<lparr>am_disk :=
     fs_at [account_path (cfg_warp (default_config None)) \<mapsto> ([1], 0)] {}\<rparr>\<rparr>"

theorem identity_survives_restart_witness:
  "\<exists>f'. load (js_dec example_codec) None (account_path (cfg_warp (default_config None)))
        (am_disk (sv_account (supervisor_run example_codec (default_config None)
          [(example_sup_env, RefreshTick)] resumed_supervisor))) = Ok (Some f')"
proof -
  have codec: "js_enc example_codec f = Some c \<Longrightarrow> js_dec example_codec c = Some f" for f c
    by (simp add: example_codec_def split: if_splits)
  have envs: "(env, evt) \<in> set [(example_sup_env, RefreshTick)] \<Longrightarrow> ev_save_fault (se_commit env) = (\<lambda>i. None) \<and>
      ev_tmp (se_commit env) \<noteq> account_path (cfg_warp (default_config None)) \<and>
      fs_files (am_disk (sv_account resumed_supervisor)) (ev_tmp (se_commit env)) = None" for env evt
    by (simp add: example_sup_env_def example_env_def account_path_def resumed_supervisor_def)
  have l: "load (js_dec example_codec) None (account_path (cfg_warp (default_config None)))
      (am_disk (sv_account resumed_supervisor)) = Ok (Some example_file)"
    by (simp add: load_def example_codec_def resumed_supervisor_def)
  have c: "af_credentials example_file = sv_creds resumed_supervisor"
    by (simp add: example_file_def example_supervisor_def supervisor_new_def resumed_supervisor_def)
  have "\<exists>f'. load (js_dec example_codec) None (account_path (cfg_warp (default_config None)))
        (am_disk (sv_account (supervisor_run example_codec (default_config None)
          [(example_sup_env, RefreshTick)] resumed_supervisor))) = Ok (Some f') \<and>
      af_credentials f' = sv_creds (supervisor_run example_codec (default_config None)
          [(example_sup_env, RefreshTick)] resumed_supervisor)"
    by (rule identity_survives_restart) (erule codec | erule envs | rule l c)+
  then show ?thesis by blast
qed

end
