(* ===== verification/Monitor.thy ===== *)
theory Monitor
  imports Supervisor
begin

text \<open>
  \<open>Supervisor::run\<close> of \<open>src/supervisor.rs\<close> with the tasks it starts, interleaved: the probe loop of
  \<open>src/health.rs\<close>, the refresh timer, the dials that record into \<open>EgressStats\<close>, the bounded event channel
  between them, and the dispatch loop, whose handler takes time. Its inputs are the instants of the
  ticks, the outcomes of the probes and the environment each handler finds.
\<close>

section \<open>Model\<close>

text \<open>The channel of \<open>Supervisor::new\<close>.\<close>

definition EVENT_CAPACITY :: nat where "EVENT_CAPACITY = 64"

text \<open>The probe loop between two points where it may wait: for the tick, for its probes (with the instant
  of the round and the stale handshake it saw), between the two swaps that take the egress window, and
  for room in the channel.\<close>

datatype probe_phase =
    AwaitTick
  | Probing instant "duration option"
  | TakingWindow instant "duration option" "probe_joined list" u64
  | SendingProbe supervisor_event

datatype timer_phase = TimerOff | AwaitTimer | SendingRefresh

text \<open>\<open>mn_handling\<close> is the event in the handler and the instant it was received. \<open>mn_rounds\<close>, \<open>mn_sent\<close>,
  \<open>mn_log\<close> and \<open>mn_recoveries\<close> are ghost histories: the inputs of the rounds, the events sent, what the
  dispatch loop took up, and for each recovery when its probe was observed and when it completed.\<close>

record 'm monitor =
  mn_now :: instant
  mn_sup :: "'m supervisor"
  mn_egress :: egress_stats
  mn_degraded :: u32
  mn_probe :: probe_phase
  mn_timer :: timer_phase
  mn_queue :: "supervisor_event list"
  mn_handling :: "(instant \<times> supervisor_event) option"
  mn_result :: "unit res option"
  mn_rounds :: "round_input list"
  mn_sent :: "supervisor_event list"
  mn_log :: "'m loop_input list"
  mn_recoveries :: "(instant \<times> instant) list"

definition monitor_start :: "config \<Rightarrow> instant \<Rightarrow> 'm supervisor \<Rightarrow> 'm monitor" where
  "monitor_start cfg now sv =
     \<lparr>mn_now = now, mn_sup = sv, mn_egress = egress_new, mn_degraded = 0, mn_probe = AwaitTick,
      mn_timer = (if wc_refresh_interval (cfg_warp cfg) = 0 then TimerOff else AwaitTimer),
      mn_queue = [], mn_handling = None, mn_result = None, mn_rounds = [], mn_sent = [], mn_log = [],
      mn_recoveries = []\<rparr>"

text \<open>The probe loop: the tick, the first swap once all probes have ended, and the second swap with the
  verdict over the window just taken.\<close>

definition probe_tick :: "duration option \<Rightarrow> 'm monitor \<Rightarrow> 'm monitor" where
  "probe_tick since s = s\<lparr>mn_probe := Probing (mn_now s) since\<rparr>"

definition probes_joined :: "instant \<Rightarrow> duration option \<Rightarrow> probe_joined list \<Rightarrow> 'm monitor \<Rightarrow> 'm monitor" where
  "probes_joined t since joined s =
     (let (n, eg) = swap_ok (mn_egress s)
      in s\<lparr>mn_egress := eg, mn_probe := TakingWindow t since joined n\<rparr>)"

definition judge_round ::
  "config \<Rightarrow> instant \<Rightarrow> duration option \<Rightarrow> probe_joined list \<Rightarrow> u64 \<Rightarrow> 'm monitor \<Rightarrow> 'm monitor" where
  "judge_round cfg t since joined n s =
     (let (f, eg) = swap_failed (mn_egress s);
          ri = \<lparr>ri_observed_at = t, ri_since_handshake = since, ri_joined = joined,
                ri_egress = \<lparr>es_ok = n, es_failed = f\<rparr>\<rparr>;
          (ev, ms, rest, d) = probe_round (hc_min_successes (cfg_health cfg)) (mn_degraded s) ri
      in s\<lparr>mn_egress := eg, mn_degraded := d, mn_probe := SendingProbe ev, mn_rounds := mn_rounds s @ [ri]\<rparr>)"

definition enqueue :: "supervisor_event \<Rightarrow> 'm monitor \<Rightarrow> 'm monitor" where
  "enqueue e s = s\<lparr>mn_queue := mn_queue s @ [e], mn_sent := mn_sent s @ [e]\<rparr>"

text \<open>A handler clears the health flag before it waits for its backoff; everything else it does is taken
  together when it returns.\<close>

fun note_failure :: "supervisor_event \<Rightarrow> 'm supervisor \<Rightarrow> 'm supervisor" where
  "note_failure (ProbeFailed reason t) s = (if probe_is_stale t s then s else s\<lparr>sv_healthy := False\<rparr>)"
| "note_failure e s = s"

definition receive_event :: "'m monitor \<Rightarrow> 'm monitor" where
  "receive_event s =
     (case mn_queue s of
        [] \<Rightarrow> s
      | e # rest \<Rightarrow>
          s\<lparr>mn_queue := rest, mn_handling := Some (mn_now s, e), mn_sup := note_failure e (mn_sup s)\<rparr>)"

text \<open>Whether the sleep of the handler is over.\<close>

fun backoff_over :: "config \<Rightarrow> 'm supervisor \<Rightarrow> instant \<Rightarrow> supervisor_event \<Rightarrow> instant \<Rightarrow> bool" where
  "backoff_over cfg sv begun (ProbeFailed reason t) now \<longleftrightarrow>
     probe_is_stale t sv \<or>
     begun + from_millis (backoff_ms (cfg_recovery cfg) (u8_saturating_inc (sv_failures sv))) \<le> now"
| "backoff_over cfg sv begun e now \<longleftrightarrow> True"

text \<open>Whether handling the event was a recovery that succeeded.\<close>

fun recovered :: "config \<Rightarrow> 'm supervisor \<Rightarrow> supervisor_event \<Rightarrow> unit res \<Rightarrow> instant option" where
  "recovered cfg sv (ProbeFailed reason t) r =
     (if \<not> probe_is_stale t sv \<and> r = Ok () \<and>
         action_for (cfg_recovery cfg) (u8_saturating_inc (sv_failures sv)) \<noteq> NoAction
      then Some t else None)"
| "recovered cfg sv e r = None"

definition finish_event ::
  "json_codec \<Rightarrow> config \<Rightarrow> 'm sup_env \<Rightarrow> supervisor_event \<Rightarrow> 'm monitor \<Rightarrow> 'm monitor" where
  "finish_event js cfg env e s =
     (let (r, sv) = handle_event js cfg env e (mn_sup s)
      in s\<lparr>mn_sup := sv, mn_handling := None,
           mn_result := (if r = Panic then Some Panic else None),
           mn_log := mn_log s @ [Dispatch env e],
           mn_recoveries := mn_recoveries s @
             (case recovered cfg (mn_sup s) e r of Some t \<Rightarrow> [(t, mn_now s)] | None \<Rightarrow> [])\<rparr>)"

section \<open>Concurrent runs\<close>

text \<open>Time passes and dials are recorded at any moment; the tasks run until the loop has returned. Between
  two events the loop may see the cancellation or the end of a task; a handler is not interrupted.\<close>

inductive monitor_step :: "json_codec \<Rightarrow> config \<Rightarrow> 'm monitor \<Rightarrow> 'm monitor \<Rightarrow> bool"
  for js :: json_codec and cfg :: config
where
  elapse: "monitor_step js cfg s (s\<lparr>mn_now := mn_now s + d\<rparr>)"
| dialled: "monitor_step js cfg s (s\<lparr>mn_egress := record_dial b (mn_egress s)\<rparr>)"
| tick: "mn_result s = None \<Longrightarrow> mn_probe s = AwaitTick \<Longrightarrow> monitor_step js cfg s (probe_tick since s)"
| joined: "mn_result s = None \<Longrightarrow> mn_probe s = Probing t since \<Longrightarrow>
    monitor_step js cfg s (probes_joined t since js' s)"
| judged: "mn_result s = None \<Longrightarrow> mn_probe s = TakingWindow t since js' n \<Longrightarrow>
    monitor_step js cfg s (judge_round cfg t since js' n s)"
| send_probe: "mn_result s = None \<Longrightarrow> mn_probe s = SendingProbe e \<Longrightarrow> length (mn_queue s) < EVENT_CAPACITY \<Longrightarrow>
    monitor_step js cfg s ((enqueue e s)\<lparr>mn_probe := AwaitTick\<rparr>)"
| timer: "mn_result s = None \<Longrightarrow> mn_timer s = AwaitTimer \<Longrightarrow>
    monitor_step js cfg s (s\<lparr>mn_timer := SendingRefresh\<rparr>)"
| send_refresh: "mn_result s = None \<Longrightarrow> mn_timer s = SendingRefresh \<Longrightarrow>
    length (mn_queue s) < EVENT_CAPACITY \<Longrightarrow>
    monitor_step js cfg s ((enqueue RefreshTick s)\<lparr>mn_timer := AwaitTimer\<rparr>)"
| receive: "mn_result s = None \<Longrightarrow> mn_handling s = None \<Longrightarrow> monitor_step js cfg s (receive_event s)"
| finish: "mn_result s = None \<Longrightarrow> mn_handling s = Some (begun, e) \<Longrightarrow> se_completed env = mn_now s \<Longrightarrow>
    backoff_over cfg (mn_sup s) begun e (mn_now s) \<Longrightarrow>
    monitor_step js cfg s (finish_event js cfg env e s)"
| cancelled: "mn_result s = None \<Longrightarrow> mn_handling s = None \<Longrightarrow>
    monitor_step js cfg s (s\<lparr>mn_result := Some (Ok ()), mn_log := mn_log s @ [CancelLoop]\<rparr>)"
| task_ended: "mn_result s = None \<Longrightarrow> mn_handling s = None \<Longrightarrow>
    monitor_step js cfg s (s\<lparr>mn_result := Some (Err (background_error x)),
      mn_log := mn_log s @ [BackgroundEnded x]\<rparr>)"

inductive monitor_run :: "json_codec \<Rightarrow> config \<Rightarrow> 'm monitor \<Rightarrow> 'm monitor \<Rightarrow> bool"
  for js :: json_codec and cfg :: config and s0 :: "'m monitor"
where
  start: "monitor_run js cfg s0 s0"
| step: "monitor_run js cfg s0 s \<Longrightarrow> monitor_step js cfg s s' \<Longrightarrow> monitor_run js cfg s0 s'"

section \<open>The sequential supervisor behind a run\<close>

fun event_of :: "'m loop_input \<Rightarrow> supervisor_event option" where
  "event_of (Dispatch env e) = Some e"
| "event_of i = None"

definition handled :: "'m monitor \<Rightarrow> supervisor_event list" where
  "handled s = List.map_filter event_of (mn_log s)"

definition in_handler :: "'m monitor \<Rightarrow> supervisor_event list" where
  "in_handler s = (case mn_handling s of None \<Rightarrow> [] | Some (begun, e) \<Rightarrow> [e])"

definition in_probe :: "'m monitor \<Rightarrow> supervisor_event list" where
  "in_probe s = (case mn_probe s of SendingProbe e \<Rightarrow> [e] | _ \<Rightarrow> [])"

definition fifo_inv :: "'m monitor \<Rightarrow> bool" where
  "fifo_inv s \<longleftrightarrow> handled s @ in_handler s @ mn_queue s = mn_sent s \<and> length (mn_queue s) \<le> EVENT_CAPACITY"

definition probes_inv :: "config \<Rightarrow> 'm monitor \<Rightarrow> bool" where
  "probes_inv cfg s \<longleftrightarrow>
     probe_loop (hc_min_successes (cfg_health cfg)) 0 (mn_rounds s) =
       (filter (\<lambda>e. e \<noteq> RefreshTick) (mn_sent s) @ in_probe s, mn_degraded s)"

definition loop_inv :: "json_codec \<Rightarrow> config \<Rightarrow> 'm supervisor \<Rightarrow> 'm monitor \<Rightarrow> bool" where
  "loop_inv js cfg sv s \<longleftrightarrow>
     (\<exists>sv1. supervisor_loop js cfg (mn_log s) sv = (mn_result s, sv1) \<and>
        mn_sup s = (case mn_handling s of None \<Rightarrow> sv1 | Some (begun, e) \<Rightarrow> note_failure e sv1))"

lemmas monitor_defs = probe_tick_def probes_joined_def judge_round_def enqueue_def receive_event_def
  finish_event_def Let_def

lemma note_failure_idem [simp]:
  "handle_event js cfg env e (note_failure e s) = handle_event js cfg env e s"
  by (cases e) (simp_all add: handle_event_def probe_is_stale_def)

lemma note_failure_frame [simp]:
  "sv_last_recovery (note_failure e s) = sv_last_recovery s"
  "sv_failures (note_failure e s) = sv_failures s"
  "probe_is_stale t (note_failure e s) = probe_is_stale t s"
  by (cases e; simp add: probe_is_stale_def)+

declare note_failure.simps [simp del]

lemma supervisor_loop_append:
  "supervisor_loop js cfg ins s = (None, s1) \<Longrightarrow>
     supervisor_loop js cfg (ins @ ins') s = supervisor_loop js cfg ins' s1"
  by (induction js cfg ins s rule: supervisor_loop.induct) (auto simp: Let_def split: prod.splits if_splits)

lemma probe_round_event: "fst (probe_round k d r) \<noteq> RefreshTick"
  by (auto simp: probe_round_def Let_def split: prod.splits option.splits result.splits if_splits)

lemma probe_loop_append1:
  "probe_loop k d (rs @ [r]) =
     (fst (probe_loop k d rs) @ [fst (probe_round k (snd (probe_loop k d rs)) r)],
      snd (snd (snd (probe_round k (snd (probe_loop k d rs)) r))))"
  by (induction rs arbitrary: d) (simp_all add: round_event_def round_next_def)

lemma probe_loop_events: "e \<in> set (fst (probe_loop k d rs)) \<Longrightarrow> e \<noteq> RefreshTick"
  by (induction rs arbitrary: d) (auto simp: round_event_def probe_round_event [THEN not_sym])

lemma fifo_start: "fifo_inv (monitor_start cfg now sv)"
  by (simp add: fifo_inv_def monitor_start_def handled_def in_handler_def List.map_filter_simps)

lemma fifo_step: "monitor_step js cfg s s' \<Longrightarrow> fifo_inv s \<Longrightarrow> fifo_inv s'"
  by (induction rule: monitor_step.induct)
    (auto simp: fifo_inv_def handled_def in_handler_def monitor_defs List.map_filter_def
      split: prod.splits list.splits)

lemma probes_start: "probes_inv cfg (monitor_start cfg now sv)"
  by (simp add: probes_inv_def monitor_start_def in_probe_def)

lemma probes_judge:
  assumes "probes_inv cfg s" "mn_probe s = TakingWindow t since js' n"
  shows "probes_inv cfg (judge_round cfg t since js' n s)"
proof -
  let ?k = "hc_min_successes (cfg_health cfg)"
  have "probe_loop ?k 0 (mn_rounds s) = (filter (\<lambda>e. e \<noteq> RefreshTick) (mn_sent s), mn_degraded s)"
    using assms by (simp add: probes_inv_def in_probe_def)
  then show ?thesis
    by (auto simp: probes_inv_def in_probe_def judge_round_def probe_loop_append1 Let_def split: prod.splits)
qed

lemma probes_send:
  assumes "probes_inv cfg s" "mn_probe s = SendingProbe e"
  shows "probes_inv cfg ((enqueue e s)\<lparr>mn_probe := AwaitTick\<rparr>)"
proof -
  have "e \<in> set (fst (probe_loop (hc_min_successes (cfg_health cfg)) 0 (mn_rounds s)))"
    using assms by (simp add: probes_inv_def in_probe_def)
  then have "e \<noteq> RefreshTick" by (rule probe_loop_events)
  with assms show ?thesis by (simp add: probes_inv_def in_probe_def enqueue_def)
qed

lemma probes_step: "monitor_step js cfg s s' \<Longrightarrow> probes_inv cfg s \<Longrightarrow> probes_inv cfg s'"
proof (induction rule: monitor_step.induct)
  case (judged s t since js' n)
  then show ?case by (simp add: probes_judge)
next
  case (send_probe s e)
  then show ?case by (simp add: probes_send)
qed (auto simp: probes_inv_def in_probe_def monitor_defs split: prod.splits list.splits)

lemma loop_start: "loop_inv js cfg sv (monitor_start cfg now sv)"
  by (simp add: loop_inv_def monitor_start_def)

lemma loop_finish:
  assumes "loop_inv js cfg sv s" "mn_result s = None" "mn_handling s = Some (begun, e)"
  shows "loop_inv js cfg sv (finish_event js cfg env e s)"
proof -
  obtain sv1 where sv1: "supervisor_loop js cfg (mn_log s) sv = (None, sv1)" "mn_sup s = note_failure e sv1"
    using assms by (auto simp: loop_inv_def)
  obtain r sv2 where h: "handle_event js cfg env e sv1 = (r, sv2)" by (cases "handle_event js cfg env e sv1")
  show ?thesis
    using supervisor_loop_append [OF sv1(1), of "[Dispatch env e]"]
    by (simp add: loop_inv_def finish_event_def sv1(2) h)
qed

lemma loop_step: "monitor_step js cfg s s' \<Longrightarrow> loop_inv js cfg sv s \<Longrightarrow> loop_inv js cfg sv s'"
proof (induction rule: monitor_step.induct)
  case (finish s begun e env)
  then show ?case by (simp add: loop_finish)
qed (auto simp: loop_inv_def monitor_defs supervisor_loop_append split: prod.splits list.splits)

lemma monitor_invariant:
  assumes "monitor_run js cfg s0 s" "P s0" "\<And>s s'. monitor_step js cfg s s' \<Longrightarrow> P s \<Longrightarrow> P s'"
  shows "P s"
  using assms(1) by (induction rule: monitor_run.induct) (auto intro: assms(2,3))

text \<open>C16. The concurrent supervisor implements the sequential one. However the probe loop, the refresh
  timer, the dials and the dispatch loop interleave, the supervisor's state and result are those of
  \<open>supervisor_loop\<close> over what the dispatch loop took up, with at most the health flag already down for
  the event in the handler. Events are handled in the order they were sent, none is lost or handled
  twice, at most 64 wait; and those of the probes are, in order, what \<open>probe_loop\<close> makes of its
  rounds.\<close>

theorem monitor_refines_supervisor:
  assumes "monitor_run js cfg (monitor_start cfg now sv) s"
  shows "fst (supervisor_loop js cfg (mn_log s) sv) = mn_result s
    \<and> mn_sup s = (case mn_handling s of
        None \<Rightarrow> snd (supervisor_loop js cfg (mn_log s) sv)
      | Some (begun, e) \<Rightarrow> note_failure e (snd (supervisor_loop js cfg (mn_log s) sv)))
    \<and> handled s @ in_handler s @ mn_queue s = mn_sent s \<and> length (mn_queue s) \<le> 64
    \<and> filter (\<lambda>e. e \<noteq> RefreshTick) (mn_sent s) @ in_probe s =
        fst (probe_loop (hc_min_successes (cfg_health cfg)) 0 (mn_rounds s))"
proof -
  have "fifo_inv s"
    by (rule monitor_invariant [where P = fifo_inv, OF assms fifo_start]) (rule fifo_step)
  moreover have "probes_inv cfg s"
    by (rule monitor_invariant [where P = "probes_inv cfg", OF assms probes_start]) (rule probes_step)
  moreover have "loop_inv js cfg sv s"
    by (rule monitor_invariant [where P = "loop_inv js cfg sv", OF assms loop_start]) (rule loop_step)
  ultimately show ?thesis
    by (cases "mn_handling s") (auto simp: fifo_inv_def probes_inv_def loop_inv_def EVENT_CAPACITY_def)
qed

section \<open>The pace of recoveries\<close>

text \<open>The earliest instant the dispatch loop can be said to have worked until: when it took up the event in
  its handler, or now.\<close>

definition horizon :: "'m monitor \<Rightarrow> instant" where
  "horizon s = (case mn_handling s of None \<Rightarrow> mn_now s | Some (begun, e) \<Rightarrow> begun)"

fun observed_by :: "instant \<Rightarrow> supervisor_event \<Rightarrow> bool" where
  "observed_by now (ProbeOk t) \<longleftrightarrow> t \<le> now"
| "observed_by now (ProbeFailed reason t) \<longleftrightarrow> t \<le> now"
| "observed_by now RefreshTick \<longleftrightarrow> True"

fun probe_time_ok :: "instant \<Rightarrow> probe_phase \<Rightarrow> bool" where
  "probe_time_ok now AwaitTick \<longleftrightarrow> True"
| "probe_time_ok now (Probing t since) \<longleftrightarrow> t \<le> now"
| "probe_time_ok now (TakingWindow t since js' n) \<longleftrightarrow> t \<le> now"
| "probe_time_ok now (SendingProbe e) \<longleftrightarrow> observed_by now e"

definition times_inv :: "'m monitor \<Rightarrow> bool" where
  "times_inv s \<longleftrightarrow>
     probe_time_ok (mn_now s) (mn_probe s) \<and> list_all (observed_by (mn_now s)) (mn_queue s) \<and>
     list_all (observed_by (horizon s)) (in_handler s) \<and> horizon s \<le> mn_now s"

definition last_recovery :: "(instant \<times> instant) list \<Rightarrow> instant option" where
  "last_recovery rs = (if rs = [] then None else Some (snd (last rs)))"

definition recoveries_inv :: "config \<Rightarrow> instant \<Rightarrow> 'm monitor \<Rightarrow> bool" where
  "recoveries_inv cfg now s \<longleftrightarrow>
     sv_last_recovery (mn_sup s) = last_recovery (mn_recoveries s) \<and>
     sorted_wrt (\<lambda>r r'. snd r < fst r') (mn_recoveries s) \<and>
     list_all (\<lambda>(t, c). t + from_millis (backoff_ms (cfg_recovery cfg) 1) \<le> c \<and> c \<le> horizon s) (mn_recoveries s) \<and>
     now + length (mn_recoveries s) * from_millis (backoff_ms (cfg_recovery cfg) 1) \<le> horizon s"

lemma observed_by_mono: "observed_by a e \<Longrightarrow> a \<le> b \<Longrightarrow> observed_by b e"
  by (cases e) auto

lemma phase_ok_mono: "probe_time_ok a x \<Longrightarrow> a \<le> b \<Longrightarrow> probe_time_ok b x"
  by (cases x) (auto intro: observed_by_mono)

lemma list_observed_mono: "list_all (observed_by a) es \<Longrightarrow> a \<le> b \<Longrightarrow> list_all (observed_by b) es"
  by (auto simp: list_all_iff intro: observed_by_mono)

lemma probe_round_observed: "ri_observed_at r \<le> now \<Longrightarrow> observed_by now (fst (probe_round k d r))"
  by (auto simp: probe_round_def Let_def split: prod.splits option.splits result.splits)

lemma probe_round_observed':
  "probe_round k d r = (e, x) \<Longrightarrow> ri_observed_at r \<le> now \<Longrightarrow> observed_by now e"
  using probe_round_observed [of r now k d] by simp

lemma backoff_at_least: "backoff_ms r 1 \<le> backoff_ms r n"
proof -
  define lo hi e where "lo = as_millis (rc_backoff_min r) mod 2 ^ 64"
    and "hi = as_millis (rc_backoff_max r) mod 2 ^ 64" and "e = min (unat n - 1) 16"
  have lo: "lo \<le> u64_max" by (simp add: lo_def u64_max_def less_eq_Suc_le [symmetric])
  have "1 \<le> min (2 ^ e) u64_max" by (simp add: u64_max_def)
  then have "lo \<le> lo * min (2 ^ e) u64_max" by (metis mult.right_neutral mult_le_mono2)
  with lo have "min lo hi \<le> min (min (lo * min (2 ^ e) u64_max) u64_max) hi" by (intro min.mono) auto
  moreover have "backoff_ms r n = min (min (lo * min (2 ^ e) u64_max) u64_max) hi"
    by (simp only: backoff_ms_def Let_def lo_def hi_def e_def)
  moreover have "backoff_ms r 1 = min lo hi"
    using lo by (simp add: backoff_ms_def Let_def lo_def hi_def u64_max_def)
  ultimately show ?thesis by simp
qed

lemma escalate_last:
  "sv_last_recovery (snd (escalate js cfg env action sv)) =
     (if action \<noteq> NoAction \<and> fst (escalate js cfg env action sv) = Ok () then Some (se_completed env)
      else sv_last_recovery sv)"
  using escalate_cases [where js = js and cfg = cfg and env = env and action = action and s = sv]
  by (auto simp: kept_def split: prod.splits result.splits if_splits)

lemma handle_event_last:
  "sv_last_recovery (snd (handle_event js cfg env e sv)) =
     (case recovered cfg sv e (fst (handle_event js cfg env e sv)) of
        Some t \<Rightarrow> Some (se_completed env) | None \<Rightarrow> sv_last_recovery sv)"
proof (cases e)
  case RefreshTick
  then show ?thesis
    using refresh_cases [where js = js and cfg = cfg and env = env and s = sv] by (auto simp: kept_def split: prod.splits result.splits)
qed (auto simp: handle_event_def Let_def escalate_last)

lemma times_start: "times_inv (monitor_start cfg now sv)"
  by (simp add: times_inv_def monitor_start_def horizon_def in_handler_def)

lemma times_step: "monitor_step js cfg s s' \<Longrightarrow> times_inv s \<Longrightarrow> times_inv s'"
proof (induction rule: monitor_step.induct)
  case (elapse s d)
  then show ?case
    by (auto simp: times_inv_def horizon_def in_handler_def split: option.splits
        intro: phase_ok_mono list_observed_mono observed_by_mono)
next
  case (judged s t since js' n)
  then show ?case
    by (auto simp: times_inv_def horizon_def in_handler_def judge_round_def Let_def
        split: prod.splits option.splits dest!: probe_round_observed' [where now = "mn_now s"])
qed (auto simp: times_inv_def horizon_def in_handler_def monitor_defs split: prod.splits list.splits option.splits)

lemma horizon_finish:
  "mn_handling s = Some (begun, e) \<Longrightarrow> times_inv s \<Longrightarrow>
     horizon s = begun \<and> horizon (finish_event js cfg env e s) = mn_now s \<and> begun \<le> mn_now s \<and> observed_by begun e"
  by (auto simp: times_inv_def horizon_def in_handler_def finish_event_def split: prod.splits)

lemma recoveries_start:
  "sv_last_recovery sv = None \<Longrightarrow> recoveries_inv cfg now (monitor_start cfg now sv)"
  by (simp add: recoveries_inv_def monitor_start_def horizon_def last_recovery_def)

lemma recoveries_shift:
  assumes "recoveries_inv cfg now s" "horizon s \<le> horizon s'"
    "sv_last_recovery (mn_sup s') = sv_last_recovery (mn_sup s)" "mn_recoveries s' = mn_recoveries s"
  shows "recoveries_inv cfg now s'"
  using assms by (auto simp: recoveries_inv_def list_all_iff intro: order_trans)

lemma recoveries_last_max:
  "sorted_wrt (\<lambda>r r'. snd r < fst r') rs \<Longrightarrow> list_all (\<lambda>(t, c). t + b \<le> c \<and> c \<le> hor) rs \<Longrightarrow> r \<in> set rs \<Longrightarrow>
     snd r \<le> snd (last rs)" for rs :: "(instant \<times> instant) list"
  by (cases rs rule: rev_cases) (fastforce simp: sorted_wrt_append list_all_iff)+

lemma recoveries_finish:
  assumes inv: "recoveries_inv cfg now s" and times: "times_inv s"
    and e: "mn_handling s = Some (begun, e)" and env: "se_completed env = mn_now s"
    and slept: "backoff_over cfg (mn_sup s) begun e (mn_now s)"
  shows "recoveries_inv cfg now (finish_event js cfg env e s)"
proof -
  let ?h = "handle_event js cfg env e (mn_sup s)" and ?s' = "finish_event js cfg env e s"
  have h: "mn_sup ?s' = snd ?h"
    "mn_recoveries ?s' = mn_recoveries s @ (case recovered cfg (mn_sup s) e (fst ?h) of Some t \<Rightarrow> [(t, mn_now s)] | None \<Rightarrow> [])"
    by (simp_all add: finish_event_def split: prod.splits)
  note hor = horizon_finish [OF e times, of js cfg env]
  show ?thesis
  proof (cases "recovered cfg (mn_sup s) e (fst ?h)")
    case None
    then show ?thesis
      using hor by (intro recoveries_shift [OF inv]) (simp_all add: h handle_event_last)
  next
    case (Some t)
    then obtain reason where pf: "e = ProbeFailed reason t" "\<not> probe_is_stale t (mn_sup s)"
      by (cases e) (auto split: if_splits)
    let ?b = "from_millis (backoff_ms (cfg_recovery cfg) 1)"
    have "?b \<le> from_millis (backoff_ms (cfg_recovery cfg) (u8_saturating_inc (sv_failures (mn_sup s))))"
      using backoff_at_least by (simp add: from_millis_def)
    with slept pf have "begun + ?b \<le> mn_now s" by simp
    moreover have "list_all (\<lambda>(o', c). o' + ?b \<le> c \<and> c \<le> mn_now s) (mn_recoveries s)"
      "sorted_wrt (\<lambda>r r'. snd r < fst r') (mn_recoveries s)"
      "now + length (mn_recoveries s) * ?b \<le> begun"
      using inv hor by (auto simp: recoveries_inv_def list_all_iff)
    moreover have "\<forall>r \<in> set (mn_recoveries s). snd r < t"
      using inv pf(2) recoveries_last_max [of "mn_recoveries s"]
      by (fastforce simp: recoveries_inv_def probe_is_stale_def last_recovery_def split: if_splits)
    moreover have "t \<le> begun" using hor pf(1) by simp
    ultimately show ?thesis
      using hor by (auto simp: recoveries_inv_def h handle_event_last Some env last_recovery_def
          sorted_wrt_append list_all_iff)
  qed
qed

lemma recoveries_step:
  assumes "monitor_step js cfg s s'" "times_inv s" "recoveries_inv cfg now s"
  shows "recoveries_inv cfg now s'"
  using assms
proof (induction rule: monitor_step.induct)
  case (finish s begun e env)
  then show ?case by (intro recoveries_finish)
next
  case (receive s)
  then show ?case
    by (intro recoveries_shift [OF receive(4)])
      (auto simp: receive_event_def horizon_def split: list.splits)
qed (auto simp: monitor_defs horizon_def split: prod.splits option.splits elim!: recoveries_shift)

text \<open>Whether a fresh failure is in the handler, the flag is down.\<close>

definition flag_inv :: "'m monitor \<Rightarrow> bool" where
  "flag_inv s \<longleftrightarrow>
     (\<forall>begun reason t. mn_handling s = Some (begun, ProbeFailed reason t) \<longrightarrow>
        \<not> probe_is_stale t (mn_sup s) \<longrightarrow> \<not> sv_healthy (mn_sup s))"

lemma flag_start: "flag_inv (monitor_start cfg now sv)"
  by (simp add: flag_inv_def monitor_start_def)

lemma flag_step: "monitor_step js cfg s s' \<Longrightarrow> flag_inv s \<Longrightarrow> flag_inv s'"
  by (induction rule: monitor_step.induct)
    (auto simp: flag_inv_def monitor_defs note_failure.simps split: prod.splits list.splits if_splits)

text \<open>C15. The pace of recoveries under every interleaving. A recovery is only ever triggered by a probe
  observed strictly after every earlier recovery completed, so failures that queued up behind a slow
  recovery never climb the ladder; it completes at least the minimum backoff after the observation of
  its probe, so any two recoveries complete more than the minimum backoff apart and their number is
  bounded by the time that has passed; and while a fresh failure is being handled, the flag that admits
  clients is down.\<close>

theorem recoveries_paced:
  assumes "monitor_run js cfg (monitor_start cfg now sv) s" and "sv_last_recovery sv = None"
  shows "sorted_wrt (\<lambda>(t, c) (t', c').
        c < t' \<and> c + from_millis (backoff_ms (cfg_recovery cfg) 1) < c') (mn_recoveries s)
    \<and> list_all (\<lambda>(t, c). t + from_millis (backoff_ms (cfg_recovery cfg) 1) \<le> c \<and> c \<le> mn_now s) (mn_recoveries s)
    \<and> now + length (mn_recoveries s) * from_millis (backoff_ms (cfg_recovery cfg) 1) \<le> mn_now s
    \<and> (\<forall>begun reason t. mn_handling s = Some (begun, ProbeFailed reason t) \<longrightarrow>
        probe_is_stale t (mn_sup s) \<or> \<not> sv_healthy (mn_sup s))"
proof -
  let ?P = "\<lambda>s. times_inv s \<and> recoveries_inv cfg now s \<and> flag_inv s"
  have start: "?P (monitor_start cfg now sv)"
    by (intro conjI times_start recoveries_start flag_start assms(2))
  have inv: "?P s"
    by (rule monitor_invariant [where P = ?P, OF assms(1) start])
      (blast intro: times_step recoveries_step flag_step)
  then have hor: "horizon s \<le> mn_now s" by (simp add: times_inv_def)
  have "sorted_wrt (\<lambda>(t, c) (t', c').
      c < t' \<and> c + from_millis (backoff_ms (cfg_recovery cfg) 1) < c') (mn_recoveries s)"
  proof (rule sorted_wrt_mono_rel)
    show "sorted_wrt (\<lambda>r r'. snd r < fst r') (mn_recoveries s)" using inv by (simp add: recoveries_inv_def)
    fix r r' assume "r \<in> set (mn_recoveries s)" "r' \<in> set (mn_recoveries s)" "snd r < fst r'"
    moreover have "fst r' + from_millis (backoff_ms (cfg_recovery cfg) 1) \<le> snd r'"
      using inv \<open>r' \<in> set (mn_recoveries s)\<close> by (auto simp: recoveries_inv_def list_all_iff)
    ultimately show "(case r of (t, c) \<Rightarrow> \<lambda>(t', c').
        c < t' \<and> c + from_millis (backoff_ms (cfg_recovery cfg) 1) < c') r'"
      by (auto split: prod.splits)
  qed
  with inv hor show ?thesis
    by (auto simp: recoveries_inv_def flag_inv_def list_all_iff split_def)
qed

text \<open>A first round whose quorum fails, its event, and the reconnect it leads to half a second later.\<close>

definition failed_probe :: supervisor_event where
  "failed_probe = ProbeFailed (QuorumFailed (Other (EgressQuorumFailed 0 2 []))) 0"

definition example_start :: "nat monitor" where
  "example_start = monitor_start (default_config None) 0 example_supervisor"

definition failing_round :: "nat monitor" where
  "failing_round =
     (enqueue failed_probe (judge_round (default_config None) 0 (Some 0) [] 0
        (probes_joined 0 (Some 0) [] (probe_tick (Some 0) example_start))))\<lparr>mn_probe := AwaitTick\<rparr>"

definition after_backoff :: "nat monitor" where
  "after_backoff = (let s = receive_event failing_round in s\<lparr>mn_now := mn_now s + from_millis 500\<rparr>)"

definition example_recovery :: "nat monitor" where
  "example_recovery = finish_event example_codec (default_config None)
     (example_sup_env\<lparr>se_completed := from_millis 500\<rparr>) failed_probe after_backoff"

lemma judged_failing:
  "mn_probe (judge_round (default_config None) 0 (Some 0) [] 0
     (probes_joined 0 (Some 0) [] (probe_tick (Some 0) example_start))) = SendingProbe failed_probe"
  by (simp add: judge_round_def probes_joined_def probe_tick_def example_start_def monitor_start_def
      swap_ok_def swap_failed_def egress_new_def probe_round_def stale_handshake_def probe_targets_def
      failed_probe_def default_config_def default_health_def Let_def split: prod.splits)

lemma failing_round_run:
  "monitor_run example_codec (default_config None) example_start failing_round"
  unfolding failing_round_def
  by (intro monitor_run.step [OF _ monitor_step.send_probe] monitor_run.step [OF _ monitor_step.judged]
      monitor_run.step [OF _ monitor_step.joined] monitor_run.step [OF _ monitor_step.tick] monitor_run.start)
    (simp_all add: judged_failing,
     simp_all add: monitor_defs example_start_def monitor_start_def swap_ok_def egress_new_def EVENT_CAPACITY_def
       split: prod.splits)

lemma failing_round_simps:
  "mn_result failing_round = None" "mn_handling failing_round = None" "mn_queue failing_round = [failed_probe]"
  "mn_now failing_round = 0" "mn_log failing_round = []" "mn_sup failing_round = example_supervisor" "mn_recoveries failing_round = []"
  by (simp_all add: failing_round_def monitor_defs example_start_def monitor_start_def split: prod.splits)

lemma after_backoff_simps:
  "mn_result after_backoff = None" "mn_handling after_backoff = Some (0, failed_probe)"
  "mn_now after_backoff = from_millis 500" "mn_sup after_backoff = note_failure failed_probe example_supervisor"
  "mn_recoveries after_backoff = []" "mn_log after_backoff = []" "mn_queue after_backoff = []"
  by (simp_all add: after_backoff_def receive_event_def failing_round_simps Let_def)

lemma after_backoff_run: "monitor_run example_codec (default_config None) example_start after_backoff"
  unfolding after_backoff_def Let_def
  by (intro monitor_run.step [OF _ monitor_step.elapse] monitor_run.step [OF _ monitor_step.receive]
      failing_round_run) (simp_all add: failing_round_simps)

lemma example_facts:
  "u8_saturating_inc (sv_failures example_supervisor) = 1" "\<not> probe_is_stale 0 example_supervisor"
  "action_for (cfg_recovery (default_config None)) 1 = Reconnect"
  "backoff_ms (cfg_recovery (default_config None)) 1 = 500"
  by (simp_all add: example_supervisor_def supervisor_new_def u8_saturating_inc_def probe_is_stale_def
      default_config_def default_recovery_def action_for_def word_le_nat_alt backoff_ms_def u64_max_def
      from_secs_def as_millis_def from_millis_def)

lemma example_recovery_run: "monitor_run example_codec (default_config None) example_start example_recovery"
  unfolding example_recovery_def
  by (intro monitor_run.step [OF after_backoff_run monitor_step.finish])
    (simp_all add: after_backoff_simps failed_probe_def example_facts)

lemma example_recovery_handled:
  "\<exists>sv. handle_event example_codec (default_config None) (example_sup_env\<lparr>se_completed := from_millis 500\<rparr>)
     failed_probe example_supervisor = (Ok (), sv)"
  by (simp add: failed_probe_def handle_event_def example_facts Let_def escalate_def run_action_def
      action_reconnect_def rebuild_and_store_def rebuild_def example_sup_env_def)

lemma example_recovery_simps:
  "mn_recoveries example_recovery = [(0, from_millis 500)]" "mn_result example_recovery = None"
  "handled example_recovery = [failed_probe]" "mn_handling example_recovery = None"
  "mn_queue example_recovery = []" "mn_now example_recovery = from_millis 500"
proof -
  obtain sv where sv: "handle_event example_codec (default_config None)
      (example_sup_env\<lparr>se_completed := from_millis 500\<rparr>) failed_probe example_supervisor = (Ok (), sv)"
    using example_recovery_handled by blast
  have "recovered (default_config None) (note_failure failed_probe example_supervisor) failed_probe (Ok ()) = Some 0"
    by (simp add: failed_probe_def example_facts)
  then show "mn_recoveries example_recovery = [(0, from_millis 500)]" "mn_result example_recovery = None"
    "handled example_recovery = [failed_probe]" "mn_handling example_recovery = None"
    "mn_queue example_recovery = []" "mn_now example_recovery = from_millis 500"
    by (simp_all add: example_recovery_def finish_event_def handled_def after_backoff_simps sv List.map_filter_simps)
qed

theorem recoveries_paced_witness:
  "mn_recoveries example_recovery = [(0, from_millis 500)] \<and> from_millis 500 \<le> mn_now example_recovery"
proof -
  have "sv_last_recovery example_supervisor = None" by (simp add: example_supervisor_def supervisor_new_def)
  from recoveries_paced [OF example_recovery_run [unfolded example_start_def] this]
  show ?thesis by (simp add: example_recovery_simps example_facts)
qed

theorem monitor_refines_supervisor_witness:
  "mn_sent example_recovery = [failed_probe] \<and> mn_sup example_recovery =
     snd (supervisor_loop example_codec (default_config None) (mn_log example_recovery) example_supervisor)"
  using monitor_refines_supervisor [OF example_recovery_run [unfolded example_start_def]]
  by (auto simp: example_recovery_simps in_handler_def)

end
