(* ===== verification/Service.thy ===== *)
theory Service
  imports Prelude Net_Types Config Socks_Tcp Endpoints Generations Health Persistence Account Supervisor
begin

text \<open>
  The process around the components: \<open>run\<close> of \<open>src/main.rs\<close> from configuration to the running
  supervisor and down to the exit status, the \<open>/healthz\<close> answer of \<open>src/metrics.rs\<close>, and the
  configuration watcher of \<open>src/config_watch.rs\<close>.
\<close>

section \<open>Start-up\<close>

text \<open>The outside of a start-up: what loading the file, installing the metrics recorder, binding the
  listener, the API, the handshake race and the identity directory give.\<close>

record 'm launch_env =
  le_load :: "config res"
  le_recorder :: "unit res"
  le_host :: host_env
  le_bind :: "(unit, io_error) result"
  le_api :: api_env
  le_connect :: "wireguard_config \<Rightarrow> ('m \<times> wireguard_config) res"
  le_identities :: dir_listing
  le_now :: instant

fun config_result :: "(unit, config_error) result \<Rightarrow> unit res" where
  "config_result (Ok u) = Ok u"
| "config_result (Err e) = Err (Config e)"
| "config_result Panic = Panic"

definition launch_checks :: "'m launch_env \<Rightarrow> config res" where
  "launch_checks env =
     and_then (le_load env) (\<lambda>cfg.
     and_then (if mc_enabled (cfg_metrics cfg) then le_recorder env else Ok ()) (\<lambda>u.
     and_then (config_result (snd (validate (le_host env) cfg))) (\<lambda>u.
     and_then (bind_listener (srv_bind (cfg_server cfg)) (le_bind env)) (\<lambda>l. Ok cfg))))"

definition launch ::
  "json_codec \<Rightarrow> 'm launch_env \<Rightarrow> account_manager \<Rightarrow> (config \<times> 'm supervisor) res \<times> account_manager" where
  "launch js env m =
     (case launch_checks env of
        Err e \<Rightarrow> (Err e, m)
      | Panic \<Rightarrow> (Panic, m)
      | Ok cfg \<Rightarrow>
          (case load_or_register js (cfg_warp cfg) (le_api env) m of
             (Err e, m1) \<Rightarrow> (Err e, m1)
           | (Panic, m1) \<Rightarrow> (Panic, m1)
           | (Ok snapshot, m1) \<Rightarrow>
               (case le_connect env (as_wg_config snapshot) of
                  Err e \<Rightarrow> (Err e, m1)
                | Panic \<Rightarrow> (Panic, m1)
                | Ok (managed, active) \<Rightarrow>
                    (case pool_load (le_identities env) of
                       Err e \<Rightarrow> (Err e, m1)
                     | Panic \<Rightarrow> (Panic, m1)
                     | Ok pool \<Rightarrow>
                         (Ok (cfg, supervisor_new m1 (from_managed (le_now env) managed) pool
                            (as_credentials snapshot) active), m1)))))"

section \<open>Shutdown\<close>

text \<open>What ends the main select: the cancellation token, or the first service to return.\<close>

datatype service_end = Cancelled | ServiceReturned string "unit res" | ServiceDied | NoServices

definition exit_result :: "service_end \<Rightarrow> unit res" where
  "exit_result e =
     (case e of
        Cancelled \<Rightarrow> Ok ()
      | ServiceReturned name (Ok u) \<Rightarrow> Err (Other (ServiceExited name))
      | ServiceReturned name (Err err) \<Rightarrow> Err (Other (ServiceFailed name err))
      | ServiceReturned name Panic \<Rightarrow> Err (Other ServiceTaskFailed)
      | ServiceDied \<Rightarrow> Err (Other ServiceTaskFailed)
      | NoServices \<Rightarrow> Err (Other AllServicesExited))"

text \<open>The services that are started, and what the select may take: it is not biased, so any branch that is
  ready when it is polled.\<close>

definition started_services :: "config \<Rightarrow> string list" where
  "started_services cfg =
     [''supervisor'', ''SOCKS5''] @ (if mc_enabled (cfg_metrics cfg) then [''metrics''] else [])"

definition watcher_started :: "config \<Rightarrow> bool" where
  "watcher_started cfg = hr_enabled (cfg_hot_reload cfg)"

definition ready_ends :: "bool \<Rightarrow> (string \<times> unit res) list \<Rightarrow> service_end list" where
  "ready_ends cancelled finished =
     (if cancelled then [Cancelled] else []) @ map (\<lambda>(name, r). ServiceReturned name r) finished"

definition shutdown :: "service_end \<Rightarrow> 'm supervisor \<Rightarrow> unit res \<times> 'm supervisor" where
  "shutdown e s = (exit_result e, s\<lparr>sv_tunnel := clear (sv_tunnel s)\<rparr>)"

definition healthz :: "'m supervisor \<Rightarrow> nat \<times> string" where
  "healthz s = (if sv_healthy s then (200, ''ok'') else (503, ''tunnel unhealthy''))"

section \<open>Configuration watcher\<close>

datatype notify_kind = Modified | Created | Removed | OtherEvent

record notify_event =
  ne_kind :: notify_kind
  ne_paths :: "path list"

definition WATCH_DEBOUNCE :: duration where "WATCH_DEBOUNCE = from_millis 250"

definition is_write :: "notify_kind \<Rightarrow> bool" where
  "is_write k \<longleftrightarrow> k \<noteq> OtherEvent"

text \<open>Whether an event reloads the file, and the time of the last reload. \<open>None\<close> is a watcher error.\<close>

definition watch_event :: "path \<Rightarrow> instant \<Rightarrow> notify_event option \<Rightarrow> instant option \<Rightarrow> bool \<times> instant option" where
  "watch_event config_path now evt last_kicked =
     (case evt of
        None \<Rightarrow> (False, last_kicked)
      | Some e \<Rightarrow>
          if \<not> (config_path \<in> set (ne_paths e) \<and> is_write (ne_kind e)) then (False, last_kicked)
          else case last_kicked of
              Some t \<Rightarrow> if now - t < WATCH_DEBOUNCE then (False, last_kicked) else (True, Some now)
            | None \<Rightarrow> (True, Some now))"

datatype reload_report = ReloadValid | ReloadInvalid config_error | ReloadUnreadable error | ReloadPanic

definition watch_reload :: "host_env \<Rightarrow> config res \<Rightarrow> reload_report" where
  "watch_reload host loaded =
     (case loaded of
        Ok cfg \<Rightarrow>
          (case snd (validate host cfg) of
             Ok u \<Rightarrow> ReloadValid | Err e \<Rightarrow> ReloadInvalid e | Panic \<Rightarrow> ReloadPanic)
      | Err e \<Rightarrow> ReloadUnreadable e
      | Panic \<Rightarrow> ReloadPanic)"

fun watch_run :: "path \<Rightarrow> instant option \<Rightarrow> (instant \<times> notify_event option) list \<Rightarrow> instant list" where
  "watch_run p last_kicked [] = []"
| "watch_run p last_kicked ((now, evt) # evs) =
     (let (reload, last') = watch_event p now evt last_kicked
      in (if reload then [now] else []) @ watch_run p last' evs)"

section \<open>Properties\<close>

lemma config_result_Ok [simp]: "config_result r = Ok u \<longleftrightarrow> r = Ok u"
  by (cases r) auto

lemma launch_checks_Ok:
  "launch_checks env = Ok cfg \<Longrightarrow>
     le_load env = Ok cfg \<and> snd (validate (le_host env) cfg) = Ok () \<and> le_bind env = Ok ()"
  by (cases "le_bind env") (auto simp: launch_checks_def bind_listener_def split: if_splits)

lemma launch_Ok:
  assumes "launch js env m = (Ok (cfg, s), m')"
  obtains snap managed active pool where
    "launch_checks env = Ok cfg" "load_or_register js (cfg_warp cfg) (le_api env) m = (Ok snap, m')"
    "le_connect env (as_wg_config snap) = Ok (managed, active)"
    "s = supervisor_new m' (from_managed (le_now env) managed) pool (as_credentials snap) active"
  using assms
  by (auto simp: launch_def split: result.splits prod.splits)

lemma load_or_register_tuned:
  "load_or_register js cfg env m = (Ok snap, m') \<Longrightarrow> tuned_wg cfg (as_wg_config snap)"
  by (auto simp: load_or_register_def fetch_config_Ok register_candidate_Ok
      split: result.splits option.splits prod.splits)

lemma tunnel_abs_from_managed [simp]: "tunnel_abs (from_managed now managed) = Some managed"
  by (simp add: from_managed_def generation_new_def tunnel_abs_def Let_def)

lemma load_or_register_disk:
  assumes codec: "\<And>f c. js_enc js f = Some c \<Longrightarrow> js_dec js c = Some f"
    and tmp: "fs_files (am_disk m) (ev_tmp env) = None" "ev_tmp env \<noteq> account_path cfg"
    and ok: "load_or_register js cfg env m = (Ok snap, m')"
  shows "(\<exists>f. load (js_dec js) None (account_path cfg) (am_disk m') = Ok (Some f) \<and>
      af_credentials f = as_credentials snap) \<and>
    (\<forall>t. t \<noteq> account_path cfg \<longrightarrow> fs_files (am_disk m') t = fs_files (am_disk m) t)"
proof (cases "load (js_dec js) (ev_load_fault env) (account_path cfg) (am_disk m)")
  case (Ok found)
  then have nf: "ev_load_fault env = None" by (auto simp: load_def split: option.splits)
  show ?thesis
  proof (cases found)
    case (Some f)
    have "am_disk m' = am_disk m" "as_credentials snap = af_credentials f"
      using ok by (auto simp: load_or_register_def Ok Some fetch_config_Ok split: prod.splits result.splits)
    then show ?thesis using Ok nf Some by simp
  next
    case None
    obtain cand m1 where reg: "register_candidate cfg env m = (Ok cand, m1)"
      using ok by (cases "register_candidate cfg env m"; cases "fst (register_candidate cfg env m)")
        (auto simp: load_or_register_def Ok None)
    have m1: "am_disk m1 = am_disk m" using register_candidate_simps(1) [of cfg env m] by (simp add: reg)
    obtain disk where sv: "save (js_enc js) (ev_save_fault env) (ev_tmp env) (account_path cfg)
        (cd_account_file cand) (am_disk m) = (result.Ok (), disk)"
      and snap: "as_credentials snap = af_credentials (cd_account_file cand)" and m': "am_disk m' = disk"
      using ok by (auto simp: load_or_register_def Ok None reg save_account_def m1
          split: prod.splits result.splits)
    have "save_result (account_path cfg) (js_enc js (cd_account_file cand)) (am_disk m) (result.Ok ()) disk"
      using save_result [OF tmp, where enc = "js_enc js" and fault = "ev_save_fault env"
          and v = "cd_account_file cand"] by (simp add: sv)
    then have "load (js_dec js) None (account_path cfg) disk = result.Ok (Some (cd_account_file cand))"
      "\<forall>t. t \<noteq> account_path cfg \<longrightarrow> fs_files disk t = fs_files (am_disk m) t"
      using codec by (auto simp: save_result_def load_def)
    then show ?thesis using snap m' by simp
  qed
qed (use ok in \<open>simp_all add: load_or_register_def\<close>)

text \<open>Property. The exit status. The process ends without an error only if it was told to stop, and a service that
  ends on its own always makes it fail. The converse fails: when a service has already stopped by the
  time the main task looks, a process that was told to stop may still report a failure.\<close>

theorem exit_status:
  "(\<forall>e \<in> set (ready_ends cancelled finished). exit_result e = Ok () \<longleftrightarrow> e = Cancelled) \<and>
   (\<not> cancelled \<longrightarrow> (\<forall>e \<in> set (ready_ends cancelled finished). \<exists>err. exit_result e = Err err)) \<and>
   (finished \<noteq> [] \<longrightarrow> (\<exists>e \<in> set (ready_ends cancelled finished). exit_result e \<noteq> Ok ()))"
proof -
  have "exit_result e = Ok () \<longleftrightarrow> e = Cancelled" "e \<noteq> Cancelled \<longrightarrow> (\<exists>err. exit_result e = Err err)" for e
    by (auto simp: exit_result_def split: service_end.split result.split)
  then show ?thesis by (cases finished) (auto simp: ready_ends_def)
qed

theorem exit_status_witness:
  "exit_result Cancelled = Ok () \<and>
   (\<exists>e \<in> set (ready_ends True [(''supervisor'', Ok ())]). exit_result e \<noteq> Ok ())"
  using exit_status [of True "[(''supervisor'', Ok ())]"] by (auto simp: exit_result_def)

text \<open>C29. Start-up. A start that succeeds has passed validation and holds the listener's port; its tunnel
  is one whose handshake completed for a configuration with the configured MTU and buffer size; the
  account file on disk holds the credentials it runs with; and it reports itself unhealthy until a
  probe says otherwise. A start that fails before that, on the configuration file, the recorder,
  the validation or the port, has neither called the WARP API nor touched the disk.\<close>

theorem launch_establishes:
  assumes "\<And>f c. js_enc js f = Some c \<Longrightarrow> js_dec js c = Some f"
    and "fs_files (am_disk m) (ev_tmp (le_api env)) = None"
    and "\<And>cfg. ev_tmp (le_api env) \<noteq> account_path cfg"
  shows "case launch js env m of
      (Ok (cfg, s), m') \<Rightarrow>
        le_load env = Ok cfg \<and> snd (validate (le_host env) cfg) = Ok () \<and> le_bind env = Ok () \<and>
        (\<exists>wg managed. tuned_wg (cfg_warp cfg) wg \<and> le_connect env wg = Ok (managed, sv_wg_config s) \<and>
          tunnel_abs (sv_tunnel s) = Some managed) \<and>
        (\<exists>f. load (js_dec js) None (account_path (cfg_warp cfg)) (am_disk (sv_account s)) = Ok (Some f) \<and>
          af_credentials f = sv_creds s) \<and>
        fst (healthz s) = 503
    | (r, m') \<Rightarrow> (\<forall>cfg. launch_checks env \<noteq> Ok cfg) \<longrightarrow> m' = m"
proof (cases "fst (launch js env m)")
  case (Ok x)
  obtain cfg s m' where l: "launch js env m = (result.Ok (cfg, s), m')"
    using Ok by (cases "launch js env m"; cases x) auto
  from launch_Ok [OF l] obtain snap managed active pool where
    c: "launch_checks env = result.Ok cfg" and r: "load_or_register js (cfg_warp cfg) (le_api env) m = (result.Ok snap, m')"
    and k: "le_connect env (as_wg_config snap) = result.Ok (managed, active)"
    and s: "s = supervisor_new m' (from_managed (le_now env) managed) pool (as_credentials snap) active"
    by blast
  have "\<exists>f. load (js_dec js) None (account_path (cfg_warp cfg)) (am_disk m') = result.Ok (Some f) \<and>
    af_credentials f = as_credentials snap"
    using assms(1) by (rule load_or_register_disk [OF _ assms(2,3) r, THEN conjunct1])
  then show ?thesis
    using launch_checks_Ok [OF c] load_or_register_tuned [OF r] k
    by (auto simp: l s supervisor_new_def healthz_def)
next
  case (Err e)
  then show ?thesis by (cases "launch_checks env") (auto simp: launch_def split: prod.split result.splits)
next
  case Panic
  then show ?thesis by (cases "launch_checks env") (auto simp: launch_def split: prod.split result.splits)
qed

text \<open>A start with everything in order but the handshakes, which \<open>connect\<close> decides.\<close>

definition launch_with :: "(wireguard_config \<Rightarrow> ('m \<times> wireguard_config) res) \<Rightarrow> 'm launch_env" where
  "launch_with connect = \<lparr>le_load = Ok (default_config None), le_recorder = Ok (), le_host = witness_env,
     le_bind = Ok (), le_api = example_env, le_connect = connect,
     le_identities = DirMissing, le_now = 0\<rparr>"

lemma launch_with_simps [simp]:
  "le_load (launch_with connect) = Ok (default_config None)" "le_recorder (launch_with connect) = Ok ()"
  "le_host (launch_with connect) = witness_env" "le_bind (launch_with connect) = Ok ()"
  "le_api (launch_with connect) = example_env" "le_connect (launch_with connect) = connect"
  "le_identities (launch_with connect) = DirMissing" "le_now (launch_with connect) = 0"
  by (simp_all add: launch_with_def)

lemma launch_with_checks: "launch_checks (launch_with connect) = Ok (default_config None)"
proof -
  have "snd (validate witness_env (default_config None)) = Ok ()"
    using default_checks(1) [of None] default_checks(2) [of _ _ _ None] default_checks(3) [of None]
    by (simp add: validate_def validate_with_container_def validate_with_Ok witness_env_def
        check_memory_def total_system_memory_bytes_def Let_def)
  then show ?thesis by (simp add: launch_checks_def bind_listener_def)
qed

lemma launch_with_Ok:
  assumes "\<And>wg. \<exists>r. connect wg = Ok r"
  obtains s m' where "launch example_codec (launch_with connect) empty_manager = (Ok (default_config None, s), m')"
proof -
  obtain m' where reg: "load_or_register example_codec (cfg_warp (default_config None)) example_env empty_manager =
      (Ok \<lparr>as_wg_config = apply_transport_tuning default_warp example_wg, as_credentials = example_creds\<rparr>, m')"
    using example_first_start by (simp add: default_config_def)
  obtain managed active where c: "connect (apply_transport_tuning default_warp example_wg) = Ok (managed, active)"
    using assms by (metis surj_pair)
  have "\<exists>s. launch example_codec (launch_with connect) empty_manager = (Ok (default_config None, s), m')"
    unfolding launch_def launch_with_checks
    by (simp add: reg c pool_load_def)
  then show ?thesis using that by blast
qed

definition example_launch :: "nat launch_env" where
  "example_launch = launch_with (first_wins 2)"

lemma example_launch_checks: "launch_checks example_launch = Ok (default_config None)"
  by (simp add: example_launch_def launch_with_checks)

lemma example_launch_Ok:
  obtains cfg s m' where "launch example_codec example_launch empty_manager = (Ok (cfg, s), m')"
proof -
  have "\<exists>r. first_wins (2 :: nat) wg = Ok r" for wg by (simp add: first_wins_def)
  then obtain s m' where "launch example_codec (launch_with (first_wins (2 :: nat))) empty_manager =
      (Ok (default_config None, s), m')"
    by (rule launch_with_Ok)
  then show ?thesis using that by (simp add: example_launch_def)
qed

theorem launch_establishes_witness:
  "\<exists>cfg s m'. launch example_codec example_launch empty_manager = (Ok (cfg, s), m') \<and>
     (\<exists>wg. tuned_wg (cfg_warp cfg) wg \<and> le_connect example_launch wg = Ok (2, sv_wg_config s)) \<and>
     fst (healthz s) = 503"
proof -
  have "\<And>f c. js_enc example_codec f = Some c \<Longrightarrow> js_dec example_codec c = Some f"
    by (simp add: example_codec_def split: if_splits)
  moreover have "fs_files (am_disk empty_manager) (ev_tmp (le_api example_launch)) = None"
    by (simp add: empty_manager_def)
  moreover have "\<And>cfg. ev_tmp (le_api example_launch) \<noteq> account_path cfg"
    by (simp add: example_launch_def example_env_def account_path_def)
  ultimately have est: "case launch example_codec example_launch empty_manager of
      (Ok (cfg, s), m') \<Rightarrow>
        le_load example_launch = Ok cfg \<and> snd (validate (le_host example_launch) cfg) = Ok () \<and>
        le_bind example_launch = Ok () \<and>
        (\<exists>wg managed. tuned_wg (cfg_warp cfg) wg \<and>
          le_connect example_launch wg = Ok (managed, sv_wg_config s) \<and>
          tunnel_abs (sv_tunnel s) = Some managed) \<and>
        (\<exists>f. load (js_dec example_codec) None (account_path (cfg_warp cfg)) (am_disk (sv_account s)) =
             Ok (Some f) \<and> af_credentials f = sv_creds s) \<and>
        fst (healthz s) = 503
    | (r, m') \<Rightarrow> (\<forall>cfg. launch_checks example_launch \<noteq> Ok cfg) \<longrightarrow> m' = empty_manager"
    by (rule launch_establishes)
  obtain cfg s m' where l: "launch example_codec example_launch empty_manager = (Ok (cfg, s), m')"
    by (rule example_launch_Ok)
  obtain wg where "tuned_wg (cfg_warp cfg) wg" "fst (healthz s) = 503"
    "le_connect example_launch wg = Ok (2, sv_wg_config s)"
    using est unfolding l by (simp add: example_launch_def) (auto simp: first_wins_def)
  with l show ?thesis by blast
qed

section \<open>Watching the configuration file\<close>

definition reload_due :: "path \<Rightarrow> notify_event option \<Rightarrow> bool" where
  "reload_due p evt \<longleftrightarrow> (\<exists>e. evt = Some e \<and> p \<in> set (ne_paths e) \<and> is_write (ne_kind e))"

definition reload_now :: "path \<Rightarrow> instant option \<Rightarrow> instant \<Rightarrow> notify_event option \<Rightarrow> bool" where
  "reload_now p k now evt \<longleftrightarrow>
     reload_due p evt \<and> (case k of None \<Rightarrow> True | Some t \<Rightarrow> t + WATCH_DEBOUNCE \<le> now)"

lemma debounce_pos: "0 < WATCH_DEBOUNCE"
  by (simp add: WATCH_DEBOUNCE_def from_millis_def)

lemma watch_run_Cons:
  "watch_run p k ((now, evt) # evs) =
     (if reload_now p k now evt then now # watch_run p (Some now) evs else watch_run p k evs)"
  using debounce_pos
  by (auto simp: watch_event_def reload_now_def reload_due_def split: option.splits)

declare watch_run.simps(2) [simp del]
declare watch_run_Cons [simp]

lemma watch_run_reloads:
  "r \<in> set (watch_run p k evs) \<Longrightarrow>
     (\<exists>evt. (r, evt) \<in> set evs \<and> reload_due p evt) \<and>
     (sorted (map fst evs) \<longrightarrow> (\<forall>t. k = Some t \<longrightarrow> t + WATCH_DEBOUNCE \<le> r))"
proof (induction evs arbitrary: k)
  case (Cons e evs)
  obtain now evt where e: "e = (now, evt)" by (cases e)
  show ?case
  proof (cases "reload_now p k now evt")
    case True
    then have due: "reload_due p evt" "\<forall>t. k = Some t \<longrightarrow> t + WATCH_DEBOUNCE \<le> now"
      by (auto simp: reload_now_def)
    from Cons.prems True consider "r = now" | "r \<in> set (watch_run p (Some now) evs)" by (auto simp: e)
    then show ?thesis using Cons.IH [of "Some now"] due by cases (auto simp: e)
  next
    case False
    then show ?thesis using Cons by (auto simp: e)
  qed
qed simp

lemma watch_run_spaced:
  "sorted (map fst evs) \<Longrightarrow> sorted_wrt (\<lambda>a b. a + WATCH_DEBOUNCE \<le> b) (watch_run p k evs)"
  by (induction evs arbitrary: k) (use watch_run_reloads in \<open>auto\<close>)

lemma watch_run_covers:
  "sorted (map fst evs) \<Longrightarrow> (t, evt) \<in> set evs \<Longrightarrow> reload_due p evt \<Longrightarrow>
     \<exists>r. (r \<in> set (watch_run p k evs) \<and> r \<le> t \<or> k = Some r) \<and> t < r + WATCH_DEBOUNCE"
proof (induction evs arbitrary: k)
  case (Cons e evs)
  obtain now evt' where e: "e = (now, evt')" by (cases e)
  show ?case
  proof (cases "(t, evt) = e")
    case True
    then show ?thesis using Cons.prems(3) debounce_pos
      by (auto simp: e reload_now_def not_le split: option.splits)
  next
    case False
    with Cons.prems have later: "sorted (map fst evs)" "(t, evt) \<in> set evs" "now \<le> t" by (auto simp: e)
    show ?thesis
      using Cons.IH [OF later(1,2) Cons.prems(3), of "Some now"] later(3)
        Cons.IH [OF later(1,2) Cons.prems(3), of k] by (auto simp: e)
  qed
qed simp

text \<open>Property. The configuration watcher. Reloads are at least the 250 ms of the debounce apart, each is caused
  by a write, creation or removal of the configuration file itself, and no such event is lost
  without a reload at most 250 ms before it.\<close>

theorem watch_debounced:
  assumes "sorted (map fst evs)"
  shows "sorted_wrt (\<lambda>a b. a + from_millis 250 \<le> b) (watch_run p None evs) \<and>
    (\<forall>r \<in> set (watch_run p None evs). \<exists>evt. (r, evt) \<in> set evs \<and> reload_due p evt) \<and>
    (\<forall>(t, evt) \<in> set evs. reload_due p evt \<longrightarrow>
      (\<exists>r \<in> set (watch_run p None evs). r \<le> t \<and> t < r + from_millis 250))"
proof (intro conjI)
  show "sorted_wrt (\<lambda>a b. a + from_millis 250 \<le> b) (watch_run p None evs)"
    using watch_run_spaced [OF assms, of p None] by (simp add: WATCH_DEBOUNCE_def)
  show "\<forall>r \<in> set (watch_run p None evs). \<exists>evt. (r, evt) \<in> set evs \<and> reload_due p evt"
    using watch_run_reloads [of _ p None evs] by blast
  show "\<forall>(t, evt) \<in> set evs. reload_due p evt \<longrightarrow>
      (\<exists>r \<in> set (watch_run p None evs). r \<le> t \<and> t < r + from_millis 250)"
    using watch_run_covers [OF assms, of _ _ p None] by (fastforce simp: WATCH_DEBOUNCE_def)
qed

theorem watch_debounced_witness:
  "watch_run [''config.toml''] None
     [(0, Some \<lparr>ne_kind = Modified, ne_paths = [[''config.toml'']]\<rparr>),
      (from_millis 200, Some \<lparr>ne_kind = Modified, ne_paths = [[''config.toml'']]\<rparr>),
      (from_millis 300, Some \<lparr>ne_kind = Removed, ne_paths = [[''config.toml'']]\<rparr>)] = [0, from_millis 300] \<and>
   (0::nat) + from_millis 250 \<le> from_millis 300"
proof -
  let ?evs = "[(0, Some \<lparr>ne_kind = Modified, ne_paths = [[''config.toml'']]\<rparr>),
      (from_millis 200, Some \<lparr>ne_kind = Modified, ne_paths = [[''config.toml'']]\<rparr>),
      (from_millis 300, Some \<lparr>ne_kind = Removed, ne_paths = [[''config.toml'']]\<rparr>)]"
  have r: "watch_run [''config.toml''] None ?evs = [0, from_millis 300]"
    by (simp add: reload_now_def reload_due_def is_write_def WATCH_DEBOUNCE_def from_millis_def)
  have "sorted (map fst ?evs)" by (simp add: from_millis_def)
  from watch_debounced [OF this, of "[''config.toml'']"] r show ?thesis by simp
qed

end
