(* ===== verification/Warp_Api.thy ===== *)
theory Warp_Api
  imports Std_Net Resolver Endpoints Account
begin

text \<open>
  The client of Cloudflare's registration API, \<open>vendor/warp-wireguard-gen/src/api.rs\<close> with the request
  and response types of \<open>types.rs\<close>: registration, the license update, fetching a configuration and
  the choice of the peer endpoint candidates. The HTTP client, base64, the key generator and the host
  resolver are the fields of \<open>http_client\<close>; the requests a call makes are recorded in order. At the
  end the account manager of \<open>Account\<close> is run on this client.
\<close>

section \<open>Model\<close>

record register_request =
  rq_fcm_token :: string
  rq_install_id :: string
  rq_key :: string
  rq_locale :: string
  rq_model :: string
  rq_tos :: "string option"
  rq_device_type :: "string option"
  rq_serial_number :: "string option"
  rq_name :: "string option"

record endpoint =
  ep_host :: string
  ep_v4 :: string
  ep_v6 :: string

record peer =
  pe_public_key :: string
  pe_endpoint :: endpoint

record api_config =
  ac_address_v4 :: string
  ac_address_v6 :: string
  ac_peers :: "peer list"
  ac_client_id :: "string option"

record register_response =
  rs_id :: string
  rs_token :: string
  rs_license :: string
  rs_config :: api_config

record teams_enrollment =
  te_jwt_token :: string
  te_device_name :: "string option"
  te_serial_number :: "string option"

record registration_options =
  ro_device_model :: string
  ro_license_key :: "string option"
  ro_teams :: "teams_enrollment option"

text \<open>What lies outside: whether a text is a header value, TLS set-up and client construction, the
  three requests (up to a decoded body), base64, the key generator, the clock and \<open>lookup_host\<close>.\<close>

record http_client =
  hc_tls :: "(unit, warp_error) result"
  hc_header_ok :: "string \<Rightarrow> bool"
  hc_build :: "(unit, warp_error) result"
  hc_post_reg :: "string option \<Rightarrow> register_request \<Rightarrow> (register_response, warp_error) result"
  hc_get_reg :: "string \<Rightarrow> string \<Rightarrow> (api_config, warp_error) result"
  hc_put_account :: "string \<Rightarrow> string \<Rightarrow> string \<Rightarrow> (unit, warp_error) result"
  hc_encode :: "bytes \<Rightarrow> string"
  hc_decode :: "string \<Rightarrow> (bytes, string) result"
  hc_keypair :: "bytes \<times> bytes"
  hc_timestamp :: string
  hc_lookup :: "string \<Rightarrow> lookup_outcome"

datatype api_call =
    PostRegistration "string option" register_request
  | PutLicense string string
  | GetRegistration string

fun map_err :: "('e \<Rightarrow> 'f) \<Rightarrow> ('a, 'e) result \<Rightarrow> ('a, 'f) result" where
  "map_err f (Ok x) = Ok x"
| "map_err f (Err e) = Err (f e)"
| "map_err f Panic = Panic"

text \<open>A computation with the requests it has made, in order.\<close>

type_synonym 'a traced = "('a, warp_error) result \<times> api_call list"

fun then_do :: "'a traced \<Rightarrow> ('a \<Rightarrow> 'b traced) \<Rightarrow> 'b traced" where
  "then_do (Ok x, cs) f = (let (r, ds) = f x in (r, cs @ ds))"
| "then_do (Err e, cs) f = (Err e, cs)"
| "then_do (Panic, cs) f = (Panic, cs)"

subsection \<open>Endpoint candidates\<close>

definition endpoint_port :: "endpoint \<Rightarrow> u16" where
  "endpoint_port e =
     (case rsplit_once (CHR '':'') (ep_host e) of
        None \<Rightarrow> 2408
      | Some (h, p) \<Rightarrow>
          (case parse_unsigned 65535 (trim p) of
             None \<Rightarrow> 2408
           | Some n \<Rightarrow> if n = 0 then 2408 else word_of_nat n))"

definition parse_api_endpoint :: "string \<Rightarrow> u16 \<Rightarrow> sockaddr option" where
  "parse_api_endpoint raw0 port =
     (let raw = trim raw0 in
      if raw = [] then None
      else case parse_sockaddr raw of
          Some socket \<Rightarrow> Some (sockaddr_new (sa_ip socket) port)
        | None \<Rightarrow> map_option (\<lambda>ip. sockaddr_new ip port) (parse_ip raw))"

definition push_opt :: "'a list \<Rightarrow> 'a option \<Rightarrow> 'a list" where
  "push_opt xs x = (case x of None \<Rightarrow> xs | Some y \<Rightarrow> push_unique xs y)"

definition no_candidates_text :: "endpoint \<Rightarrow> string" where
  "no_candidates_text e =
     ''DNS/API endpoint candidates empty: host='' @ [CHR 0x27] @ ep_host e @ [CHR 0x27] @
     '' v4='' @ [CHR 0x27] @ ep_v4 e @ [CHR 0x27] @ '' v6='' @ [CHR 0x27] @ ep_v6 e @ [CHR 0x27]"

definition merge_endpoint_candidates :: "sockaddr list \<Rightarrow> endpoint \<Rightarrow> (sockaddr list, warp_error) result" where
  "merge_endpoint_candidates dns_candidates e =
     (let port = endpoint_port e;
          candidates =
            push_opt (push_opt (push_all_unique [] dns_candidates) (parse_api_endpoint (ep_v4 e) port))
              (parse_api_endpoint (ep_v6 e) port)
      in if candidates = [] then Err (WarpInvalidEndpoint (no_candidates_text e)) else Ok candidates)"

definition resolve_peer_endpoints :: "http_client \<Rightarrow> endpoint \<Rightarrow> (sockaddr list, warp_error) result" where
  "resolve_peer_endpoints api e =
     (let dns_candidates =
        (case hc_lookup api (trim (ep_host e)) of
           LookupTimeout \<Rightarrow> []
         | LookupFailed err \<Rightarrow> []
         | Resolved addrs \<Rightarrow> push_all_unique [] addrs)
      in merge_endpoint_candidates dns_candidates e)"

subsection \<open>Requests\<close>

definition create_client :: "http_client \<Rightarrow> string option \<Rightarrow> string option \<Rightarrow> (unit, warp_error) result" where
  "create_client api auth_token teams_jwt =
     and_then (hc_tls api) (\<lambda>u.
     if (case auth_token of None \<Rightarrow> False | Some t \<Rightarrow> \<not> hc_header_ok api (''Bearer '' @ t))
     then Err (InvalidResponse ''Invalid access token header'')
     else if (case teams_jwt of None \<Rightarrow> False | Some jwt \<Rightarrow> \<not> hc_header_ok api jwt)
     then Err (InvalidResponse ''Invalid JWT token format'')
     else hc_build api)"

definition parse_client_id :: "http_client \<Rightarrow> string option \<Rightarrow> (bytes option, warp_error) result" where
  "parse_client_id api client_id_b64 =
     (case client_id_b64 of
        None \<Rightarrow> Ok None
      | Some s \<Rightarrow>
          if s = [] then Ok None
          else and_then (map_err (\<lambda>e. InvalidResponse (''Invalid client_id base64: '' @ e)) (hc_decode api s))
            (\<lambda>bs. if 3 \<le> length bs
               then and_then (idx bs 0) (\<lambda>a. and_then (idx bs 1) (\<lambda>b. and_then (idx bs 2) (\<lambda>c. Ok (Some [a, b, c]))))
               else Ok None))"

definition decode_peer_key :: "http_client \<Rightarrow> string \<Rightarrow> (bytes, warp_error) result" where
  "decode_peer_key api s =
     and_then (map_err WarpInvalidKey (hc_decode api s)) (\<lambda>bs.
       if length bs = 32 then Ok bs else Err (WarpInvalidKey ''Invalid key length''))"

definition before_slash :: "string \<Rightarrow> string" where
  "before_slash s = hd (split_on (CHR ''/'') s)"

definition config_of_response ::
  "http_client \<Rightarrow> warp_credentials \<Rightarrow> api_config \<Rightarrow> (wireguard_config \<times> bytes option, warp_error) result" where
  "config_of_response api creds resp =
     (case ac_peers resp of
        [] \<Rightarrow> Err (InvalidResponse ''No peers in config'')
      | peer # others \<Rightarrow>
          and_then (decode_peer_key api (pe_public_key peer)) (\<lambda>key.
          and_then (ok_or (parse_ipv4 (before_slash (ac_address_v4 resp))) (WarpInvalidAddress (ac_address_v4 resp)))
            (\<lambda>tunnel_ip.
          and_then (resolve_peer_endpoints api (pe_endpoint peer)) (\<lambda>candidates.
          and_then (idx candidates 0) (\<lambda>peer_endpoint.
          and_then (parse_client_id api (ac_client_id resp)) (\<lambda>client_id.
            Ok (\<lparr>wg_private_key = cr_private_key creds, wg_peer_public_key = key,
                 wg_peer_endpoint = peer_endpoint, wg_peer_endpoint_candidates = candidates,
                 wg_tunnel_ip = tunnel_ip,
                 wg_tunnel_ipv6 =
                   (if ac_address_v6 resp = [] then None else parse_ipv6 (before_slash (ac_address_v6 resp))),
                 wg_preshared_key = None, wg_keepalive_seconds = Some 25, wg_mtu = None,
                 wg_tcp_buffer_size = None\<rparr>, client_id)))))))"

definition get_config_with_client_id ::
  "http_client \<Rightarrow> warp_credentials \<Rightarrow> (wireguard_config \<times> bytes option) traced" where
  "get_config_with_client_id api creds =
     then_do (create_client api (Some (cr_access_token creds)) None, []) (\<lambda>u.
     then_do (hc_get_reg api (cr_access_token creds) (cr_device_id creds), [GetRegistration (cr_device_id creds)])
       (\<lambda>resp. (config_of_response api creds resp, [])))"

definition get_config :: "http_client \<Rightarrow> warp_credentials \<Rightarrow> wireguard_config traced" where
  "get_config api creds = then_do (get_config_with_client_id api creds) (\<lambda>(config, cid). (Ok config, []))"

definition update_license :: "http_client \<Rightarrow> warp_credentials \<Rightarrow> string \<Rightarrow> unit traced" where
  "update_license api creds license_key =
     then_do (create_client api (Some (cr_access_token creds)) None, []) (\<lambda>u.
       (hc_put_account api (cr_access_token creds) (cr_device_id creds) license_key,
        [PutLicense (cr_device_id creds) license_key]))"

definition unwrap_or_default :: "string option \<Rightarrow> string" where
  "unwrap_or_default o' = (case o' of Some s \<Rightarrow> s | None \<Rightarrow> [])"

definition registration_request :: "http_client \<Rightarrow> registration_options \<Rightarrow> register_request" where
  "registration_request api options =
     (let key = hc_encode api (snd (hc_keypair api)) in
      case ro_teams options of
        Some teams \<Rightarrow>
          \<lparr>rq_fcm_token = [], rq_install_id = [], rq_key = key, rq_locale = ''en_US'',
           rq_model = ro_device_model options, rq_tos = None, rq_device_type = None,
           rq_serial_number = Some (unwrap_or_default (te_serial_number teams)),
           rq_name = Some (unwrap_or_default (te_device_name teams))\<rparr>
      | None \<Rightarrow>
          \<lparr>rq_fcm_token = [], rq_install_id = [], rq_key = key, rq_locale = ''en_US'',
           rq_model = ro_device_model options, rq_tos = Some (hc_timestamp api),
           rq_device_type = Some ''Android'', rq_serial_number = None, rq_name = None\<rparr>)"

text \<open>Only a consumer registration applies the license key.\<close>

definition apply_license ::
  "http_client \<Rightarrow> registration_options \<Rightarrow> warp_credentials \<Rightarrow> warp_credentials traced" where
  "apply_license api options creds =
     (if cr_is_teams creds then (Ok creds, [])
      else case ro_license_key options of
          None \<Rightarrow> (Ok creds, [])
        | Some license \<Rightarrow>
            then_do (update_license api creds license) (\<lambda>u. (Ok (creds\<lparr>cr_license_key := license\<rparr>), [])))"

definition register :: "http_client \<Rightarrow> registration_options \<Rightarrow> (wireguard_config \<times> warp_credentials) traced" where
  "register api options =
     (let jwt = map_option te_jwt_token (ro_teams options);
          req = registration_request api options
      in then_do (create_client api None jwt, []) (\<lambda>u.
         then_do (hc_post_reg api jwt req, [PostRegistration jwt req]) (\<lambda>resp.
         then_do (parse_client_id api (ac_client_id (rs_config resp)), []) (\<lambda>client_id.
         then_do (apply_license api options
           \<lparr>cr_device_id = rs_id resp, cr_access_token = rs_token resp,
            cr_private_key = fst (hc_keypair api), cr_license_key = rs_license resp,
            cr_client_id = client_id, cr_is_teams = (ro_teams options \<noteq> None)\<rparr>) (\<lambda>creds.
         then_do (get_config_with_client_id api creds) (\<lambda>(config, updated).
           (Ok (config, if updated \<noteq> None then creds\<lparr>cr_client_id := updated\<rparr> else creds), [])))))))"

text \<open>The account manager on this client.\<close>

definition with_client :: "http_client \<Rightarrow> api_env \<Rightarrow> api_env" where
  "with_client api env =
     env\<lparr>ev_get_config := \<lambda>creds. fst (get_config api creds),
         ev_register := \<lambda>model license.
           fst (register api \<lparr>ro_device_model = model, ro_license_key = license, ro_teams = None\<rparr>)\<rparr>"

section \<open>Endpoint candidates\<close>

lemma then_do_Ok [simp]:
  "then_do t f = (Ok y, cs) \<longleftrightarrow> (\<exists>x as bs. t = (Ok x, as) \<and> f x = (Ok y, bs) \<and> cs = as @ bs)"
  by (cases "(t, f)" rule: then_do.cases) (auto split: prod.splits)

lemma map_err_simps [simp]:
  "map_err f r = Ok x \<longleftrightarrow> r = Ok x" "map_err f r = Panic \<longleftrightarrow> r = Panic"
  "map_err f r = Err e \<longleftrightarrow> (\<exists>e'. r = Err e' \<and> e = f e')"
  by (cases r; auto)+

text \<open>The addresses \<open>lookup_host\<close> gave, and those of the API response.\<close>

definition dns_addresses :: "http_client \<Rightarrow> endpoint \<Rightarrow> sockaddr list" where
  "dns_addresses api e = (case hc_lookup api (trim (ep_host e)) of Resolved addrs \<Rightarrow> addrs | _ \<Rightarrow> [])"

definition api_addresses :: "endpoint \<Rightarrow> sockaddr list" where
  "api_addresses e =
     List.map_filter (\<lambda>raw. parse_api_endpoint raw (endpoint_port e)) [ep_v4 e, ep_v6 e]"

lemma push_opt_list: "push_opt xs o' = push_all_unique xs (List.map_filter id [o'])"
  by (cases o') (simp_all add: push_opt_def)

lemma push_all_unique_idem: "push_all_unique [] (push_all_unique [] xs) = push_all_unique [] xs"
  using push_all_unique_distinct [of "[]" "push_all_unique [] xs"] by simp

lemma candidates_of:
  "resolve_peer_endpoints api e =
     (let cs = push_all_unique [] (dns_addresses api e @ api_addresses e)
      in if cs = [] then Err (WarpInvalidEndpoint (no_candidates_text e)) else Ok cs)"
proof -
  have "push_opt (push_opt (push_all_unique [] ds) (parse_api_endpoint (ep_v4 e) (endpoint_port e)))
      (parse_api_endpoint (ep_v6 e) (endpoint_port e)) = push_all_unique [] (ds @ api_addresses e)" for ds
    by (simp add: push_opt_def api_addresses_def push_all_unique_append split: option.split)
  then show ?thesis
    by (simp add: resolve_peer_endpoints_def merge_endpoint_candidates_def dns_addresses_def Let_def
        push_all_unique_append push_all_unique_idem split: lookup_outcome.split)
qed

lemma parse_api_endpoint_port: "parse_api_endpoint raw port = Some a \<Longrightarrow> sa_port a = port"
  by (auto simp: parse_api_endpoint_def Let_def split: if_splits option.splits)

lemma api_addresses_port: "a \<in> set (api_addresses e) \<Longrightarrow> sa_port a = endpoint_port e"
  by (auto simp: api_addresses_def dest: parse_api_endpoint_port split: option.splits)

lemma parse_unsigned_le: "parse_unsigned mx s = Some n \<Longrightarrow> n \<le> mx"
  by (auto simp: parse_unsigned_def Let_def split: if_splits option.splits)

lemma endpoint_port_nonzero: "endpoint_port e \<noteq> 0"
proof -
  have "(word_of_nat n :: u16) \<noteq> 0" if "n \<noteq> 0" "n \<le> 65535" for n
    using that by (simp add: word_of_nat_eq_0_iff nat_dvd_not_less)
  then show ?thesis
    by (auto simp: endpoint_port_def split: option.splits if_splits prod.splits dest: parse_unsigned_le)
qed

lemma resolve_peer_endpoints_Ok:
  "resolve_peer_endpoints api e = Ok cs \<longleftrightarrow>
     cs = push_all_unique [] (dns_addresses api e @ api_addresses e) \<and> cs \<noteq> []"
  by (auto simp: candidates_of Let_def)

lemma resolve_peer_endpoints_good: "resolve_peer_endpoints api e = Ok cs \<Longrightarrow> cs \<noteq> [] \<and> distinct cs"
  unfolding resolve_peer_endpoints_Ok by (metis distinct.simps(1) distinct_push_all_unique)

lemma resolve_peer_endpoints_no_panic [no_panic]: "resolve_peer_endpoints api e \<noteq> Panic"
  by (auto simp: candidates_of Let_def)

text \<open>Property. The peer endpoint candidates: every address the host resolver returned, first occurrence
  first and before anything else, then the API's literal addresses, on the port of the API's host
  name (2408 when it has none, zero or garbage) and never on port zero; no address twice. A DNS
  failure or timeout alone never fails the call: it fails exactly when neither source has an
  address.\<close>

theorem peer_candidates_correct:
  fixes api e
  defines "dns \<equiv> (case hc_lookup api (trim (ep_host e)) of Resolved addrs \<Rightarrow> addrs | _ \<Rightarrow> [])"
  shows "case resolve_peer_endpoints api e of
      Ok cs \<Rightarrow> cs \<noteq> [] \<and> distinct cs \<and> set cs = set dns \<union> set (api_addresses e) \<and>
        (\<exists>rest. cs = push_all_unique [] dns @ rest \<and> list_all (\<lambda>a. sa_port a = endpoint_port e) rest) \<and>
        endpoint_port e \<noteq> 0
    | Err err \<Rightarrow> err = WarpInvalidEndpoint (no_candidates_text e) \<and> dns = [] \<and>
        parse_api_endpoint (ep_v4 e) (endpoint_port e) = None \<and> parse_api_endpoint (ep_v6 e) (endpoint_port e) = None
    | Panic \<Rightarrow> False"
proof (cases "resolve_peer_endpoints api e")
  case (Ok cs)
  then have "cs = push_all_unique [] (dns @ api_addresses e) \<and> cs \<noteq> []"
    unfolding resolve_peer_endpoints_Ok dns_addresses_def dns_def .
  then have cs: "cs = push_all_unique (push_all_unique [] dns) (api_addresses e)" "cs \<noteq> []"
    unfolding push_all_unique_append by blast+
  obtain rest where rest: "cs = push_all_unique [] dns @ rest"
    using cs(1) push_all_unique_prefix [of "push_all_unique [] dns" "api_addresses e"] by blast
  have d: "distinct cs" "set cs = set dns \<union> set (api_addresses e)" by (simp_all add: cs(1))
  have "set rest \<subseteq> set (api_addresses e)"
  proof
    fix a assume "a \<in> set rest"
    with d rest show "a \<in> set (api_addresses e)" by auto
  qed
  then have "list_all (\<lambda>a. sa_port a = endpoint_port e) rest"
    using api_addresses_port by (auto simp: list_all_iff)
  with rest have "\<exists>rest. cs = push_all_unique [] dns @ rest \<and> list_all (\<lambda>a. sa_port a = endpoint_port e) rest"
    by blast
  with cs(2) d endpoint_port_nonzero show ?thesis unfolding Ok result.case by blast
next
  case (Err err)
  then have err: "err = WarpInvalidEndpoint (no_candidates_text e)"
    and none: "push_all_unique [] (dns_addresses api e @ api_addresses e) = []"
    unfolding candidates_of Let_def by (simp_all split: if_splits)
  have "set (dns_addresses api e @ api_addresses e) = {}"
    using set_push_all_unique [of "[]" "dns_addresses api e @ api_addresses e"] unfolding none by simp
  then have e: "dns_addresses api e = []" "api_addresses e = []" by simp_all
  from e(2) have "parse_api_endpoint (ep_v4 e) (endpoint_port e) = None"
    "parse_api_endpoint (ep_v6 e) (endpoint_port e) = None"
    unfolding api_addresses_def by (simp_all split: option.splits)
  with err e(1) show ?thesis unfolding Err result.case dns_def dns_addresses_def by blast
next
  case Panic
  then show ?thesis using resolve_peer_endpoints_no_panic by simp
qed

section \<open>Types of what the client returns\<close>

text \<open>The array lengths that Rust's types carry: 32-byte keys, a 3-byte client id.\<close>

definition creds_typed :: "warp_credentials \<Rightarrow> bool" where
  "creds_typed c \<longleftrightarrow> length (cr_private_key c) = 32 \<and> (\<forall>i. cr_client_id c = Some i \<longrightarrow> length i = 3)"

definition config_typed :: "wireguard_config \<Rightarrow> bool" where
  "config_typed wg \<longleftrightarrow>
     length (wg_private_key wg) = 32 \<and> length (wg_peer_public_key wg) = 32 \<and>
     (\<forall>k. wg_preshared_key wg = Some k \<longrightarrow> length k = 32) \<and>
     wg_peer_endpoint_candidates wg \<noteq> [] \<and> distinct (wg_peer_endpoint_candidates wg) \<and>
     wg_peer_endpoint wg = hd (wg_peer_endpoint_candidates wg)"

text \<open>What the crates promise: the key generator makes 32-byte keys, and no call panics.\<close>

definition client_sound :: "http_client \<Rightarrow> bool" where
  "client_sound api \<longleftrightarrow>
     length (fst (hc_keypair api)) = 32 \<and> hc_tls api \<noteq> Panic \<and> hc_build api \<noteq> Panic \<and>
     (\<forall>jwt req. hc_post_reg api jwt req \<noteq> Panic) \<and> (\<forall>token dev. hc_get_reg api token dev \<noteq> Panic) \<and>
     (\<forall>token dev lic. hc_put_account api token dev lic \<noteq> Panic) \<and> (\<forall>s. hc_decode api s \<noteq> Panic)"

lemma parse_client_id_length: "parse_client_id api o' = Ok (Some i) \<Longrightarrow> length i = 3"
  by (auto simp: parse_client_id_def split: option.splits if_splits)

lemma decode_peer_key_length: "decode_peer_key api s = Ok k \<Longrightarrow> length k = 32"
  by (auto simp: decode_peer_key_def split: if_splits)

lemma idx_zero: "xs \<noteq> [] \<Longrightarrow> idx xs 0 = Ok (hd xs)"
  by (simp add: hd_conv_nth)

lemma config_of_response_Ok:
  assumes "config_of_response api creds resp = Ok (wg, cid)"
  obtains key cs where "length key = 32" "cs \<noteq> []" "distinct cs" "wg_peer_public_key wg = key"
    "wg_private_key wg = cr_private_key creds" "wg_preshared_key wg = None"
    "wg_peer_endpoint_candidates wg = cs" "wg_peer_endpoint wg = hd cs" "\<forall>i. cid = Some i \<longrightarrow> length i = 3"
proof (cases "ac_peers resp")
  case (Cons p ps)
  with assms obtain key cs where "decode_peer_key api (pe_public_key p) = Ok key"
    "resolve_peer_endpoints api (pe_endpoint p) = Ok cs" "(idx cs 0 :: (sockaddr, warp_error) result) = Ok (wg_peer_endpoint wg)"
    "wg_peer_public_key wg = key" "wg_private_key wg = cr_private_key creds" "wg_preshared_key wg = None"
    "wg_peer_endpoint_candidates wg = cs" "parse_client_id api (ac_client_id resp) = Ok cid"
    by (auto simp: config_of_response_def)
  moreover from this have "cs \<noteq> []" "distinct cs" using resolve_peer_endpoints_good by blast+
  ultimately show thesis
    using idx_zero [of cs] by (intro that [of key cs]) (auto simp: parse_client_id_length decode_peer_key_length)
qed (use assms in \<open>simp add: config_of_response_def\<close>)

lemma config_of_response_typed:
  assumes "config_of_response api creds resp = Ok (wg, cid)" "length (cr_private_key creds) = 32"
  shows "config_typed wg"
  using config_of_response_Ok [OF assms(1)] assms(2) by (metis config_typed_def option.distinct(1))

lemma get_config_with_client_id_Ok:
  "get_config_with_client_id api creds = (Ok r, calls) \<longleftrightarrow>
     create_client api (Some (cr_access_token creds)) None = Ok () \<and>
     (\<exists>resp. hc_get_reg api (cr_access_token creds) (cr_device_id creds) = Ok resp \<and>
        config_of_response api creds resp = Ok r) \<and> calls = [GetRegistration (cr_device_id creds)]"
  by (auto simp: get_config_with_client_id_def)

lemma get_config_Ok:
  "fst (get_config api creds) = Ok wg \<Longrightarrow> \<exists>cid calls. get_config_with_client_id api creds = (Ok (wg, cid), calls)"
  by (cases "get_config api creds") (auto simp: get_config_def)

lemma get_config_typed:
  assumes "fst (get_config api creds) = Ok wg" "creds_typed creds"
  shows "config_typed wg"
  using get_config_Ok [OF assms(1)] assms(2)
  by (auto simp: get_config_with_client_id_Ok creds_typed_def dest: config_of_response_typed)

lemma apply_license_Ok:
  "apply_license api options creds = (Ok creds', calls) \<longleftrightarrow>
     (if cr_is_teams creds \<or> ro_license_key options = None then creds' = creds \<and> calls = []
      else let license = the (ro_license_key options) in
        creds' = creds\<lparr>cr_license_key := license\<rparr> \<and> calls = [PutLicense (cr_device_id creds) license] \<and>
        create_client api (Some (cr_access_token creds)) None = Ok () \<and>
        hc_put_account api (cr_access_token creds) (cr_device_id creds) license = Ok ())"
  by (auto simp: apply_license_def update_license_def split: option.splits)

text \<open>What a successful registration did, and in which order.\<close>

lemma register_Ok:
  assumes "register api options = (Ok (wg, creds), calls)"
  obtains jwt req resp where
    "calls = PostRegistration jwt req #
       (case (ro_teams options, ro_license_key options) of
          (None, Some license) \<Rightarrow> [PutLicense (cr_device_id creds) license]
        | _ \<Rightarrow> []) @ [GetRegistration (cr_device_id creds)]"
    "jwt = map_option te_jwt_token (ro_teams options)" "req = registration_request api options"
    "hc_post_reg api jwt req = Ok resp" "cr_device_id creds = rs_id resp"
    "cr_access_token creds = rs_token resp" "cr_private_key creds = fst (hc_keypair api)"
    "cr_is_teams creds \<longleftrightarrow> ro_teams options \<noteq> None"
    "cr_license_key creds = (case (ro_teams options, ro_license_key options) of
       (None, Some license) \<Rightarrow> license | _ \<Rightarrow> rs_license resp)"
    "config_typed wg \<or> length (cr_private_key creds) \<noteq> 32"
    "\<forall>i. cr_client_id creds = Some i \<longrightarrow> length i = 3" "wg_private_key wg = cr_private_key creds"
proof -
  define req where "req = registration_request api options"
  define jwt where "jwt = map_option te_jwt_token (ro_teams options)"
  define base where "base = (\<lambda>(resp :: register_response) cid. \<lparr>cr_device_id = rs_id resp, cr_access_token = rs_token resp,
    cr_private_key = fst (hc_keypair api), cr_license_key = rs_license resp,
    cr_client_id = cid, cr_is_teams = (ro_teams options \<noteq> None)\<rparr>)"
  from assms obtain resp cid creds1 updated ls gs where
    post: "hc_post_reg api jwt req = Ok resp" "parse_client_id api (ac_client_id (rs_config resp)) = Ok cid"
    and lic: "apply_license api options (base resp cid) = (Ok creds1, ls)"
    and get: "get_config_with_client_id api creds1 = (Ok (wg, updated), gs)"
    and creds: "creds = (if updated \<noteq> None then creds1\<lparr>cr_client_id := updated\<rparr> else creds1)"
    and calls: "calls = PostRegistration jwt req # ls @ gs"
    unfolding register_def Let_def req_def [symmetric] jwt_def [symmetric] base_def
    by (auto split: prod.splits)
  have c1: "cr_client_id creds1 = cid" "cr_private_key creds1 = fst (hc_keypair api)"
    "cr_device_id creds1 = rs_id resp" "cr_access_token creds1 = rs_token resp"
    "cr_is_teams creds1 \<longleftrightarrow> ro_teams options \<noteq> None"
    using lic by (auto simp: apply_license_Ok base_def Let_def split: if_splits)
  have "\<forall>i. cid = Some i \<longrightarrow> length i = 3" using post(2) parse_client_id_length by blast
  moreover obtain resp2 where resp2: "config_of_response api creds1 resp2 = Ok (wg, updated)"
    using get by (auto simp: get_config_with_client_id_Ok)
  moreover from config_of_response_Ok [OF resp2]
  have "\<forall>i. updated = Some i \<longrightarrow> length i = 3" "wg_private_key wg = cr_private_key creds1" by metis+
  moreover have "config_typed wg \<or> length (cr_private_key creds1) \<noteq> 32"
    using config_of_response_typed [OF resp2] by blast
  ultimately show ?thesis
    using lic post(1) get
    by (intro that [of jwt req resp])
      (auto simp: creds calls c1 jwt_def req_def get_config_with_client_id_Ok apply_license_Ok base_def Let_def
        split: if_splits option.splits)
qed

text \<open>Property. What a registration asks of the API, in order: one device is registered, with the generated
  public key and the terms accepted exactly for a consumer account; then, for a consumer account with
  a configured license, the license is applied; then the configuration is fetched for the new device.
  The credentials returned are those of that device with the generated private key, and the
  configuration uses the same key.\<close>

theorem register_calls_correct:
  assumes "register api options = (Ok (wg, creds), calls)"
  shows "\<exists>req resp. calls =
       PostRegistration (map_option te_jwt_token (ro_teams options)) req #
       (case (ro_teams options, ro_license_key options) of
          (None, Some license) \<Rightarrow> [PutLicense (rs_id resp) license] | _ \<Rightarrow> []) @
       [GetRegistration (rs_id resp)]
     \<and> hc_post_reg api (map_option te_jwt_token (ro_teams options)) req = Ok resp
     \<and> rq_key req = hc_encode api (snd (hc_keypair api)) \<and> rq_model req = ro_device_model options
     \<and> (rq_tos req \<noteq> None \<longleftrightarrow> ro_teams options = None)
     \<and> cr_device_id creds = rs_id resp \<and> cr_access_token creds = rs_token resp
     \<and> cr_private_key creds = fst (hc_keypair api) \<and> wg_private_key wg = cr_private_key creds
     \<and> (cr_is_teams creds \<longleftrightarrow> ro_teams options \<noteq> None)
     \<and> cr_license_key creds = (case (ro_teams options, ro_license_key options) of
          (None, Some license) \<Rightarrow> license | _ \<Rightarrow> rs_license resp)"
proof -
  have r: "rq_key (registration_request api options) = hc_encode api (snd (hc_keypair api))"
    "rq_model (registration_request api options) = ro_device_model options"
    "rq_tos (registration_request api options) \<noteq> None \<longleftrightarrow> ro_teams options = None"
    by (simp_all add: registration_request_def Let_def split: option.splits)
  show ?thesis
  proof (rule register_Ok [OF assms], goal_cases)
    case (1 jwt req resp)
    then show ?case using r by (intro exI [of _ req] exI [of _ resp]) (simp split: option.split)
  qed
qed

section \<open>The account manager on the client\<close>

lemma no_panic_then_do:
  "fst t \<noteq> Panic \<Longrightarrow> (\<And>x. fst t = Ok x \<Longrightarrow> fst (f x) \<noteq> Panic) \<Longrightarrow> fst (then_do t f) \<noteq> Panic"
  by (cases "(t, f)" rule: then_do.cases) (auto split: prod.splits)

lemma idx_no_panic: "i < length xs \<Longrightarrow> idx xs i \<noteq> Panic"
  by simp

lemma client_no_panic:
  assumes "client_sound api"
  shows create_client_no_panic: "create_client api t j \<noteq> Panic"
    and parse_client_id_no_panic: "parse_client_id api o' \<noteq> Panic"
    and decode_peer_key_no_panic: "decode_peer_key api s \<noteq> Panic"
  using assms by (auto simp: client_sound_def create_client_def parse_client_id_def decode_peer_key_def
      split: option.splits if_splits)

lemma config_of_response_no_panic:
  assumes "client_sound api"
  shows "config_of_response api creds resp \<noteq> Panic"
proof (cases "ac_peers resp")
  case (Cons p ps)
  have "idx cs 0 \<noteq> (Panic :: (sockaddr, warp_error) result)"
    if "resolve_peer_endpoints api (pe_endpoint p) = Ok cs" for cs
    using resolve_peer_endpoints_good [OF that] by simp
  with Cons show ?thesis
    using client_no_panic [OF assms] resolve_peer_endpoints_no_panic [of api "pe_endpoint p"]
    by (auto simp: config_of_response_def)
qed (simp add: config_of_response_def)

lemma get_config_with_client_id_no_panic:
  "client_sound api \<Longrightarrow> fst (get_config_with_client_id api creds) \<noteq> Panic"
  unfolding get_config_with_client_id_def
  by (intro no_panic_then_do)
    (simp_all add: client_no_panic config_of_response_no_panic, simp add: client_sound_def)

lemma get_config_no_panic: "client_sound api \<Longrightarrow> fst (get_config api creds) \<noteq> Panic"
  unfolding get_config_def
  by (intro no_panic_then_do) (auto simp: get_config_with_client_id_no_panic)

lemma update_license_no_panic: "client_sound api \<Longrightarrow> fst (update_license api creds license) \<noteq> Panic"
  unfolding update_license_def
  by (intro no_panic_then_do) (simp_all add: client_no_panic, simp add: client_sound_def)

lemma apply_license_no_panic: "client_sound api \<Longrightarrow> fst (apply_license api options creds) \<noteq> Panic"
proof (cases "ro_license_key options")
  case (Some license)
  assume "client_sound api"
  then have "fst (then_do (update_license api creds license) (\<lambda>u. (Ok (creds\<lparr>cr_license_key := license\<rparr>), []))) \<noteq> Panic"
    by (intro no_panic_then_do) (simp_all add: update_license_no_panic)
  with Some show ?thesis by (simp add: apply_license_def)
qed (simp add: apply_license_def)

lemma register_no_panic: "client_sound api \<Longrightarrow> fst (register api options) \<noteq> Panic"
  unfolding register_def Let_def
  by (intro no_panic_then_do)
    (auto simp: client_no_panic apply_license_no_panic get_config_with_client_id_no_panic,
      simp add: client_sound_def)

lemma with_client_simps [simp]:
  "ev_get_config (with_client api env) = (\<lambda>creds. fst (get_config api creds))"
  "ev_register (with_client api env) = (\<lambda>model license.
     fst (register api \<lparr>ro_device_model = model, ro_license_key = license, ro_teams = None\<rparr>))"
  "ev_load_fault (with_client api env) = ev_load_fault env"
  by (simp_all add: with_client_def)

lemma register_typed:
  assumes "fst (register api options) = Ok (wg, creds)" "client_sound api"
  shows "config_typed wg \<and> creds_typed creds"
proof -
  from assms(1) obtain calls where "register api options = (Ok (wg, creds), calls)"
    by (cases "register api options") auto
  then show ?thesis
    using assms(2) by (elim register_Ok) (simp add: creds_typed_def client_sound_def)
qed

lemma config_typed_tuned [simp]: "config_typed (apply_transport_tuning cfg wg) \<longleftrightarrow> config_typed wg"
  by (simp add: config_typed_def apply_transport_tuning_def)

text \<open>What serde guarantees of an account file: the arrays have their lengths.\<close>

definition codec_typed :: "json_codec \<Rightarrow> bool" where
  "codec_typed js \<longleftrightarrow> (\<forall>c f. js_dec js c = Some f \<longrightarrow> creds_typed (af_credentials f))"

interpretation rs: registration_service "with_client api env"
  "\<lambda>wg. client_sound api \<longrightarrow> config_typed wg" "\<lambda>creds. client_sound api \<longrightarrow> creds_typed creds" for api env
  by unfold_locales (auto simp: get_config_typed dest: register_typed)

text \<open>C35. Types from the API to the tunnel. On a client that keeps the crates' promises, neither
  \<open>register\<close> nor \<open>get_config\<close> panics, and whichever operation of the account manager yields a
  configuration (start-up, registration of a candidate, another identity, a refresh), its keys are
  32 bytes, its client id 3, and its active endpoint is the first of a non-empty list of distinct
  candidates.\<close>

theorem account_configs_typed:
  assumes "client_sound api" "codec_typed js" "creds_typed creds"
  shows "fst (register api options) \<noteq> Panic \<and> fst (get_config api creds) \<noteq> Panic
    \<and> (case fst (load_or_register js cfg (with_client api env) m) of
         Ok s \<Rightarrow> config_typed (as_wg_config s) \<and> creds_typed (as_credentials s) | _ \<Rightarrow> True)
    \<and> (case fst (prepare_reregister js cfg (with_client api env) m) of
         Ok cand \<Rightarrow> config_typed (cd_wg_config cand) \<and> creds_typed (af_credentials (cd_account_file cand))
       | _ \<Rightarrow> True)
    \<and> (case fst (prepare_identity js cfg (with_client api env) source m) of
         Ok cand \<Rightarrow> config_typed (cd_wg_config cand) \<and> creds_typed (af_credentials (cd_account_file cand))
       | _ \<Rightarrow> True)
    \<and> (case fst (refresh_config cfg (with_client api env) creds m) of Ok wg \<Rightarrow> config_typed wg | _ \<Rightarrow> True)"
proof -
  have dec: "\<forall>c f. js_dec js c = Some f \<longrightarrow> client_sound api \<longrightarrow> creds_typed (af_credentials f)"
    using assms(2) by (simp add: codec_typed_def)
  have c: "client_sound api \<longrightarrow> creds_typed creds" using assms(3) by simp
  note good = rs.load_or_register_good [OF dec, where cfg = cfg and env = env and m = m]
    rs.reregister_good [where js = js and cfg = cfg and api = api and env = env and m = m]
    rs.identity_good [OF dec, where cfg = cfg and env = env and source = source and m = m]
    rs.refresh_good [OF c, where cfg = cfg and env = env and m = m]
  show ?thesis
    using good [unfolded eqTrueI [OF assms(1)] simp_thms]
      register_no_panic [OF assms(1)] get_config_no_panic [OF assms(1)] by (intro conjI)
qed

text \<open>An API that answers: one peer, two IPv4 addresses from DNS, an IPv6 literal with port zero.\<close>

definition example_endpoint :: endpoint where
  "example_endpoint = \<lparr>ep_host = ''engage.cloudflareclient.com:2408'', ep_v4 = ''162.159.192.7:0'', ep_v6 = []\<rparr>"

definition example_response :: api_config where
  "example_response = \<lparr>ac_address_v4 = ''172.16.0.2/32'', ac_address_v6 = [],
     ac_peers = [\<lparr>pe_public_key = ''k'', pe_endpoint = example_endpoint\<rparr>], ac_client_id = None\<rparr>"

definition example_client :: http_client where
  "example_client =
     \<lparr>hc_tls = Ok (), hc_header_ok = (\<lambda>_. True), hc_build = Ok (),
      hc_post_reg = (\<lambda>jwt req. Ok \<lparr>rs_id = ''dev'', rs_token = ''tok'', rs_license = ''free'',
        rs_config = example_response\<rparr>),
      hc_get_reg = (\<lambda>token dev. Ok example_response), hc_put_account = (\<lambda>token dev lic. Ok ()),
      hc_encode = (\<lambda>bs. ''pub''), hc_decode = (\<lambda>s. Ok (replicate 32 9)),
      hc_keypair = (replicate 32 1, replicate 32 2), hc_timestamp = ''now'',
      hc_lookup = (\<lambda>h. Resolved [SA4 (Ipv4Addr 162 159 192 1) 2408])\<rparr>"

definition example_typed_creds :: warp_credentials where
  "example_typed_creds = example_creds\<lparr>cr_private_key := replicate 32 1\<rparr>"

definition empty_codec :: json_codec where
  "empty_codec = \<lparr>js_enc = (\<lambda>f. Some []), js_dec = (\<lambda>c. None)\<rparr>"

lemma example_client_sound: "client_sound example_client" "codec_typed empty_codec" "creds_typed example_typed_creds"
  by (simp_all add: client_sound_def example_client_def codec_typed_def empty_codec_def creds_typed_def
      example_typed_creds_def example_creds_def)

lemma example_texts:
  "show_ipv4 (Ipv4Addr 172 16 0 2) = ''172.16.0.2''"
  "show_ipv4 (Ipv4Addr 162 159 192 7) @ CHR '':'' # show_nat (unat (0 :: u16)) = ''162.159.192.7:0''"
  by (simp_all add: show_nat.simps digit_chars)

lemma example_port: "endpoint_port example_endpoint = 2408"
proof -
  have "rsplit_once (CHR '':'') (''engage.cloudflareclient.com'' @ CHR '':'' # ''2408'') = 
    Some (''engage.cloudflareclient.com'', ''2408'')" by (rule rsplit_once_append) simp
  moreover have "parse_unsigned 65535 (trim (show_nat 2408)) = Some 2408" by simp
  then have "parse_unsigned 65535 (trim ''2408'') = Some 2408" by (simp add: show_nat.simps digit_chars)
  ultimately show ?thesis by (simp add: endpoint_port_def example_endpoint_def)
qed

lemma example_parse: "parse_api_endpoint ''162.159.192.7:0'' 2408 = Some (SA4 (Ipv4Addr 162 159 192 7) 2408)"
proof -
  have "trim ''162.159.192.7:0'' = ''162.159.192.7:0''" by (rule trim_id) (simp_all add: is_ws_def)
  moreover have "parse_sockaddr ''162.159.192.7:0'' = Some (SA4 (Ipv4Addr 162 159 192 7) 0)"
    using parse_sockaddr_show [of "Ipv4Addr 162 159 192 7" 0] unfolding example_texts(2) .
  ultimately show ?thesis by (simp add: parse_api_endpoint_def)
qed

lemma example_candidates:
  "resolve_peer_endpoints example_client example_endpoint =
     Ok [SA4 (Ipv4Addr 162 159 192 1) 2408, SA4 (Ipv4Addr 162 159 192 7) 2408]"
proof -
  have "api_addresses example_endpoint = [SA4 (Ipv4Addr 162 159 192 7) 2408]"
    using example_parse example_port
    by (simp add: api_addresses_def example_endpoint_def parse_api_endpoint_def trim_def trim_start_def trim_end_def List.map_filter_simps)
  moreover have "dns_addresses example_client example_endpoint = [SA4 (Ipv4Addr 162 159 192 1) 2408]"
    by (simp add: dns_addresses_def example_client_def)
  ultimately show ?thesis by (simp add: candidates_of push_unique_def)
qed

definition example_config :: wireguard_config where
  "example_config = \<lparr>wg_private_key = replicate 32 1, wg_peer_public_key = replicate 32 9,
     wg_peer_endpoint = SA4 (Ipv4Addr 162 159 192 1) 2408,
     wg_peer_endpoint_candidates = [SA4 (Ipv4Addr 162 159 192 1) 2408, SA4 (Ipv4Addr 162 159 192 7) 2408],
     wg_tunnel_ip = Ipv4Addr 172 16 0 2, wg_tunnel_ipv6 = None, wg_preshared_key = None,
     wg_keepalive_seconds = Some 25, wg_mtu = None, wg_tcp_buffer_size = None\<rparr>"

lemma example_fetch:
  assumes "cr_private_key creds = replicate 32 1"
  shows "get_config_with_client_id example_client creds =
    (Ok (example_config, None), [GetRegistration (cr_device_id creds)])"
proof -
  have "split_on (CHR ''/'') (''172.16.0.2'' @ CHR ''/'' # ''32'') = ''172.16.0.2'' # split_on (CHR ''/'') ''32''"
    by (rule split_on_append) simp
  then have "parse_ipv4 (before_slash ''172.16.0.2/32'') = Some (Ipv4Addr 172 16 0 2)"
    using parse_show_ipv4 [of "Ipv4Addr 172 16 0 2"] unfolding example_texts(1) by (simp add: before_slash_def)
  moreover have "create_client example_client t j = Ok ()" for t j
    by (simp add: create_client_def example_client_def split: option.split)
  moreover have "hc_get_reg example_client t d = Ok example_response" "decode_peer_key example_client k = Ok (replicate 32 9)"
    for t d k by (simp_all add: decode_peer_key_def example_client_def)
  ultimately show ?thesis
    using assms example_candidates
    by (simp add: get_config_with_client_id_Ok config_of_response_def example_response_def example_config_def
        parse_client_id_def)
qed

lemma example_register:
  "register example_client \<lparr>ro_device_model = ''PC'', ro_license_key = Some ''plus'', ro_teams = None\<rparr> =
     (Ok (example_config, \<lparr>cr_device_id = ''dev'', cr_access_token = ''tok'', cr_private_key = replicate 32 1,
        cr_license_key = ''plus'', cr_client_id = None, cr_is_teams = False\<rparr>),
      [PostRegistration None (registration_request example_client
         \<lparr>ro_device_model = ''PC'', ro_license_key = Some ''plus'', ro_teams = None\<rparr>),
       PutLicense ''dev'' ''plus'', GetRegistration ''dev''])"
proof -
  have c: "create_client example_client t j = Ok ()" for t j
    by (simp add: create_client_def example_client_def split: option.split)
  have r: "hc_post_reg example_client j q =
      Ok \<lparr>rs_id = ''dev'', rs_token = ''tok'', rs_license = ''free'', rs_config = example_response\<rparr>"
    "hc_put_account example_client t d l = Ok ()" "fst (hc_keypair example_client) = replicate 32 1"
    "parse_client_id example_client (ac_client_id example_response) = Ok None" for j q t d l
    by (simp_all add: example_client_def example_response_def parse_client_id_def)
  show ?thesis
    unfolding register_def Let_def
    by (simp add: c r apply_license_def update_license_def example_fetch)
qed

theorem register_calls_correct_witness:
  "\<exists>wg creds req. register example_client \<lparr>ro_device_model = ''PC'', ro_license_key = Some ''plus'', ro_teams = None\<rparr> =
     (Ok (wg, creds), [PostRegistration None req, PutLicense ''dev'' ''plus'', GetRegistration ''dev''])
     \<and> cr_license_key creds = ''plus'' \<and> cr_private_key creds = replicate 32 1"
  using register_calls_correct [OF example_register] unfolding example_register
  by (simp add: example_client_def)

theorem account_configs_typed_witness:
  "config_typed example_config
    \<and> fst (get_config example_client example_typed_creds) = Ok example_config
    \<and> fst (refresh_config default_warp (with_client example_client example_env) example_typed_creds empty_manager) =
        Ok (apply_transport_tuning default_warp example_config)
    \<and> fst (register example_client \<lparr>ro_device_model = ''PC'', ro_license_key = None, ro_teams = None\<rparr>) \<noteq> Panic"
proof -
  have "cr_private_key example_typed_creds = replicate 32 1" by (simp add: example_typed_creds_def)
  then have g: "fst (get_config example_client example_typed_creds) = Ok example_config"
    by (simp add: get_config_def example_fetch)
  then have f: "fst (refresh_config default_warp (with_client example_client example_env) example_typed_creds empty_manager) =
        Ok (apply_transport_tuning default_warp example_config)"
    by (simp add: refresh_config_def fetch_config_def)
  from account_configs_typed [OF example_client_sound, where cfg = default_warp and env = example_env
      and m = empty_manager and source = "[]"
      and options = "\<lparr>ro_device_model = ''PC'', ro_license_key = None, ro_teams = None\<rparr>"]
  show ?thesis unfolding f g by simp
qed

text \<open>Property. From the API to the first handshakes: the attempts of the endpoint race for a freshly fetched
  configuration begin with the candidates in the order the client found them, whatever tuning was
  applied in between; no port fallback comes before a known address.\<close>

theorem candidates_tried_in_order:
  assumes "fst (get_config api creds) = Ok wg"
  shows "\<exists>fallbacks. endpoint_attempts (apply_transport_tuning cfg wg) = wg_peer_endpoint_candidates wg @ fallbacks
    \<and> hd (endpoint_attempts (apply_transport_tuning cfg wg)) = wg_peer_endpoint wg"
proof -
  obtain resp cid where "config_of_response api creds resp = Ok (wg, cid)"
    using get_config_Ok [OF assms] by (auto simp: get_config_with_client_id_Ok)
  then obtain cs where cs: "cs \<noteq> []" "distinct cs" "wg_peer_endpoint_candidates wg = cs" "wg_peer_endpoint wg = hd cs"
    by (rule config_of_response_Ok)
  then obtain c rest where c: "cs = c # rest" by (cases cs) auto
  have "push_all_unique [c] cs = push_all_unique [c] rest" using c by (simp add: push_unique_def)
  also have "\<dots> = c # rest" using cs(2) c push_all_unique_distinct [of "[c]" rest] by simp
  finally have "endpoint_bases (apply_transport_tuning cfg wg) = cs"
    using cs c by (simp add: endpoint_bases_def apply_transport_tuning_def)
  then show ?thesis
    using attempts_prefix [of "apply_transport_tuning cfg wg"] cs by auto
qed

theorem candidates_tried_in_order_witness:
  "\<exists>fallbacks. endpoint_attempts (apply_transport_tuning default_warp example_config) =
     SA4 (Ipv4Addr 162 159 192 1) 2408 # SA4 (Ipv4Addr 162 159 192 7) 2408 # fallbacks"
proof -
  have "fst (get_config example_client example_typed_creds) = Ok example_config"
    by (simp add: get_config_def example_fetch example_typed_creds_def)
  from candidates_tried_in_order [OF this, of default_warp] show ?thesis by (simp add: example_config_def)
qed

end
