(* ===== verification/Net_Stack.thy ===== *)
theory Net_Stack
  imports Prelude Net_Types Port_Alloc
begin

text \<open>
  Sockets and ports of the userspace network stack, \<open>vendor/wireguard-netstack/src/netstack.rs\<close>: who
  creates a socket, who takes a port, and who gives them back when a dial fails, is cancelled or its
  connection is dropped. The stack is touched in short critical sections from many tasks, so the
  steps below are the critical sections, interleaved arbitrarily; a task is what it still owes.
  The TCP and UDP state machines of smoltcp enter as the outcome of each call.
\<close>

section \<open>Model\<close>

datatype sock = Tcp | Udp

text \<open>\<open>NetStackInner\<close> with the two allocators and the gauge of live sockets. A handle is a slot
  index; \<open>ns_signals\<close> are the handles that have their notifications.\<close>

record netstack =
  ns_socks :: "nat \<rightharpoonup> sock"
  ns_signals :: "nat set"
  ns_gauge :: int
  ns_tcp_ports :: port_alloc
  ns_udp_ports :: port_alloc
  ns_has_ipv6 :: bool

definition netstack_new :: "u16 \<Rightarrow> u16 \<Rightarrow> bool \<Rightarrow> netstack" where
  "netstack_new r1 r2 has_ipv6 =
     \<lparr>ns_socks = Map.empty, ns_signals = {}, ns_gauge = 0, ns_tcp_ports = pa_new r1, ns_udp_ports = pa_new r2,
      ns_has_ipv6 = has_ipv6\<rparr>"

subsection \<open>Critical sections\<close>

definition add_socket :: "nat \<Rightarrow> sock \<Rightarrow> netstack \<Rightarrow> netstack" where
  "add_socket h k s = s\<lparr>ns_socks := (ns_socks s)(h \<mapsto> k), ns_signals := insert h (ns_signals s)\<rparr>"

definition gauge_add :: "int \<Rightarrow> netstack \<Rightarrow> netstack" where
  "gauge_add d s = s\<lparr>ns_gauge := ns_gauge s + d\<rparr>"

text \<open>\<open>SocketSet::remove\<close> panics on a handle that is not in the set.\<close>

definition sockets_remove :: "nat \<Rightarrow> netstack \<Rightarrow> unit ns_res \<times> netstack" where
  "sockets_remove h s =
     (if ns_socks s h = None then (Panic, s)
      else (Ok (), s\<lparr>ns_socks := (ns_socks s)(h := None), ns_signals := ns_signals s - {h}\<rparr>))"

text \<open>\<open>SocketSet::get::<TcpSocket>\<close> panics on an absent handle or on a socket of the other kind.\<close>

definition get_socket :: "sock \<Rightarrow> nat \<Rightarrow> netstack \<Rightarrow> unit ns_res" where
  "get_socket k h s = (if ns_socks s h = Some k then Ok () else Panic)"

definition socket_signals :: "nat \<Rightarrow> netstack \<Rightarrow> unit ns_res" where
  "socket_signals h s = (if h \<in> ns_signals s then Ok () else Panic)"

definition TCP_EXHAUSTED :: string where
  "TCP_EXHAUSTED = ''TCP ephemeral port range exhausted (32768 ports); this is the per-instance '' @
     ''architectural ceiling '' @ [CHR 0xE2, CHR 0x80, CHR 0x94] @
     '' run multiple instances behind a load balancer instead of raising limits''"

definition allocate_tcp_port :: "netstack \<Rightarrow> u16 ns_res \<times> netstack" where
  "allocate_tcp_port s =
     (case allocate (ns_tcp_ports s) of
        (Some port, a) \<Rightarrow> (Ok port, s\<lparr>ns_tcp_ports := a\<rparr>)
      | (None, a) \<Rightarrow> (Err (TcpConnectGeneric TCP_EXHAUSTED), s\<lparr>ns_tcp_ports := a\<rparr>))"

definition release_tcp_port :: "u16 \<Rightarrow> netstack \<Rightarrow> netstack" where
  "release_tcp_port port s = s\<lparr>ns_tcp_ports := release port (ns_tcp_ports s)\<rparr>"

definition allocate_udp_port :: "netstack \<Rightarrow> u16 ns_res \<times> netstack" where
  "allocate_udp_port s =
     (case allocate (ns_udp_ports s) of
        (Some port, a) \<Rightarrow> (Ok port, s\<lparr>ns_udp_ports := a\<rparr>)
      | (None, a) \<Rightarrow> (Err (TcpConnectGeneric ''UDP ephemeral port range exhausted''), s\<lparr>ns_udp_ports := a\<rparr>))"

definition release_udp_port :: "u16 \<Rightarrow> netstack \<Rightarrow> netstack" where
  "release_udp_port port s = s\<lparr>ns_udp_ports := release port (ns_udp_ports s)\<rparr>"

subsection \<open>Operations of one task, uninterrupted\<close>

text \<open>The slot \<open>h\<close> that \<open>SocketSet::add\<close> picks is an input of the operations that add.\<close>

definition create_tcp_socket :: "nat \<Rightarrow> netstack \<Rightarrow> netstack" where
  "create_tcp_socket h s = gauge_add 1 (add_socket h Tcp s)"

definition remove_socket :: "nat \<Rightarrow> netstack \<Rightarrow> unit ns_res \<times> netstack" where
  "remove_socket h s =
     (case sockets_remove h s of (Ok u, s1) \<Rightarrow> (Ok (), gauge_add (-1) s1) | (r, s1) \<Rightarrow> (r, s1))"

text \<open>\<open>smol\<close> is the answer of smoltcp's \<open>connect\<close>: \<open>None\<close>, or the text of its error.\<close>

definition connect :: "nat \<Rightarrow> sockaddr \<Rightarrow> string option \<Rightarrow> netstack \<Rightarrow> u16 ns_res \<times> netstack" where
  "connect h addr smol s =
     (case allocate_tcp_port s of
        (Ok local_port, s1) \<Rightarrow>
          if \<not> sa_is_ipv4 addr \<and> \<not> ns_has_ipv6 s1
          then (Err Ipv6NotSupported, release_tcp_port local_port s1)
          else (case get_socket Tcp h s1 of
                  Ok u \<Rightarrow>
                    (case smol of
                       None \<Rightarrow> (Ok local_port, s1)
                     | Some e \<Rightarrow> (Err (TcpConnectGeneric (''TCP connect failed: '' @ e)), release_tcp_port local_port s1))
                | Err e \<Rightarrow> (Err e, s1)
                | Panic \<Rightarrow> (Panic, s1))
      | (Err e, s1) \<Rightarrow> (Err e, s1)
      | (Panic, s1) \<Rightarrow> (Panic, s1))"

text \<open>\<open>Drop\<close> of the armed \<open>SocketGuard\<close>.\<close>

definition guard_drop :: "nat \<Rightarrow> u16 option \<Rightarrow> netstack \<Rightarrow> unit ns_res \<times> netstack" where
  "guard_drop h local_port s =
     (case remove_socket h s of
        (Ok u, s1) \<Rightarrow> (Ok (), case local_port of Some p \<Rightarrow> release_tcp_port p s1 | None \<Rightarrow> s1)
      | (r, s1) \<Rightarrow> (r, s1))"

text \<open>\<open>TcpConnection::connect\<close> up to its wait loop; an error drops the guard.\<close>

definition connect_start :: "nat \<Rightarrow> sockaddr \<Rightarrow> string option \<Rightarrow> netstack \<Rightarrow> u16 ns_res \<times> netstack" where
  "connect_start h addr smol s =
     (let s1 = create_tcp_socket h s in
      case socket_signals h s1 of
        Ok u \<Rightarrow>
          (case connect h addr smol s1 of
             (Ok p, s2) \<Rightarrow> (Ok p, s2)
           | (Err e, s2) \<Rightarrow>
               (case guard_drop h None s2 of (Ok v, s3) \<Rightarrow> (Err e, s3) | (Err e', s3) \<Rightarrow> (Err e', s3) | (Panic, s3) \<Rightarrow> (Panic, s3))
           | (Panic, s2) \<Rightarrow> (Panic, s2))
      | Err e \<Rightarrow> (Err e, s1)
      | Panic \<Rightarrow> (Panic, s1))"

text \<open>The wait loop: each round sees the state of the socket and the clock, then waits for a
  notification or for the deadline. \<open>None\<close> is a wait that is still going on.\<close>

datatype tcp_state = Established | Closed | TimeWait | OtherState

datatype wake = Notified | DeadlineFired

definition closed_text :: "tcp_state \<Rightarrow> string" where
  "closed_text st =
     ''Connection failed (state: '' @ (if st = Closed then ''Closed'' else ''TimeWait'') @ '')''"

fun connect_wait :: "sockaddr \<Rightarrow> instant \<Rightarrow> (tcp_state \<times> instant \<times> wake) list \<Rightarrow> unit ns_res option" where
  "connect_wait addr deadline [] = None"
| "connect_wait addr deadline ((st, now, wake) # rounds) =
     (if st = Established then Some (Ok ())
      else if st = Closed \<or> st = TimeWait then Some (Err (TcpConnect addr (closed_text st)))
      else if deadline \<le> now then Some (Err TcpTimeout)
      else if wake = DeadlineFired then Some (Err TcpTimeout)
      else connect_wait addr deadline rounds)"

text \<open>The whole of \<open>TcpConnection::connect\<close>, started at \<open>start\<close>; rounds that run out are a future dropped
  while it waits. An outcome other than \<open>Ok\<close> drops the armed guard.\<close>

definition tcp_connect ::
  "nat \<Rightarrow> sockaddr \<Rightarrow> string option \<Rightarrow> instant \<Rightarrow> (tcp_state \<times> instant \<times> wake) list \<Rightarrow> netstack
    \<Rightarrow> u16 ns_res option \<times> netstack" where
  "tcp_connect h addr smol start rounds s =
     (case connect_start h addr smol s of
        (Ok p, s1) \<Rightarrow>
          (case connect_wait addr (start + from_secs 30) rounds of
             Some (Ok u) \<Rightarrow> (Some (Ok p), s1)
           | Some (Err e) \<Rightarrow>
               (case guard_drop h (Some p) s1 of
                  (Ok v, s2) \<Rightarrow> (Some (Err e), s2)
                | (Err e', s2) \<Rightarrow> (Some (Err e'), s2)
                | (Panic, s2) \<Rightarrow> (Some Panic, s2))
           | Some Panic \<Rightarrow> (Some Panic, s1)
           | None \<Rightarrow> (None, snd (guard_drop h (Some p) s1)))
      | (Err e, s1) \<Rightarrow> (Some (Err e), s1)
      | (Panic, s1) \<Rightarrow> (Some Panic, s1))"

text \<open>\<open>Drop\<close> of a \<open>TcpConnection\<close>: close, poll (no effect on this state), remove, release.\<close>

definition connection_drop :: "nat \<Rightarrow> u16 \<Rightarrow> netstack \<Rightarrow> unit ns_res \<times> netstack" where
  "connection_drop h port s =
     (case get_socket Tcp h s of
        Ok u \<Rightarrow> guard_drop h (Some port) s
      | Err e \<Rightarrow> (Err e, s)
      | Panic \<Rightarrow> (Panic, s))"

text \<open>\<open>create_udp_socket_with\<close>: \<open>bind\<close> is the answer of smoltcp's \<open>bind\<close>; the result is the local port
  and whether it came from the allocator.\<close>

definition create_udp_socket_with ::
  "nat \<Rightarrow> u16 \<Rightarrow> string option \<Rightarrow> netstack \<Rightarrow> (u16 \<times> bool) ns_res \<times> netstack" where
  "create_udp_socket_with h local_port bind s =
     (case (if local_port = 0 then (case allocate_udp_port s of (r, s') \<Rightarrow> (map_res (\<lambda>p. (p, True)) r, s'))
            else (Ok (local_port, False), s)) of
        (Ok (port, allocated), s1) \<Rightarrow>
          (case bind of
             Some e \<Rightarrow>
               (Err (TcpConnectGeneric (''UDP bind failed: '' @ e)),
                if allocated then release_udp_port port s1 else s1)
           | None \<Rightarrow> (Ok (port, allocated), gauge_add 1 (add_socket h Udp s1)))
      | (Err e, s1) \<Rightarrow> (Err e, s1)
      | (Panic, s1) \<Rightarrow> (Panic, s1))"

definition udp_handle_drop :: "nat \<Rightarrow> u16 \<Rightarrow> bool \<Rightarrow> netstack \<Rightarrow> unit ns_res \<times> netstack" where
  "udp_handle_drop h port allocated s =
     (case remove_socket h s of
        (Ok u, s1) \<Rightarrow> (Ok (), if allocated then release_udp_port port s1 else s1)
      | (r, s1) \<Rightarrow> (r, s1))"

subsection \<open>Tasks\<close>

text \<open>What a task holds between two critical sections. \<open>TcpDoomed\<close> runs the destructor of the guard or of
  the connection; a \<open>None\<close> port is one not taken, or taken by \<open>connect\<close> and given back there.\<close>

datatype owner =
    TcpAdded nat
  | TcpGuarded nat
  | TcpDialing nat u16
  | TcpPending nat u16
  | TcpLive nat u16
  | TcpDoomed nat "u16 option"
  | TcpUnlinked "u16 option"
  | TcpPortOnly u16
  | UdpPortHeld u16
  | UdpAdded nat "u16 option"
  | UdpLive nat "u16 option"
  | UdpUnlinked "u16 option"
  | UdpPortOnly u16

type_synonym world = "netstack \<times> (nat \<rightharpoonup> owner)"

inductive ns_step :: "world \<Rightarrow> world \<Rightarrow> bool" where
  tcp_create: "own i = None \<Longrightarrow> ns_socks s h = None \<Longrightarrow>
    ns_step (s, own) (add_socket h Tcp s, own(i \<mapsto> TcpAdded h))"
| tcp_counted: "own i = Some (TcpAdded h) \<Longrightarrow>
    ns_step (s, own) (gauge_add 1 s, own(i \<mapsto> TcpGuarded h))"
| tcp_port: "own i = Some (TcpGuarded h) \<Longrightarrow> allocate_tcp_port s = (Ok p, s') \<Longrightarrow>
    ns_step (s, own) (s', own(i \<mapsto> TcpDialing h p))"
| tcp_exhausted: "own i = Some (TcpGuarded h) \<Longrightarrow> allocate_tcp_port s = (Err e, s') \<Longrightarrow>
    ns_step (s, own) (s', own(i \<mapsto> TcpDoomed h None))"
| tcp_refused: "own i = Some (TcpDialing h p) \<Longrightarrow>
    ns_step (s, own) (release_tcp_port p s, own(i \<mapsto> TcpDoomed h None))"
| tcp_dialed: "own i = Some (TcpDialing h p) \<Longrightarrow> ns_step (s, own) (s, own(i \<mapsto> TcpPending h p))"
| tcp_established: "own i = Some (TcpPending h p) \<Longrightarrow> ns_step (s, own) (s, own(i \<mapsto> TcpLive h p))"
| tcp_abandoned: "own i = Some (TcpPending h p) \<Longrightarrow> ns_step (s, own) (s, own(i \<mapsto> TcpDoomed h (Some p)))"
| tcp_dropped: "own i = Some (TcpLive h p) \<Longrightarrow> ns_step (s, own) (s, own(i \<mapsto> TcpDoomed h (Some p)))"
| tcp_removed: "own i = Some (TcpDoomed h po) \<Longrightarrow> sockets_remove h s = (Ok u, s') \<Longrightarrow>
    ns_step (s, own) (s', own(i \<mapsto> TcpUnlinked po))"
| tcp_uncounted: "own i = Some (TcpUnlinked po) \<Longrightarrow>
    ns_step (s, own) (gauge_add (-1) s, own(i := map_option TcpPortOnly po))"
| tcp_released: "own i = Some (TcpPortOnly p) \<Longrightarrow>
    ns_step (s, own) (release_tcp_port p s, own(i := None))"
| udp_port: "own i = None \<Longrightarrow> allocate_udp_port s = (Ok p, s') \<Longrightarrow>
    ns_step (s, own) (s', own(i \<mapsto> UdpPortHeld p))"
| udp_exhausted: "allocate_udp_port s = (Err e, s') \<Longrightarrow> ns_step (s, own) (s', own)"
| udp_refused: "own i = Some (UdpPortHeld p) \<Longrightarrow>
    ns_step (s, own) (release_udp_port p s, own(i := None))"
| udp_added: "own i = Some (UdpPortHeld p) \<Longrightarrow> ns_socks s h = None \<Longrightarrow>
    ns_step (s, own) (add_socket h Udp s, own(i \<mapsto> UdpAdded h (Some p)))"
| udp_added_fixed: "own i = None \<Longrightarrow> ns_socks s h = None \<Longrightarrow>
    ns_step (s, own) (add_socket h Udp s, own(i \<mapsto> UdpAdded h None))"
| udp_counted: "own i = Some (UdpAdded h po) \<Longrightarrow>
    ns_step (s, own) (gauge_add 1 s, own(i \<mapsto> UdpLive h po))"
| udp_removed: "own i = Some (UdpLive h po) \<Longrightarrow> sockets_remove h s = (Ok u, s') \<Longrightarrow>
    ns_step (s, own) (s', own(i \<mapsto> UdpUnlinked po))"
| udp_uncounted: "own i = Some (UdpUnlinked po) \<Longrightarrow>
    ns_step (s, own) (gauge_add (-1) s, own(i := map_option UdpPortOnly po))"
| udp_released: "own i = Some (UdpPortOnly p) \<Longrightarrow>
    ns_step (s, own) (release_udp_port p s, own(i := None))"

inductive ns_reach :: "world \<Rightarrow> bool" where
  start: "ns_reach (netstack_new r1 r2 v6, Map.empty)"
| step: "ns_reach w \<Longrightarrow> ns_step w w' \<Longrightarrow> ns_reach w'"

section \<open>Exclusive ownership\<close>

text \<open>\<open>f\<close> says what an owner claims of some resource; \<open>owned\<close> is all that is claimed, \<open>exclusive\<close> that
  nothing is claimed twice.\<close>

definition claim :: "('o \<Rightarrow> 'r option) \<Rightarrow> 'o option \<Rightarrow> 'r option" where
  "claim f x = (case x of None \<Rightarrow> None | Some o' \<Rightarrow> f o')"

lemma claim_simps [simp]: "claim f None = None" "claim f (Some o') = f o'"
  by (simp_all add: claim_def)

definition owned :: "('o \<Rightarrow> 'r option) \<Rightarrow> (nat \<rightharpoonup> 'o) \<Rightarrow> 'r set" where
  "owned f own = {r. \<exists>i. claim f (own i) = Some r}"

definition exclusive :: "('o \<Rightarrow> 'r option) \<Rightarrow> (nat \<rightharpoonup> 'o) \<Rightarrow> bool" where
  "exclusive f own \<longleftrightarrow> (\<forall>i j r. claim f (own i) = Some r \<longrightarrow> claim f (own j) = Some r \<longrightarrow> i = j)"

lemma owned_upd:
  "exclusive f own \<Longrightarrow>
     owned f (own(i := x)) = (owned f own - set_option (claim f (own i))) \<union> set_option (claim f x)"
  by (auto simp: owned_def exclusive_def split: if_splits)

lemma exclusive_upd:
  "exclusive f own \<Longrightarrow> (\<And>r. claim f x = Some r \<Longrightarrow> r \<notin> owned f own \<or> claim f (own i) = Some r) \<Longrightarrow>
     exclusive f (own(i := x))"
  unfolding exclusive_def owned_def by (auto split: if_splits)

lemma owned_empty [simp]: "owned f Map.empty = {}" "exclusive f Map.empty"
  by (simp_all add: owned_def exclusive_def)

text \<open>A weight per owner, added up.\<close>

definition total :: "('o \<Rightarrow> int) \<Rightarrow> (nat \<rightharpoonup> 'o) \<Rightarrow> int" where
  "total w own = (\<Sum>i\<in>dom own. case own i of None \<Rightarrow> 0 | Some o' \<Rightarrow> w o')"

lemma total_upd:
  assumes "finite (dom own)"
  shows "total w (own(i := x)) =
    total w own - (case own i of None \<Rightarrow> 0 | Some o' \<Rightarrow> w o') + (case x of None \<Rightarrow> 0 | Some o' \<Rightarrow> w o')"
proof -
  have split: "total w m = (case m i of None \<Rightarrow> 0 | Some o' \<Rightarrow> w o') +
      (\<Sum>j\<in>dom own - {i}. case m j of None \<Rightarrow> 0 | Some o' \<Rightarrow> w o')"
    if "dom m - {i} = dom own - {i}" "finite (dom m)" for m
  proof (cases "i \<in> dom m")
    case True
    then show ?thesis using that by (simp add: total_def sum.remove [of "dom m" i])
  next
    case False
    then have "m i = None" "dom m = dom own - {i}" using that(1) by auto
    then show ?thesis by (simp add: total_def)
  qed
  have "(\<Sum>j\<in>dom own - {i}. case (own(i := x)) j of None \<Rightarrow> 0 | Some o' \<Rightarrow> w o') =
      (\<Sum>j\<in>dom own - {i}. case own j of None \<Rightarrow> 0 | Some o' \<Rightarrow> w o')"
    by (rule sum.cong) auto
  then show ?thesis
    using split [of own] split [of "own(i := x)"] assms by (cases x) auto
qed

lemma total_empty [simp]: "total w Map.empty = 0"
  by (simp add: total_def)

section \<open>Sockets, signals, ports and the gauge are what the tasks hold\<close>

fun sock_of :: "owner \<Rightarrow> (nat \<times> sock) option" where
  "sock_of (TcpAdded h) = Some (h, Tcp)"
| "sock_of (TcpGuarded h) = Some (h, Tcp)"
| "sock_of (TcpDialing h p) = Some (h, Tcp)"
| "sock_of (TcpPending h p) = Some (h, Tcp)"
| "sock_of (TcpLive h p) = Some (h, Tcp)"
| "sock_of (TcpDoomed h po) = Some (h, Tcp)"
| "sock_of (UdpAdded h po) = Some (h, Udp)"
| "sock_of (UdpLive h po) = Some (h, Udp)"
| "sock_of _ = None"

fun tcp_port_of :: "owner \<Rightarrow> u16 option" where
  "tcp_port_of (TcpDialing h p) = Some p"
| "tcp_port_of (TcpPending h p) = Some p"
| "tcp_port_of (TcpLive h p) = Some p"
| "tcp_port_of (TcpDoomed h po) = po"
| "tcp_port_of (TcpUnlinked po) = po"
| "tcp_port_of (TcpPortOnly p) = Some p"
| "tcp_port_of _ = None"

fun udp_port_of :: "owner \<Rightarrow> u16 option" where
  "udp_port_of (UdpPortHeld p) = Some p"
| "udp_port_of (UdpAdded h po) = po"
| "udp_port_of (UdpLive h po) = po"
| "udp_port_of (UdpUnlinked po) = po"
| "udp_port_of (UdpPortOnly p) = Some p"
| "udp_port_of _ = None"

fun counted :: "owner \<Rightarrow> int" where
  "counted (TcpAdded h) = 0"
| "counted (TcpPortOnly p) = 0"
| "counted (UdpPortHeld p) = 0"
| "counted (UdpAdded h po) = 0"
| "counted (UdpPortOnly p) = 0"
| "counted _ = 1"

definition ns_inv :: "world \<Rightarrow> bool" where
  "ns_inv w \<longleftrightarrow> (let s = fst w; own = snd w in
     finite (dom own) \<and>
     exclusive sock_of own \<and> owned sock_of own = Map.graph (ns_socks s) \<and> ns_signals s = dom (ns_socks s) \<and>
     exclusive tcp_port_of own \<and> owned tcp_port_of own = in_use (ns_tcp_ports s) \<and> pa_wf (ns_tcp_ports s) \<and>
     exclusive udp_port_of own \<and> owned udp_port_of own = in_use (ns_udp_ports s) \<and> pa_wf (ns_udp_ports s) \<and>
     ns_gauge s = total counted own)"

lemma forget_absent: "m h = None \<Longrightarrow> m(h := None) = m"
  by auto

lemma graph_iff: "(h, k) \<in> Map.graph m \<longleftrightarrow> m h = Some k"
  by (simp add: graph_def)

lemma allocate_tcp_Ok:
  assumes "allocate_tcp_port s = (Ok p, s')" "pa_wf (ns_tcp_ports s)"
  obtains a where "s' = s\<lparr>ns_tcp_ports := a\<rparr>" "p \<notin> in_use (ns_tcp_ports s)"
    "in_use a = insert p (in_use (ns_tcp_ports s))" "pa_wf a"
  using assms(1) pa.alloc_Some [OF assms(2), of p]
  by (auto simp: allocate_tcp_port_def split: prod.splits option.splits)

lemma allocate_tcp_Err:
  assumes "allocate_tcp_port s = (Err e, s')" "pa_wf (ns_tcp_ports s)"
  shows "s' = s" "card (in_use (ns_tcp_ports s)) = 32768"
  using assms(1) pa.alloc_None [OF assms(2)]
  by (auto simp: allocate_tcp_port_def EPHEMERAL_PORT_COUNT_def split: prod.splits option.splits)

lemma allocate_udp_Ok:
  assumes "allocate_udp_port s = (Ok p, s')" "pa_wf (ns_udp_ports s)"
  obtains a where "s' = s\<lparr>ns_udp_ports := a\<rparr>" "p \<notin> in_use (ns_udp_ports s)"
    "in_use a = insert p (in_use (ns_udp_ports s))" "pa_wf a"
  using assms(1) pa.alloc_Some [OF assms(2), of p]
  by (auto simp: allocate_udp_port_def split: prod.splits option.splits)

lemma allocate_udp_Err:
  assumes "allocate_udp_port s = (Err e, s')" "pa_wf (ns_udp_ports s)"
  shows "s' = s"
  using assms(1) pa.alloc_None [OF assms(2)]
  by (auto simp: allocate_udp_port_def split: prod.splits option.splits)

lemma sockets_remove_Ok:
  "sockets_remove h s = (Ok u, s') \<longleftrightarrow>
     ns_socks s h \<noteq> None \<and> s' = s\<lparr>ns_socks := (ns_socks s)(h := None), ns_signals := ns_signals s - {h}\<rparr>"
  by (auto simp: sockets_remove_def)

lemma graph_remove: "m h = Some k \<Longrightarrow> Map.graph (m(h := None)) = Map.graph m - {(h, k)}"
  by (auto simp: graph_def split: if_splits)

lemma update_simps [simp]:
  "ns_socks (gauge_add d s) = ns_socks s" "ns_signals (gauge_add d s) = ns_signals s"
  "ns_gauge (gauge_add d s) = ns_gauge s + d" "ns_tcp_ports (gauge_add d s) = ns_tcp_ports s"
  "ns_udp_ports (gauge_add d s) = ns_udp_ports s"
  "ns_socks (release_tcp_port p s) = ns_socks s" "ns_signals (release_tcp_port p s) = ns_signals s"
  "ns_gauge (release_tcp_port p s) = ns_gauge s" "ns_udp_ports (release_tcp_port p s) = ns_udp_ports s"
  "ns_tcp_ports (release_tcp_port p s) = release p (ns_tcp_ports s)"
  "ns_socks (release_udp_port p s) = ns_socks s" "ns_signals (release_udp_port p s) = ns_signals s"
  "ns_gauge (release_udp_port p s) = ns_gauge s" "ns_tcp_ports (release_udp_port p s) = ns_tcp_ports s"
  "ns_udp_ports (release_udp_port p s) = release p (ns_udp_ports s)"
  "ns_gauge (add_socket h k s) = ns_gauge s" "ns_tcp_ports (add_socket h k s) = ns_tcp_ports s"
  "ns_udp_ports (add_socket h k s) = ns_udp_ports s"
  "ns_socks (add_socket h k s) = (ns_socks s)(h \<mapsto> k)" "ns_signals (add_socket h k s) = insert h (ns_signals s)"
  by (simp_all add: gauge_add_def release_tcp_port_def release_udp_port_def add_socket_def)

text \<open>One owner changes from \<open>own i\<close> to \<open>x\<close>: what it claimed goes, what it claims now must be new or have been
  its own.\<close>

lemma ns_inv_upd:
  assumes "ns_inv (s, own)"
    and "\<And>h k. claim sock_of x = Some (h, k) \<Longrightarrow> claim sock_of (own i) = Some (h, k) \<or> ns_socks s h = None"
    and "Map.graph (ns_socks s') = Map.graph (ns_socks s) - set_option (claim sock_of (own i)) \<union> set_option (claim sock_of x)"
    and "ns_signals s' = dom (ns_socks s')"
    and "\<And>p. claim tcp_port_of x = Some p \<Longrightarrow> claim tcp_port_of (own i) = Some p \<or> p \<notin> in_use (ns_tcp_ports s)"
    and "in_use (ns_tcp_ports s') =
      in_use (ns_tcp_ports s) - set_option (claim tcp_port_of (own i)) \<union> set_option (claim tcp_port_of x)"
    and "pa_wf (ns_tcp_ports s')"
    and "\<And>p. claim udp_port_of x = Some p \<Longrightarrow> claim udp_port_of (own i) = Some p \<or> p \<notin> in_use (ns_udp_ports s)"
    and "in_use (ns_udp_ports s') =
      in_use (ns_udp_ports s) - set_option (claim udp_port_of (own i)) \<union> set_option (claim udp_port_of x)"
    and "pa_wf (ns_udp_ports s')"
    and "ns_gauge s' = ns_gauge s - (case own i of None \<Rightarrow> 0 | Some o' \<Rightarrow> counted o') +
      (case x of None \<Rightarrow> 0 | Some o' \<Rightarrow> counted o')"
  shows "ns_inv (s', own(i := x))"
proof -
  note inv = assms(1) [unfolded ns_inv_def Let_def fst_conv snd_conv]
  have "exclusive sock_of (own(i := x))"
  proof (rule exclusive_upd)
    fix r assume r: "claim sock_of x = Some r"
    obtain h k where hk: "r = (h, k)" by fastforce
    show "r \<notin> owned sock_of own \<or> claim sock_of (own i) = Some r"
      using assms(2) [of h k] r inv unfolding hk by (auto simp: graph_iff)
  qed (use inv in blast)
  moreover have "exclusive tcp_port_of (own(i := x))" "exclusive udp_port_of (own(i := x))"
    by (rule exclusive_upd; use inv assms(5,8) in blast)+
  ultimately show ?thesis
    using inv assms(3,4,6,7,9-11)
    unfolding ns_inv_def Let_def fst_conv snd_conv by (simp add: owned_upd total_upd del: Un_insert_right)
qed

lemma ns_inv_wf: "ns_inv (s, own) \<Longrightarrow> pa_wf (ns_tcp_ports s) \<and> pa_wf (ns_udp_ports s)"
  by (simp add: ns_inv_def)

lemma ns_inv_signals: "ns_inv (s, own) \<Longrightarrow> ns_signals s = dom (ns_socks s)"
  by (simp add: ns_inv_def)

lemma claimed_sock: "ns_inv (s, own) \<Longrightarrow> own i = Some o' \<Longrightarrow> sock_of o' = Some (h, k) \<Longrightarrow> ns_socks s h = Some k"
proof -
  assume "ns_inv (s, own)" "own i = Some o'" "sock_of o' = Some (h, k)"
  then have "(h, k) \<in> owned sock_of own" "owned sock_of own = Map.graph (ns_socks s)"
    by (auto simp: owned_def ns_inv_def intro!: exI [of _ i])
  then show ?thesis by (simp add: graph_iff)
qed

lemma claimed_tcp: "ns_inv (s, own) \<Longrightarrow> own i = Some o' \<Longrightarrow> tcp_port_of o' = Some p \<Longrightarrow> p \<in> in_use (ns_tcp_ports s)"
proof -
  assume "ns_inv (s, own)" "own i = Some o'" "tcp_port_of o' = Some p"
  then have "p \<in> owned tcp_port_of own" "owned tcp_port_of own = in_use (ns_tcp_ports s)"
    by (auto simp: owned_def ns_inv_def intro!: exI [of _ i])
  then show ?thesis by simp
qed

lemma claimed_udp: "ns_inv (s, own) \<Longrightarrow> own i = Some o' \<Longrightarrow> udp_port_of o' = Some p \<Longrightarrow> p \<in> in_use (ns_udp_ports s)"
proof -
  assume "ns_inv (s, own)" "own i = Some o'" "udp_port_of o' = Some p"
  then have "p \<in> owned udp_port_of own" "owned udp_port_of own = in_use (ns_udp_ports s)"
    by (auto simp: owned_def ns_inv_def intro!: exI [of _ i])
  then show ?thesis by simp
qed

text \<open>Reassigning a claim to its owner changes nothing.\<close>

lemma reclaim: "set_option x \<subseteq> A \<Longrightarrow> A - set_option x \<union> set_option x = A"
  by auto

lemma graph_mem: "m h = Some k \<Longrightarrow> (h, k) \<in> Map.graph m"
  by (simp add: graph_iff)

lemma ns_step_inv:
  assumes "ns_step w w'" "ns_inv w"
  shows "ns_inv w'"
  using assms
proof (induction rule: ns_step.induct)
  case (tcp_create own i s h)
  then show ?case by (intro ns_inv_upd) (auto simp: forget_absent ns_inv_wf ns_inv_signals)
next
  case (tcp_counted own i h s)
  with claimed_sock [OF this(2,1)] show ?case
    by (intro ns_inv_upd) (auto simp: ns_inv_wf ns_inv_signals graph_mem)
next
  case (tcp_port own i h s p s')
  with ns_inv_wf obtain a where "s' = s\<lparr>ns_tcp_ports := a\<rparr>" "p \<notin> in_use (ns_tcp_ports s)"
    "in_use a = insert p (in_use (ns_tcp_ports s))" "pa_wf a" by (blast elim: allocate_tcp_Ok)
  with tcp_port claimed_sock [OF tcp_port(3,1)] show ?case
    by (intro ns_inv_upd) (auto simp: ns_inv_wf ns_inv_signals graph_mem)
next
  case (tcp_exhausted own i h s e s')
  then have "s' = s" using allocate_tcp_Err ns_inv_wf by blast
  with tcp_exhausted claimed_sock [OF tcp_exhausted(3,1)] show ?case
    by (intro ns_inv_upd) (auto simp: ns_inv_wf ns_inv_signals graph_mem)
next
  case (tcp_refused own i h p s)
  with claimed_sock [OF this(2,1)] pa.free_held ns_inv_wf show ?case
    by (intro ns_inv_upd) (auto simp: ns_inv_signals graph_mem)
next
  case (tcp_dialed own i h p s)
  with claimed_sock [OF this(2,1)] claimed_tcp [OF this(2,1)] show ?case
    by (intro ns_inv_upd) (auto simp: ns_inv_wf ns_inv_signals graph_mem)
next
  case (tcp_established own i h p s)
  with claimed_sock [OF this(2,1)] claimed_tcp [OF this(2,1)] show ?case
    by (intro ns_inv_upd) (auto simp: ns_inv_wf ns_inv_signals graph_mem)
next
  case (tcp_abandoned own i h p s)
  with claimed_sock [OF this(2,1)] claimed_tcp [OF this(2,1)] show ?case
    by (intro ns_inv_upd) (auto simp: ns_inv_wf ns_inv_signals graph_mem)
next
  case (tcp_dropped own i h p s)
  with claimed_sock [OF this(2,1)] claimed_tcp [OF this(2,1)] show ?case
    by (intro ns_inv_upd) (auto simp: ns_inv_wf ns_inv_signals graph_mem)
next
  case (tcp_removed own i h po s u s')
  with claimed_sock [OF this(3,1)] claimed_tcp [OF this(3,1)] show ?case
    by (intro ns_inv_upd) (auto simp: ns_inv_wf ns_inv_signals graph_remove sockets_remove_Ok)
next
  case (tcp_uncounted own i po s)
  with claimed_tcp [OF this(2,1)] show ?case
    by (intro ns_inv_upd; cases po) (auto simp: ns_inv_wf ns_inv_signals)
next
  case (tcp_released own i p s)
  with pa.free_held ns_inv_wf show ?case by (intro ns_inv_upd) (auto simp: ns_inv_signals)
next
  case (udp_port own i s p s')
  with ns_inv_wf obtain a where "s' = s\<lparr>ns_udp_ports := a\<rparr>" "p \<notin> in_use (ns_udp_ports s)"
    "in_use a = insert p (in_use (ns_udp_ports s))" "pa_wf a" by (blast elim: allocate_udp_Ok)
  with udp_port show ?case by (intro ns_inv_upd) (auto simp: ns_inv_wf ns_inv_signals)
next
  case (udp_exhausted s e s' own)
  then show ?case using allocate_udp_Err ns_inv_wf by blast
next
  case (udp_refused own i p s)
  with pa.free_held ns_inv_wf show ?case by (intro ns_inv_upd) (auto simp: ns_inv_signals)
next
  case (udp_added own i p s h)
  with claimed_udp [OF this(3,1)] show ?case
    by (intro ns_inv_upd) (auto simp: forget_absent ns_inv_wf ns_inv_signals)
next
  case (udp_added_fixed own i s h)
  then show ?case by (intro ns_inv_upd) (auto simp: forget_absent ns_inv_wf ns_inv_signals)
next
  case (udp_counted own i h po s)
  with claimed_sock [OF this(2,1)] claimed_udp [OF this(2,1)] show ?case
    by (intro ns_inv_upd) (auto simp: ns_inv_wf ns_inv_signals graph_mem)
next
  case (udp_removed own i h po s u s')
  with claimed_sock [OF this(3,1)] claimed_udp [OF this(3,1)] show ?case
    by (intro ns_inv_upd) (auto simp: ns_inv_wf ns_inv_signals graph_remove sockets_remove_Ok)
next
  case (udp_uncounted own i po s)
  with claimed_udp [OF this(2,1)] show ?case
    by (intro ns_inv_upd; cases po) (auto simp: ns_inv_wf ns_inv_signals)
next
  case (udp_released own i p s)
  with pa.free_held ns_inv_wf show ?case by (intro ns_inv_upd) (auto simp: ns_inv_signals)
qed

lemma ns_reach_inv: "ns_reach w \<Longrightarrow> ns_inv w"
proof (induction rule: ns_reach.induct)
  case (start r1 r2 v6)
  show ?case by (simp add: ns_inv_def netstack_new_def in_use_new Let_def graph_def)
qed (rule ns_step_inv)

section \<open>No leaks\<close>

text \<open>A task between critical sections whose socket is counted in the gauge exactly when it exists.\<close>

definition settled :: "owner \<Rightarrow> bool" where
  "settled o' \<longleftrightarrow> counted o' = (if sock_of o' = None then 0 else 1)"

lemma total_settled:
  assumes "finite (dom own)" "exclusive sock_of own" "\<And>i o'. own i = Some o' \<Longrightarrow> settled o'"
  shows "total counted own = int (card (owned sock_of own))"
proof -
  define I where "I = {i \<in> dom own. claim sock_of (own i) \<noteq> None}"
  have fin: "finite I" using assms(1) by (simp add: I_def)
  have "total counted own = (\<Sum>i\<in>dom own. if i \<in> I then 1 else 0)"
    unfolding total_def by (rule sum.cong) (use assms(3) in \<open>auto simp: I_def settled_def\<close>)
  also have "\<dots> = int (card I)"
    using assms(1) by (simp add: sum.If_cases I_def Int_def)
  also have "card I = card ((\<lambda>i. the (claim sock_of (own i))) ` I)"
    by (rule card_image [symmetric]) (use assms(2) in \<open>fastforce simp: inj_on_def I_def exclusive_def\<close>)
  also have "(\<lambda>i. the (claim sock_of (own i))) ` I = owned sock_of own"
    by (force simp: I_def owned_def claim_def split: option.splits)
  finally show ?thesis .
qed

lemma card_graph: "card (Map.graph m) = card (dom m)"
proof -
  have "dom m = fst ` Map.graph m" by (force simp: graph_def)
  moreover have "inj_on fst (Map.graph m)" by (auto simp: inj_on_def graph_def)
  ultimately show ?thesis by (simp add: card_image)
qed

text \<open>C11. No socket and no port leaks, whatever the interleaving of dials, failures, cancellations and
  drops: the socket set holds exactly the sockets of the tasks, each with its notifications, the two
  bitmaps exactly their ports, and no two tasks share one; when every task is settled the gauge is
  the number of sockets, and when no task is left everything has been given back.\<close>

theorem no_socket_leak:
  assumes "ns_reach (s, own)"
  shows "(\<forall>h k. ns_socks s h = Some k \<longleftrightarrow> (\<exists>i o'. own i = Some o' \<and> sock_of o' = Some (h, k)))
    \<and> ns_signals s = dom (ns_socks s)
    \<and> in_use (ns_tcp_ports s) = {p. \<exists>i o'. own i = Some o' \<and> tcp_port_of o' = Some p}
    \<and> in_use (ns_udp_ports s) = {p. \<exists>i o'. own i = Some o' \<and> udp_port_of o' = Some p}
    \<and> exclusive sock_of own \<and> exclusive tcp_port_of own \<and> exclusive udp_port_of own
    \<and> ((\<forall>i o'. own i = Some o' \<longrightarrow> settled o') \<longrightarrow> ns_gauge s = int (card (dom (ns_socks s))))
    \<and> (own = Map.empty \<longrightarrow> ns_socks s = Map.empty \<and> ns_gauge s = 0 \<and>
         in_use (ns_tcp_ports s) = {} \<and> in_use (ns_udp_ports s) = {})"
proof -
  have owned_eq: "owned f own = {r. \<exists>i o'. own i = Some o' \<and> f o' = Some r}" for f :: "owner \<Rightarrow> 'r option"
    by (auto simp: owned_def claim_def split: option.splits)
  note inv = ns_reach_inv [OF assms, unfolded ns_inv_def Let_def fst_conv snd_conv]
  from inv have g: "Map.graph (ns_socks s) = owned sock_of own" by simp
  have "ns_socks s h = Some k \<longleftrightarrow> (\<exists>i o'. own i = Some o' \<and> sock_of o' = Some (h, k))" for h k
    using g unfolding owned_eq by (simp add: graph_iff [symmetric])
  moreover have "ns_gauge s = int (card (dom (ns_socks s)))" if "\<forall>i o'. own i = Some o' \<longrightarrow> settled o'"
    using inv that total_settled [of own] by (metis card_graph)
  moreover have "ns_socks s = Map.empty" if "own = Map.empty"
    using g that by (auto simp: graph_def fun_eq_iff)
  ultimately show ?thesis using inv by (auto simp: owned_eq)
qed

text \<open>Property. No operation of the stack panics on a handle: whatever task is at whatever point, the socket it
  refers to is in the set, of the kind it expects, with its notifications (so the \<open>expect\<close> of
  \<open>socket_signals\<close> never fires), and removing it succeeds.\<close>

theorem owners_never_panic:
  assumes "ns_reach (s, own)" "own i = Some o'" "sock_of o' = Some (h, k)"
  shows "get_socket k h s = Ok () \<and> socket_signals h s = Ok () \<and> fst (sockets_remove h s) = Ok ()"
proof -
  have "ns_socks s h = Some k" using claimed_sock [OF ns_reach_inv [OF assms(1)] assms(2,3)] .
  then show ?thesis
    using ns_inv_signals [OF ns_reach_inv [OF assms(1)]]
    by (auto simp: get_socket_def socket_signals_def sockets_remove_def)
qed

section \<open>Each operation is a run of its critical sections\<close>

lemma run_step: "ns_step w w' \<Longrightarrow> ns_step\<^sup>*\<^sup>* w' w'' \<Longrightarrow> ns_step\<^sup>*\<^sup>* w w''"
  by (rule converse_rtranclp_into_rtranclp)

lemma doomed_run:
  assumes "own i = Some (TcpDoomed h po)" "ns_socks s h = Some k"
  shows "fst (guard_drop h po s) = Ok () \<and> ns_step\<^sup>*\<^sup>* (s, own) (snd (guard_drop h po s), own(i := None))"
proof -
  define s1 where "s1 = s\<lparr>ns_socks := (ns_socks s)(h := None), ns_signals := ns_signals s - {h}\<rparr>"
  have r: "sockets_remove h s = (Ok (), s1)" using assms(2) by (simp add: sockets_remove_def s1_def)
  have a: "ns_step (s, own) (s1, own(i \<mapsto> TcpUnlinked po))" by (rule tcp_removed) (use assms(1) r in auto)
  have b: "ns_step (s1, own(i \<mapsto> TcpUnlinked po)) (gauge_add (-1) s1, own(i := map_option TcpPortOnly po))"
    using tcp_uncounted [of "own(i \<mapsto> TcpUnlinked po)" i po s1] by simp
  show ?thesis
  proof (cases po)
    case None
    then show ?thesis
      using run_step [OF a run_step [OF b rtranclp.rtrancl_refl]] r by (simp add: guard_drop_def remove_socket_def)
  next
    case (Some p)
    have "ns_step (gauge_add (-1) s1, own(i \<mapsto> TcpPortOnly p)) (release_tcp_port p (gauge_add (-1) s1), own(i := None))"
      using tcp_released [of "own(i \<mapsto> TcpPortOnly p)" i p] by simp
    then show ?thesis
      using run_step [OF a run_step [OF b]] Some r by (auto simp: guard_drop_def remove_socket_def)
  qed
qed

text \<open>\<open>TcpConnection::connect\<close> up to its wait.\<close>

lemma connect_start_run:
  assumes "own i = None" "ns_socks s h = None"
  shows "case connect_start h addr smol s of
      (Ok p, s') \<Rightarrow> ns_step\<^sup>*\<^sup>* (s, own) (s', own(i \<mapsto> TcpPending h p))
    | (Err e, s') \<Rightarrow> ns_step\<^sup>*\<^sup>* (s, own) (s', own(i := None))
    | (Panic, s') \<Rightarrow> False"
proof -
  define s1 where "s1 = create_tcp_socket h s"
  have h1: "ns_socks s1 h = Some Tcp" "socket_signals h s1 = Ok ()"
    by (simp_all add: s1_def create_tcp_socket_def socket_signals_def)
  have "ns_step (s, own) (add_socket h Tcp s, own(i \<mapsto> TcpAdded h))" by (rule tcp_create) (use assms in auto)
  moreover have "ns_step (add_socket h Tcp s, own(i \<mapsto> TcpAdded h)) (s1, own(i \<mapsto> TcpGuarded h))"
    using tcp_counted [of "own(i \<mapsto> TcpAdded h)" i h] by (simp add: s1_def create_tcp_socket_def)
  ultimately have r1: "ns_step\<^sup>*\<^sup>* (s, own) (s1, own(i \<mapsto> TcpGuarded h))" by simp
  have drop: "\<exists>s'. guard_drop h None s2 = (Ok (), s') \<and> ns_step\<^sup>*\<^sup>* (s, own) (s', own(i := None))"
    if "ns_step\<^sup>*\<^sup>* (s, own) (s2, own(i \<mapsto> TcpDoomed h None))" "ns_socks s2 h = Some Tcp" for s2
  proof -
    have "fst (guard_drop h None s2) = Ok () \<and>
        ns_step\<^sup>*\<^sup>* (s2, own(i \<mapsto> TcpDoomed h None)) (snd (guard_drop h None s2), own(i := None))"
      using doomed_run [of "own(i \<mapsto> TcpDoomed h None)" i h None s2 Tcp] that(2) by simp
    with rtranclp_trans [OF that(1)] show ?thesis by (metis prod.collapse)
  qed
  show ?thesis
  proof (cases "allocate_tcp_port s1")
    case (Pair r s2)
    have socks: "ns_socks s2 h = Some Tcp" "r \<noteq> Panic"
      using Pair h1(1) by (auto simp: allocate_tcp_port_def split: option.splits prod.splits)
    show ?thesis
    proof (cases r)
      case (Err e)
      have "ns_step (s1, own(i \<mapsto> TcpGuarded h)) (s2, own(i \<mapsto> TcpDoomed h None))"
        using tcp_exhausted [of "own(i \<mapsto> TcpGuarded h)" i h s1 e s2] Pair Err by simp
      from drop [OF rtranclp.rtrancl_into_rtrancl [OF r1 this] socks(1)] show ?thesis
        using Pair Err h1 by (auto simp: connect_start_def connect_def s1_def [symmetric] Let_def)
    next
      case (Ok p)
      have d: "ns_step\<^sup>*\<^sup>* (s, own) (s2, own(i \<mapsto> TcpDialing h p))"
        using rtranclp.rtrancl_into_rtrancl [OF r1 tcp_port [of "own(i \<mapsto> TcpGuarded h)" i h s1 p s2]] Pair Ok
        by simp
      have "ns_step (s2, own(i \<mapsto> TcpDialing h p)) (s2, own(i \<mapsto> TcpPending h p))"
        using tcp_dialed [of "own(i \<mapsto> TcpDialing h p)" i h p s2] by simp
      note ok = rtranclp.rtrancl_into_rtrancl [OF d this]
      have "ns_step (s2, own(i \<mapsto> TcpDialing h p)) (release_tcp_port p s2, own(i \<mapsto> TcpDoomed h None))"
        using tcp_refused [of "own(i \<mapsto> TcpDialing h p)" i h p s2] by simp
      from drop [OF rtranclp.rtrancl_into_rtrancl [OF d this]] socks(1)
      obtain s' where "guard_drop h None (release_tcp_port p s2) = (result.Ok (), s')"
        "ns_step\<^sup>*\<^sup>* (s, own) (s', own(i := None))" by auto
      with ok Pair Ok h1 socks show ?thesis
        by (auto simp: connect_start_def connect_def s1_def [symmetric] Let_def get_socket_def split: option.split)
    qed (use socks in simp)
  qed
qed

lemma connection_drop_run:
  assumes "own i = Some (TcpLive h p)" "ns_socks s h = Some Tcp"
  shows "fst (connection_drop h p s) = Ok () \<and> ns_step\<^sup>*\<^sup>* (s, own) (snd (connection_drop h p s), own(i := None))"
proof -
  have "ns_step (s, own) (s, own(i \<mapsto> TcpDoomed h (Some p)))" by (rule tcp_dropped) (use assms in auto)
  from run_step [OF this] show ?thesis
    using doomed_run [of "own(i \<mapsto> TcpDoomed h (Some p))" i h "Some p" s Tcp] assms(2)
    by (simp add: connection_drop_def get_socket_def)
qed

lemma guard_drop_run:
  assumes "own i = Some (TcpPending h p)" "ns_socks s h = Some Tcp"
  shows "fst (guard_drop h (Some p) s) = Ok () \<and> ns_step\<^sup>*\<^sup>* (s, own) (snd (guard_drop h (Some p) s), own(i := None))"
proof -
  have "ns_step (s, own) (s, own(i \<mapsto> TcpDoomed h (Some p)))" by (rule tcp_abandoned) (use assms in auto)
  from run_step [OF this] show ?thesis
    using doomed_run [of "own(i \<mapsto> TcpDoomed h (Some p))" i h "Some p" s Tcp] assms(2) by simp
qed

lemma udp_counted_run:
  "own i = Some (UdpAdded h po) \<Longrightarrow> ns_step\<^sup>*\<^sup>* (s, own) (gauge_add 1 s, own(i \<mapsto> UdpLive h po))"
  by (intro r_into_rtranclp udp_counted)

lemma create_udp_run:
  assumes "own i = None" "ns_socks s h = None"
  shows "case create_udp_socket_with h local_port bind s of
      (Ok (port, allocated), s') \<Rightarrow>
        ns_step\<^sup>*\<^sup>* (s, own) (s', own(i \<mapsto> UdpLive h (if allocated then Some port else None)))
    | (Err e, s') \<Rightarrow> ns_step\<^sup>*\<^sup>* (s, own) (s', own(i := None))
    | (Panic, s') \<Rightarrow> False"
proof -
  have idle: "own(i := None) = own" using assms(1) by auto
  show ?thesis
  proof (cases "local_port = 0")
    case False
    have "ns_step (s, own) (add_socket h Udp s, own(i \<mapsto> UdpAdded h None))"
      by (rule udp_added_fixed) (use assms in auto)
    from run_step [OF this udp_counted_run [of "own(i \<mapsto> UdpAdded h None)" i h None]]
    show ?thesis using False idle by (auto simp: create_udp_socket_with_def split: option.split)
  next
    case True
    show ?thesis
    proof (cases "allocate_udp_port s")
      case (Pair r s1)
      show ?thesis
      proof (cases r)
        case (Err e)
        then have "ns_step (s, own) (s1, own)" using Pair by (auto intro: udp_exhausted)
        with True Pair Err idle show ?thesis by (auto simp: create_udp_socket_with_def)
      next
        case (Ok p)
        have held: "ns_step (s, own) (s1, own(i \<mapsto> UdpPortHeld p))"
          by (rule udp_port) (use assms Pair Ok in auto)
        have h1: "ns_socks s1 h = None"
          using Pair assms(2) by (auto simp: allocate_udp_port_def split: option.splits prod.splits)
        have "ns_step (s1, own(i \<mapsto> UdpPortHeld p)) (release_udp_port p s1, own(i := None))"
          using udp_refused [of "own(i \<mapsto> UdpPortHeld p)" i p s1] by simp
        then have refused: "ns_step\<^sup>*\<^sup>* (s, own) (release_udp_port p s1, own(i := None))"
          by (intro run_step [OF held] r_into_rtranclp)
        have "ns_step (s1, own(i \<mapsto> UdpPortHeld p)) (add_socket h Udp s1, own(i \<mapsto> UdpAdded h (Some p)))"
          using udp_added [of "own(i \<mapsto> UdpPortHeld p)" i p s1 h] h1 by simp
        from run_step [OF held run_step [OF this]]
          udp_counted_run [of "own(i \<mapsto> UdpAdded h (Some p))" i h "Some p" "add_socket h Udp s1"]
        show ?thesis using True Pair Ok refused idle
          by (auto simp: create_udp_socket_with_def split: option.split)
      qed (use Pair in \<open>auto simp: allocate_udp_port_def split: option.splits prod.splits\<close>)
    qed
  qed
qed

lemma udp_drop_run:
  assumes "own i = Some (UdpLive h (if allocated then Some port else None))" "ns_socks s h = Some Udp"
  shows "fst (udp_handle_drop h port allocated s) = Ok () \<and>
    ns_step\<^sup>*\<^sup>* (s, own) (snd (udp_handle_drop h port allocated s), own(i := None))"
proof -
  let ?po = "if allocated then Some port else None"
  define s1 where "s1 = s\<lparr>ns_socks := (ns_socks s)(h := None), ns_signals := ns_signals s - {h}\<rparr>"
  have r: "sockets_remove h s = (Ok (), s1)" using assms(2) by (simp add: sockets_remove_def s1_def)
  have a: "ns_step (s, own) (s1, own(i \<mapsto> UdpUnlinked ?po))" by (rule udp_removed) (use assms r in auto)
  have b: "ns_step (s1, own(i \<mapsto> UdpUnlinked ?po)) (gauge_add (-1) s1, own(i := map_option UdpPortOnly ?po))"
    using udp_uncounted [of "own(i \<mapsto> UdpUnlinked ?po)" i ?po s1] by simp
  show ?thesis
  proof (cases allocated)
    case False
    then show ?thesis
      using run_step [OF a run_step [OF b rtranclp.rtrancl_refl]] r by (simp add: udp_handle_drop_def remove_socket_def)
  next
    case True
    have "ns_step (gauge_add (-1) s1, own(i \<mapsto> UdpPortOnly port)) (release_udp_port port (gauge_add (-1) s1), own(i := None))"
      using udp_released [of "own(i \<mapsto> UdpPortOnly port)" i port] by simp
    then show ?thesis
      using run_step [OF a run_step [OF b]] True r by (auto simp: udp_handle_drop_def remove_socket_def)
  qed
qed

text \<open>Property. The operations of the stack, run without interruption, are runs of the interleaved critical
  sections, so every invariant above holds around them: a dial ends with its task waiting for the
  handshake or gone, a cancelled dial and a dropped connection end with the task gone, and likewise
  for UDP sockets; none panics.\<close>

theorem socket_operations_refine:
  assumes "ns_reach (s, own)"
  shows "(own i = None \<and> ns_socks s h = None \<longrightarrow>
       (case connect_start h addr smol s of
          (Ok p, s') \<Rightarrow> ns_step\<^sup>*\<^sup>* (s, own) (s', own(i \<mapsto> TcpPending h p))
        | (Err e, s') \<Rightarrow> ns_step\<^sup>*\<^sup>* (s, own) (s', own(i := None))
        | (Panic, s') \<Rightarrow> False) \<and>
       (case create_udp_socket_with h local_port bind s of
          (Ok (port, allocated), s') \<Rightarrow>
            ns_step\<^sup>*\<^sup>* (s, own) (s', own(i \<mapsto> UdpLive h (if allocated then Some port else None)))
        | (Err e, s') \<Rightarrow> ns_step\<^sup>*\<^sup>* (s, own) (s', own(i := None))
        | (Panic, s') \<Rightarrow> False))
    \<and> (own i = Some (TcpPending h p) \<longrightarrow> fst (guard_drop h (Some p) s) = Ok () \<and>
         ns_step\<^sup>*\<^sup>* (s, own) (snd (guard_drop h (Some p) s), own(i := None)))
    \<and> (own i = Some (TcpLive h p) \<longrightarrow> fst (connection_drop h p s) = Ok () \<and>
         ns_step\<^sup>*\<^sup>* (s, own) (snd (connection_drop h p s), own(i := None)))
    \<and> (own i = Some (UdpLive h (if allocated then Some p else None)) \<longrightarrow>
         fst (udp_handle_drop h p allocated s) = Ok () \<and>
         ns_step\<^sup>*\<^sup>* (s, own) (snd (udp_handle_drop h p allocated s), own(i := None)))"
  using connect_start_run [of own i s h addr smol] create_udp_run [of own i s h local_port bind]
    guard_drop_run [of own i h p s] connection_drop_run [of own i h p s] udp_drop_run [of own i h allocated p s]
    claimed_sock [OF ns_reach_inv [OF assms], of i _ h]
  by simp

lemma ns_reach_run: "ns_step\<^sup>*\<^sup>* w w' \<Longrightarrow> ns_reach w \<Longrightarrow> ns_reach w'"
  by (induction rule: rtranclp_induct) (auto intro: ns_reach.step)

text \<open>The state is determined by what the tasks hold.\<close>

lemma graph_inject: "Map.graph m = Map.graph m' \<Longrightarrow> m = m'"
proof
  fix x assume "Map.graph m = Map.graph m'"
  then have "m x = Some y \<longleftrightarrow> m' x = Some y" for y by (metis graph_iff)
  then show "m x = m' x" by (metis option.exhaust)
qed

lemma ns_inv_determines:
  assumes "ns_inv (s, own)" "ns_inv (s', own)"
  shows "ns_socks s' = ns_socks s" "ns_signals s' = ns_signals s" "ns_gauge s' = ns_gauge s"
    "in_use (ns_tcp_ports s') = in_use (ns_tcp_ports s)" "in_use (ns_udp_ports s') = in_use (ns_udp_ports s)"
proof -
  have "Map.graph (ns_socks s') = Map.graph (ns_socks s)" using assms by (simp add: ns_inv_def Let_def)
  then show socks: "ns_socks s' = ns_socks s" by (rule graph_inject)
  show "ns_signals s' = ns_signals s" "ns_gauge s' = ns_gauge s"
    "in_use (ns_tcp_ports s') = in_use (ns_tcp_ports s)" "in_use (ns_udp_ports s') = in_use (ns_udp_ports s)"
    using assms unfolding ns_inv_def Let_def fst_conv snd_conv by (simp_all add: socks)
qed

lemma connect_wait_cases: "connect_wait addr d rounds \<noteq> Some Panic"
  by (induction addr d rounds rule: connect_wait.induct) auto

lemma connect_wait_ends:
  "(st, now, wake) \<in> set rounds \<Longrightarrow> d \<le> now \<or> wake = DeadlineFired \<Longrightarrow> connect_wait addr d rounds \<noteq> None"
  by (induction addr d rounds rule: connect_wait.induct) auto

lemma tcp_connect_run:
  assumes "ns_reach (s, own)" "own i = None" "ns_socks s h = None"
  shows "case tcp_connect h addr smol start rounds s of
      (Some (Ok p), s') \<Rightarrow> ns_step\<^sup>*\<^sup>* (s, own) (s', own(i \<mapsto> TcpLive h p))
    | (Some (Err e), s') \<Rightarrow> ns_step\<^sup>*\<^sup>* (s, own) (s', own)
    | (Some Panic, s') \<Rightarrow> False
    | (None, s') \<Rightarrow> ns_step\<^sup>*\<^sup>* (s, own) (s', own)"
proof -
  have idle: "own(i := None) = own" using assms(2) by auto
  note run = connect_start_run [of own i s h addr smol, OF assms(2,3)]
  show ?thesis
  proof (cases "connect_start h addr smol s")
    case (Pair r s1)
    show ?thesis
    proof (cases r)
      case (Ok p)
      with run Pair have r1: "ns_step\<^sup>*\<^sup>* (s, own) (s1, own(i \<mapsto> TcpPending h p))" by simp
      have "ns_socks s1 h = Some Tcp"
        using claimed_sock [OF ns_reach_inv [OF ns_reach_run [OF r1 assms(1)]], of i "TcpPending h p" h Tcp] by simp
      from guard_drop_run [of "own(i \<mapsto> TcpPending h p)" i h p s1, OF _ this] obtain s2
        where s2: "guard_drop h (Some p) s1 = (result.Ok (), s2)"
          "ns_step\<^sup>*\<^sup>* (s1, own(i \<mapsto> TcpPending h p)) (s2, own)"
        using idle by (cases "guard_drop h (Some p) s1") auto
      have "ns_step (s1, own(i \<mapsto> TcpPending h p)) (s1, own(i \<mapsto> TcpLive h p))"
        using tcp_established [of "own(i \<mapsto> TcpPending h p)" i h p s1] by simp
      then have live: "ns_step\<^sup>*\<^sup>* (s, own) (s1, own(i \<mapsto> TcpLive h p))"
        by (rule rtranclp.rtrancl_into_rtrancl [OF r1])
      show ?thesis
      proof (cases "connect_wait addr (start + from_secs 30) rounds")
        case (Some w)
        then show ?thesis
          using Pair Ok s2 rtranclp_trans [OF r1 s2(2)] live connect_wait_cases [of addr _ rounds]
          by (cases w) (auto simp: tcp_connect_def)
      qed (use Pair Ok s2 rtranclp_trans [OF r1 s2(2)] in \<open>simp add: tcp_connect_def\<close>)
    qed (use run Pair idle in \<open>simp_all add: tcp_connect_def\<close>)
  qed
qed

text \<open>C36. A dial that does not succeed leaves no trace: whether the ports are exhausted, the tunnel has no
  IPv6, smoltcp refuses the address, the handshake fails or times out, or the future is dropped
  while it waits, every socket, notification, port and the gauge are as before it; and a dial never
  waits beyond its deadline.\<close>

theorem failed_dial_leaves_no_trace:
  assumes "ns_reach (s, own)" "own i = None" "ns_socks s h = None"
    and "tcp_connect h addr smol start rounds s = (r, s')" "\<nexists>p. r = Some (Ok p)"
  shows "ns_socks s' = ns_socks s \<and> ns_signals s' = ns_signals s \<and> ns_gauge s' = ns_gauge s
    \<and> in_use (ns_tcp_ports s') = in_use (ns_tcp_ports s) \<and> in_use (ns_udp_ports s') = in_use (ns_udp_ports s)
    \<and> r \<noteq> Some Panic
    \<and> ((\<exists>(st, now, wake) \<in> set rounds. start + from_secs 30 \<le> now \<or> wake = DeadlineFired) \<longrightarrow> r \<noteq> None)"
proof -
  have run: "ns_step\<^sup>*\<^sup>* (s, own) (s', own)" and no_panic: "r \<noteq> Some Panic"
    using tcp_connect_run [OF assms(1), of i h addr smol start rounds, OF assms(2,3)] assms(4,5)
    by (auto split: option.splits result.splits)
  have "r \<noteq> None" if "(st, now, wake) \<in> set rounds" "start + from_secs 30 \<le> now \<or> wake = DeadlineFired" for st now wake
    using connect_wait_ends [OF that(1), of "start + from_secs 30" addr] that(2) assms(4)
    by (auto simp: tcp_connect_def split: option.splits result.splits prod.splits)
  then have ends: "(\<exists>(st, now, wake) \<in> set rounds. start + from_secs 30 \<le> now \<or> wake = DeadlineFired) \<longrightarrow> r \<noteq> None"
    by blast
  show ?thesis
    using no_panic ends
      ns_inv_determines [OF ns_reach_inv [OF assms(1)] ns_reach_inv [OF ns_reach_run [OF run assms(1)]]]
    by blast
qed

text \<open>A dial without IPv6, and a connection opened and dropped, on a fresh stack.\<close>

definition fresh_stack :: netstack where
  "fresh_stack = netstack_new 5 6 False"

lemma fresh_reach: "ns_reach (fresh_stack, Map.empty)" "ns_socks fresh_stack h = None"
  by (simp_all add: fresh_stack_def ns_reach.start) (simp add: netstack_new_def)

theorem failed_dial_leaves_no_trace_witness:
  "\<exists>s'. tcp_connect 0 (SA6 (ipv6_from (replicate 16 1)) 443 0 0) None 7 [] fresh_stack = (Some (Err Ipv6NotSupported), s')
     \<and> ns_socks s' = Map.empty \<and> ns_gauge s' = 0 \<and> in_use (ns_tcp_ports s') = {}"
proof -
  let ?addr = "SA6 (ipv6_from (replicate 16 1)) 443 0 0"
  have "card (in_use (pa_new 5)) \<noteq> EPHEMERAL_PORT_COUNT"
    by (simp add: in_use_new EPHEMERAL_PORT_COUNT_def)
  then obtain p a where p: "allocate (pa_new 5) = (Some p, a)"
    using pa.alloc_None [OF in_use_new(2) [of 5]] by (cases "allocate (pa_new 5)"; cases "fst (allocate (pa_new 5))") auto
  obtain s' where s': "tcp_connect 0 ?addr None 7 [] fresh_stack = (Some (Err Ipv6NotSupported), s')"
    by (auto simp: tcp_connect_def connect_start_def connect_def allocate_tcp_port_def create_tcp_socket_def
        socket_signals_def fresh_stack_def netstack_new_def p Let_def guard_drop_def remove_socket_def
        sockets_remove_def add_socket_def gauge_add_def release_tcp_port_def)
  from failed_dial_leaves_no_trace [OF fresh_reach(1) _ fresh_reach(2) s'] in_use_new(1) [of 5]
  have "ns_socks s' = Map.empty" "ns_gauge s' = 0" "in_use (ns_tcp_ports s') = {}"
    by (simp_all add: fresh_stack_def netstack_new_def)
  with s' show ?thesis by blast
qed

lemma example_live:
  obtains s p where "ns_reach (s, [0 \<mapsto> TcpLive 3 p])"
proof -
  have "case tcp_connect 3 (SA4 (Ipv4Addr 1 1 1 1) 443) None 7 [(Established, 8, Notified)] fresh_stack of
      (Some (Ok p), s') \<Rightarrow> ns_step\<^sup>*\<^sup>* (fresh_stack, Map.empty) (s', Map.empty(0 \<mapsto> TcpLive 3 p))
    | (Some (Err e), s') \<Rightarrow> ns_step\<^sup>*\<^sup>* (fresh_stack, Map.empty) (s', Map.empty)
    | (Some Panic, s') \<Rightarrow> False
    | (None, s') \<Rightarrow> ns_step\<^sup>*\<^sup>* (fresh_stack, Map.empty) (s', Map.empty)"
    by (rule tcp_connect_run [OF fresh_reach(1) _ fresh_reach(2)]) simp
  moreover have "card (in_use (pa_new 5)) \<noteq> EPHEMERAL_PORT_COUNT"
    by (simp add: in_use_new EPHEMERAL_PORT_COUNT_def)
  then obtain p a where p: "allocate (pa_new 5) = (Some p, a)"
    using pa.alloc_None [OF in_use_new(2) [of 5]] by (cases "allocate (pa_new 5)"; cases "fst (allocate (pa_new 5))") auto
  then have "\<exists>s'. tcp_connect 3 (SA4 (Ipv4Addr 1 1 1 1) 443) None 7 [(Established, 8, Notified)] fresh_stack = (Some (Ok p), s')"
    by (simp add: tcp_connect_def connect_start_def connect_def allocate_tcp_port_def create_tcp_socket_def
        socket_signals_def fresh_stack_def netstack_new_def get_socket_def add_socket_def gauge_add_def Let_def)
  ultimately obtain s' where "ns_step\<^sup>*\<^sup>* (fresh_stack, Map.empty) (s', [0 \<mapsto> TcpLive 3 p])" by auto
  from ns_reach_run [OF this fresh_reach(1)] show thesis by (rule that)
qed

theorem no_socket_leak_witness:
  "\<exists>s p. ns_reach (s, [0 \<mapsto> TcpLive 3 p]) \<and> ns_socks s 3 = Some Tcp \<and> in_use (ns_tcp_ports s) = {p} \<and> ns_gauge s = 1"
proof -
  obtain s p where r: "ns_reach (s, [0 \<mapsto> TcpLive 3 p])" by (rule example_live)
  note leak = no_socket_leak [OF r]
  have "\<forall>h k. ns_socks s h = Some k \<longleftrightarrow> (h, k) = (3, Tcp)" using leak by auto
  then have "dom (ns_socks s) = {3}" "ns_socks s 3 = Some Tcp" by auto
  moreover have "in_use (ns_tcp_ports s) = {p}" using leak by auto
  moreover have "ns_gauge s = int (card (dom (ns_socks s)))" using leak by (auto simp: settled_def)
  ultimately show ?thesis using r by (intro exI [of _ s] exI [of _ p]) simp
qed

theorem owners_never_panic_witness:
  "\<exists>s p. ns_reach (s, [0 \<mapsto> TcpLive 3 p]) \<and> get_socket Tcp 3 s = Ok () \<and> fst (sockets_remove 3 s) = Ok ()"
proof -
  obtain s p where r: "ns_reach (s, [0 \<mapsto> TcpLive 3 p])" by (rule example_live)
  from owners_never_panic [OF r, of 0 "TcpLive 3 p" 3 Tcp] r show ?thesis by auto
qed

theorem socket_operations_refine_witness:
  "\<exists>s p. ns_reach (s, [0 \<mapsto> TcpLive 3 p]) \<and> fst (connection_drop 3 p s) = Ok () \<and>
     ns_step\<^sup>*\<^sup>* (s, [0 \<mapsto> TcpLive 3 p]) (snd (connection_drop 3 p s), Map.empty(0 := None))"
proof -
  obtain s p where r: "ns_reach (s, [0 \<mapsto> TcpLive 3 p])" by (rule example_live)
  from socket_operations_refine [OF r, of 0 3 _ _ _ _ p] r show ?thesis by fastforce
qed

end
