(* ===== verification/Net_Io.thy ===== *)
theory Net_Io
  imports Prelude Net_Types "HOL-Library.Multiset"
begin

text \<open>
  The data path of \<open>vendor/wireguard-netstack/src/netstack.rs\<close>: the virtual device and its two queues,
  \<open>poll\<close> with its back pressure towards the WireGuard channel, the sleep of the poll loop, the wait
  loops of TCP reads and writes, and the bounded send of a UDP datagram. smoltcp enters as the
  sequence of device calls one \<open>Interface::poll\<close> makes and as the answers of its sockets.
\<close>

section \<open>The virtual device\<close>

definition MAX_DEVICE_QUEUE_PACKETS :: nat where "MAX_DEVICE_QUEUE_PACKETS = 8192"

record device =
  dv_rx_queue :: "bytes list"
  dv_tx_queue :: "bytes list"

definition device_new :: device where
  "device_new = \<lparr>dv_rx_queue = [], dv_tx_queue = []\<rparr>"

definition push_rx :: "bytes \<Rightarrow> device \<Rightarrow> bool \<times> device" where
  "push_rx packet d =
     (if MAX_DEVICE_QUEUE_PACKETS \<le> length (dv_rx_queue d) then (False, d)
      else (True, d\<lparr>dv_rx_queue := dv_rx_queue d @ [packet]\<rparr>))"

definition drain_tx :: "device \<Rightarrow> bytes list \<times> device" where
  "drain_tx d = (dv_tx_queue d, d\<lparr>dv_tx_queue := []\<rparr>)"

text \<open>The loop pops from the back and pushes to the front; \<open>pushed\<close> is the reversed list it walks.\<close>

fun push_front_all :: "bytes list \<Rightarrow> bytes list \<Rightarrow> bytes list" where
  "push_front_all [] q = q"
| "push_front_all (p # ps) q = push_front_all ps (p # q)"

definition prepend_tx :: "bytes list \<Rightarrow> device \<Rightarrow> device" where
  "prepend_tx packets d = d\<lparr>dv_tx_queue := push_front_all (rev packets) (dv_tx_queue d)\<rparr>"

definition has_pending_tx :: "device \<Rightarrow> bool" where
  "has_pending_tx d \<longleftrightarrow> dv_tx_queue d \<noteq> []"

text \<open>\<open>Device::receive\<close> and \<open>Device::transmit\<close>: whether a token is handed out.\<close>

definition receive :: "device \<Rightarrow> (bytes \<times> device) option" where
  "receive d =
     (if MAX_DEVICE_QUEUE_PACKETS \<le> length (dv_tx_queue d) then None
      else case dv_rx_queue d of
          [] \<Rightarrow> None
        | packet # rest \<Rightarrow> Some (packet, d\<lparr>dv_rx_queue := rest\<rparr>))"

definition transmit :: "device \<Rightarrow> bool" where
  "transmit d \<longleftrightarrow> length (dv_tx_queue d) < MAX_DEVICE_QUEUE_PACKETS"

definition tx_consume :: "bytes \<Rightarrow> device \<Rightarrow> device" where
  "tx_consume packet d = d\<lparr>dv_tx_queue := dv_tx_queue d @ [packet]\<rparr>"

section \<open>Poll\<close>

text \<open>What \<open>Interface::poll\<close> does with the device: it asks for a received packet, perhaps answering it at
  once, or for room to transmit one. The packets it emits are the second component.\<close>

datatype device_call = AskReceive "bytes option" | AskTransmit bytes

fun iface_poll :: "device_call list \<Rightarrow> device \<Rightarrow> device \<times> bytes list" where
  "iface_poll [] d = (d, [])"
| "iface_poll (AskReceive reply # calls) d =
     (case receive d of
        None \<Rightarrow> iface_poll calls d
      | Some (packet, d1) \<Rightarrow>
          (case reply of
             None \<Rightarrow> iface_poll calls d1
           | Some r \<Rightarrow> let (d2, out) = iface_poll calls (tx_consume r d1) in (d2, r # out)))"
| "iface_poll (AskTransmit p # calls) d =
     (if transmit d then let (d2, out) = iface_poll calls (tx_consume p d) in (d2, p # out)
      else iface_poll calls d)"

datatype send_outcome = SendOk | SendFull | SendClosed

datatype poll_metric = Backpressure | TxDropped

text \<open>The sends after the lock is released, with the answers of \<open>try_send\<close>: what was sent, what goes
  back to the device, what is lost.\<close>

fun send_packets :: "(nat \<Rightarrow> send_outcome) \<Rightarrow> nat \<Rightarrow> bytes list \<Rightarrow> bytes list \<times> bytes list \<times> bytes list \<times> poll_metric list" where
  "send_packets answer n [] = ([], [], [], [])"
| "send_packets answer n (p # ps) =
     (case answer n of
        SendOk \<Rightarrow> let (sent, unsent, lost, ms) = send_packets answer (Suc n) ps in (p # sent, unsent, lost, ms)
      | SendFull \<Rightarrow> ([], p # ps, [], [Backpressure])
      | SendClosed \<Rightarrow> ([], [], p # ps, [TxDropped]))"

record poll_result =
  po_device :: device
  po_emitted :: "bytes list"
  po_sent :: "bytes list"
  po_lost :: "bytes list"
  po_metrics :: "poll_metric list"

definition poll :: "device_call list \<Rightarrow> (nat \<Rightarrow> send_outcome) \<Rightarrow> device \<Rightarrow> poll_result" where
  "poll calls answer d =
     (let (d1, emitted) = iface_poll calls d;
          (tx_packets, d2) = drain_tx d1;
          (sent, unsent, lost, ms) = send_packets answer 0 tx_packets
      in \<lparr>po_device = (if unsent = [] then d2 else prepend_tx unsent d2), po_emitted = emitted,
          po_sent = sent, po_lost = lost, po_metrics = ms\<rparr>)"

text \<open>How long the poll loop sleeps when nothing kicks it; \<open>poll_at\<close> is smoltcp's next deadline.\<close>

definition poll_sleep :: "device \<Rightarrow> instant \<Rightarrow> instant option \<Rightarrow> duration" where
  "poll_sleep d now poll_at =
     (if has_pending_tx d then from_millis 1
      else case poll_at of
          Some at \<Rightarrow> if now < at then from_millis (min (as_millis (at - now)) 1000) else 0
        | None \<Rightarrow> from_secs 1)"

subsection \<open>Pollers in parallel\<close>

text \<open>Every dropped connection polls too, so several tasks may be between the lock and the channel at
  once. \<open>pl_hands\<close> are the packets each of them still holds; the last three fields are ghosts. A UDP
  send that has to be fragmented polls the interface without draining the queue (\<open>flushed\<close>).\<close>

record pollers =
  pl_device :: device
  pl_hands :: "bytes list multiset"
  pl_emitted :: "bytes multiset"
  pl_sent :: "bytes multiset"
  pl_lost :: "bytes multiset"

definition pollers_new :: pollers where
  "pollers_new = \<lparr>pl_device = device_new, pl_hands = {#}, pl_emitted = {#}, pl_sent = {#}, pl_lost = {#}\<rparr>"

inductive poll_step :: "pollers \<Rightarrow> pollers \<Rightarrow> bool" where
  locked: "iface_poll calls (pl_device w) = (d1, emitted) \<Longrightarrow> drain_tx d1 = (packets, d2) \<Longrightarrow>
    poll_step w (w\<lparr>pl_device := d2, pl_hands := add_mset packets (pl_hands w),
      pl_emitted := pl_emitted w + mset emitted\<rparr>)"
| sent: "pl_hands w = add_mset (p # ps) hands \<Longrightarrow>
    poll_step w (w\<lparr>pl_hands := add_mset ps hands, pl_sent := add_mset p (pl_sent w)\<rparr>)"
| full: "pl_hands w = add_mset (p # ps) hands \<Longrightarrow>
    poll_step w (w\<lparr>pl_device := prepend_tx (p # ps) (pl_device w), pl_hands := hands\<rparr>)"
| closed: "pl_hands w = add_mset (p # ps) hands \<Longrightarrow>
    poll_step w (w\<lparr>pl_hands := hands, pl_lost := pl_lost w + mset (p # ps)\<rparr>)"
| finished: "pl_hands w = add_mset [] hands \<Longrightarrow> poll_step w (w\<lparr>pl_hands := hands\<rparr>)"
| flushed: "iface_poll calls (pl_device w) = (d1, emitted) \<Longrightarrow>
    poll_step w (w\<lparr>pl_device := d1, pl_emitted := pl_emitted w + mset emitted\<rparr>)"
| received: "poll_step w (w\<lparr>pl_device := snd (push_rx packet (pl_device w))\<rparr>)"

section \<open>What a poll does to packets\<close>

lemma push_front_all_rev: "push_front_all ps q = rev ps @ q"
  by (induction ps arbitrary: q) simp_all

lemma prepend_tx_simps [simp]:
  "dv_tx_queue (prepend_tx ps d) = ps @ dv_tx_queue d" "dv_rx_queue (prepend_tx ps d) = dv_rx_queue d"
  by (simp_all add: prepend_tx_def push_front_all_rev)

lemma receive_Some:
  "receive d = Some (p, d1) \<Longrightarrow>
     length (dv_tx_queue d) < MAX_DEVICE_QUEUE_PACKETS \<and> dv_rx_queue d = p # dv_rx_queue d1 \<and>
     dv_tx_queue d1 = dv_tx_queue d"
  by (auto simp: receive_def split: list.splits if_splits)

lemma iface_poll_spec:
  assumes "iface_poll calls d = (d1, emitted)"
  shows "dv_tx_queue d1 = dv_tx_queue d @ emitted
    \<and> length (dv_tx_queue d1) \<le> max MAX_DEVICE_QUEUE_PACKETS (length (dv_tx_queue d))
    \<and> (\<exists>n. dv_rx_queue d1 = drop n (dv_rx_queue d))"
  using assms
proof (induction calls d arbitrary: d1 emitted rule: iface_poll.induct)
  case (1 d)
  then show ?case by (auto intro: exI [of _ 0])
next
  case (2 reply calls d)
  show ?case
  proof (cases "receive d")
    case None
    then have "iface_poll calls d = (d1, emitted)" using "2.prems" by simp
    from "2.IH"(1) [OF None this] show ?thesis .
  next
    case (Some r)
    obtain p e where pe: "receive d = Some (p, e)" using Some by (cases r) auto
    note r = receive_Some [OF pe]
    have rx: "\<exists>n. drop k (dv_rx_queue e) = drop n (dv_rx_queue d)" for k
      using r by (intro exI [of _ "Suc k"]) simp
    have tx: "dv_tx_queue e = dv_tx_queue d" using r by blast
    show ?thesis
    proof (cases reply)
      case None
      then have "iface_poll calls e = (d1, emitted)" using "2.prems" pe by simp
      from "2.IH"(2) [OF pe refl None this] show ?thesis using rx unfolding tx by metis
    next
      case (Some q)
      obtain out where out: "iface_poll calls (tx_consume q e) = (d1, out)" "emitted = q # out"
        using 2(4) pe Some by (auto split: prod.splits)
      with "2.IH"(3) [OF pe refl Some out(1)] tx r rx show ?thesis
        by (auto simp: tx_consume_def max_def split: if_splits)
    qed
  qed
next
  case (3 p calls d)
  show ?case
  proof (cases "transmit d")
    case True
    obtain out where out: "iface_poll calls (tx_consume p d) = (d1, out)" "emitted = p # out"
      using "3.prems" True by (auto split: prod.splits)
    have tx: "dv_tx_queue (tx_consume p d) = dv_tx_queue d @ [p]" "dv_rx_queue (tx_consume p d) = dv_rx_queue d"
      by (simp_all add: tx_consume_def)
    have room: "max MAX_DEVICE_QUEUE_PACKETS (length (dv_tx_queue d @ [p])) = max MAX_DEVICE_QUEUE_PACKETS (length (dv_tx_queue d))"
      using True by (simp add: transmit_def)
    show ?thesis
      using "3.IH"(1) [OF True out(1), unfolded tx room] unfolding out(2) append.assoc append_Cons append_Nil .
  next
    case False
    then have "iface_poll calls d = (d1, emitted)" using "3.prems" by simp
    from "3.IH"(2) [OF False this] show ?thesis .
  qed
qed

lemma send_packets_split:
  "send_packets answer n ps = (sent, unsent, lost, ms) \<Longrightarrow>
     ps = sent @ unsent @ lost \<and> (unsent = [] \<or> lost = []) \<and>
     (lost \<noteq> [] \<longleftrightarrow> TxDropped \<in> set ms) \<and> (unsent \<noteq> [] \<longleftrightarrow> Backpressure \<in> set ms) \<and> length ms \<le> 1"
  by (induction answer n ps arbitrary: sent rule: send_packets.induct)
    (auto split: send_outcome.splits prod.splits)

text \<open>Property. One poll keeps the order and loses nothing but at the end of the tunnel: what was queued
  followed by what smoltcp emitted is exactly what was sent followed by what is queued again, unless
  the WireGuard channel is closed; the transmit queue stays within its limit, received packets are
  only ever taken from the front, and back pressure is reported exactly when something is left over.\<close>

theorem poll_conserves_order:
  fixes d calls answer
  defines "r \<equiv> poll calls answer d"
  assumes "length (dv_tx_queue d) \<le> 8192"
  shows "dv_tx_queue d @ po_emitted r = po_sent r @ dv_tx_queue (po_device r) @ po_lost r
    \<and> length (dv_tx_queue (po_device r)) \<le> 8192
    \<and> (\<exists>n. dv_rx_queue (po_device r) = drop n (dv_rx_queue d))
    \<and> (Backpressure \<in> set (po_metrics r) \<longleftrightarrow> dv_tx_queue (po_device r) \<noteq> [])
    \<and> (TxDropped \<in> set (po_metrics r) \<longleftrightarrow> po_lost r \<noteq> [])"
proof -
  obtain d1 emitted where p: "iface_poll calls d = (d1, emitted)" by fastforce
  obtain sent unsent lost ms where s: "send_packets answer 0 (dv_tx_queue d1) = (sent, unsent, lost, ms)"
    by (cases "send_packets answer 0 (dv_tx_queue d1)") auto
  have r: "r = \<lparr>po_device = (if unsent = [] then d1\<lparr>dv_tx_queue := []\<rparr> else prepend_tx unsent (d1\<lparr>dv_tx_queue := []\<rparr>)),
      po_emitted = emitted, po_sent = sent, po_lost = lost, po_metrics = ms\<rparr>"
    by (simp add: r_def poll_def p s drain_tx_def)
  have q: "dv_tx_queue (po_device r) = unsent" "dv_rx_queue (po_device r) = dv_rx_queue d1"
    by (simp_all add: r)
  note i = iface_poll_spec [OF p] and o = send_packets_split [OF s]
  from o have "length unsent \<le> length (dv_tx_queue d1)" by (metis length_append le_add1 le_add2 le_trans)
  also have "length (dv_tx_queue d1) \<le> max 8192 (length (dv_tx_queue d))"
    using i unfolding MAX_DEVICE_QUEUE_PACKETS_def by blast
  finally have "length unsent \<le> 8192" using assms(2) by simp
  with i o show ?thesis unfolding q by (auto simp: r)
qed

theorem poll_conserves_order_witness:
  "let r = poll [AskTransmit [1], AskTransmit [2], AskTransmit [3]]
      (\<lambda>n. if n = 0 then SendOk else SendFull) device_new
   in po_sent r = [[1]] \<and> dv_tx_queue (po_device r) = [[2], [3]] \<and> length (dv_tx_queue (po_device r)) \<le> 8192"
proof -
  let ?r = "poll [AskTransmit [1], AskTransmit [2], AskTransmit [3]] (\<lambda>n. if n = 0 then SendOk else SendFull) device_new"
  have "po_sent ?r = [[1]]" "dv_tx_queue (po_device ?r) = [[2], [3]]"
    by (simp_all add: poll_def drain_tx_def transmit_def tx_consume_def device_new_def MAX_DEVICE_QUEUE_PACKETS_def)
  with poll_conserves_order [of device_new "[AskTransmit [1], AskTransmit [2], AskTransmit [3]]"
      "\<lambda>n. if n = 0 then SendOk else SendFull"] show ?thesis
    by (simp add: device_new_def Let_def)
qed

subsection \<open>Pollers in parallel\<close>

definition pollers_inv :: "pollers \<Rightarrow> bool" where
  "pollers_inv w \<longleftrightarrow>
     pl_emitted w = pl_sent w + pl_lost w + mset (dv_tx_queue (pl_device w)) + \<Sum>\<^sub># (image_mset mset (pl_hands w)) \<and>
     length (dv_rx_queue (pl_device w)) \<le> MAX_DEVICE_QUEUE_PACKETS"

lemma push_rx_simps [simp]:
  "dv_tx_queue (snd (push_rx p d)) = dv_tx_queue d"
  "length (dv_rx_queue d) \<le> MAX_DEVICE_QUEUE_PACKETS \<Longrightarrow>
     length (dv_rx_queue (snd (push_rx p d))) \<le> MAX_DEVICE_QUEUE_PACKETS"
  by (auto simp: push_rx_def)

lemma iface_poll_books:
  assumes "iface_poll calls d = (d1, emitted)"
  shows "mset (dv_tx_queue d1) = mset (dv_tx_queue d) + mset emitted"
    "length (dv_rx_queue d1) \<le> length (dv_rx_queue d)"
proof -
  note i = iface_poll_spec [OF assms]
  from i show "mset (dv_tx_queue d1) = mset (dv_tx_queue d) + mset emitted" by simp
  from i obtain n where "dv_rx_queue d1 = drop n (dv_rx_queue d)" by blast
  then show "length (dv_rx_queue d1) \<le> length (dv_rx_queue d)" by simp
qed

lemma poll_step_inv: "poll_step w w' \<Longrightarrow> pollers_inv w \<Longrightarrow> pollers_inv w'"
proof (induction rule: poll_step.induct)
  case (locked calls w d1 emitted packets d2)
  then show ?case using iface_poll_books [OF locked(1)] by (auto simp: pollers_inv_def drain_tx_def ac_simps)
next
  case (flushed calls w d1 emitted)
  then show ?case using iface_poll_books [OF flushed(1)] by (auto simp: pollers_inv_def ac_simps)
qed (auto simp: pollers_inv_def ac_simps)

lemma pollers_run_inv: "poll_step\<^sup>*\<^sup>* pollers_new w \<Longrightarrow> pollers_inv w"
proof (induction rule: rtranclp_induct)
  case base
  show ?case by (simp add: pollers_inv_def pollers_new_def device_new_def)
qed (rule poll_step_inv)

text \<open>C14. However polls of different tasks and fragment flushes interleave, no packet is lost or duplicated on its way to the
  channel: each packet the stack emitted has been sent, or is queued, or is in the hands of a poll
  that is still sending, or was dropped because the channel is closed; when every poll has finished
  and the channel was never closed, what was emitted is what was sent plus what is queued. The
  receive queue never exceeds its limit.\<close>

theorem packets_never_lost:
  assumes "poll_step\<^sup>*\<^sup>* pollers_new w"
  shows "pl_emitted w = pl_sent w + pl_lost w + mset (dv_tx_queue (pl_device w)) + \<Sum>\<^sub># (image_mset mset (pl_hands w))
    \<and> (pl_hands w = {#} \<and> pl_lost w = {#} \<longrightarrow> pl_emitted w = pl_sent w + mset (dv_tx_queue (pl_device w)))
    \<and> length (dv_rx_queue (pl_device w)) \<le> 8192"
  using pollers_run_inv [OF assms] by (simp add: pollers_inv_def MAX_DEVICE_QUEUE_PACKETS_def)

theorem packets_never_lost_witness:
  "\<exists>w. poll_step\<^sup>*\<^sup>* pollers_new w \<and> pl_emitted w = {#[7], [8]#} \<and> pl_sent w = {#[7]#} \<and> pl_hands w = {#[[8]]#}"
proof -
  define d where "d = \<lparr>dv_rx_queue = [], dv_tx_queue = [[7], [8]]\<rparr>"
  define w1 where "w1 = pollers_new\<lparr>pl_device := device_new, pl_hands := {#[[7], [8]]#}, pl_emitted := {#[7], [8]#}\<rparr>"
  define w2 where "w2 = w1\<lparr>pl_hands := {#[[8]]#}, pl_sent := {#[7]#}\<rparr>"
  have "iface_poll [AskTransmit [7], AskTransmit [8]] device_new = (d, [[7], [8]])"
    by (simp add: transmit_def tx_consume_def device_new_def MAX_DEVICE_QUEUE_PACKETS_def d_def)
  then have "poll_step pollers_new w1"
    using poll_step.locked [of "[AskTransmit [7], AskTransmit [8]]" pollers_new d "[[7], [8]]" "[[7], [8]]" device_new]
    by (simp add: w1_def pollers_new_def drain_tx_def d_def device_new_def add_mset_commute)
  moreover have "poll_step w1 w2"
    using poll_step.sent [of w1 "[7]" "[[8]]" "{#}"] by (simp add: w1_def w2_def pollers_new_def)
  ultimately have r: "poll_step\<^sup>*\<^sup>* pollers_new w2" by simp
  from packets_never_lost [OF r] have "pl_emitted w2 = {#[7]#} + mset [] + {#[8]#}"
    by (simp add: w2_def w1_def pollers_new_def device_new_def)
  with r show ?thesis by (intro exI [of _ w2]) (simp add: w2_def w1_def)
qed

section \<open>Waiting for a socket\<close>

text \<open>The loops register with \<open>Notify\<close>, then look at the socket, then wait; a poll changes the socket and
  notifies every registered waiter in one critical section. \<open>wt_ready\<close> is the condition waited for, a
  condition only polls make true.\<close>

datatype wait_stage = Outside | Enabled | Waiting | Returned

record waiter =
  wt_stage :: wait_stage
  wt_notified :: bool
  wt_ready :: bool

definition registered :: "wait_stage \<Rightarrow> bool" where
  "registered st \<longleftrightarrow> st = Enabled \<or> st = Waiting"

inductive wait_step :: "waiter \<Rightarrow> waiter \<Rightarrow> bool" where
  enable: "wt_stage w = Outside \<Longrightarrow> wait_step w (w\<lparr>wt_stage := Enabled, wt_notified := False\<rparr>)"
| look: "wt_stage w = Enabled \<Longrightarrow> wait_step w (w\<lparr>wt_stage := (if wt_ready w then Returned else Waiting)\<rparr>)"
| woken: "wt_stage w = Waiting \<Longrightarrow> wt_notified w \<Longrightarrow> wait_step w (w\<lparr>wt_stage := Outside\<rparr>)"
| polled: "wait_step w (w\<lparr>wt_ready := ready, wt_notified := wt_notified w \<or> (ready \<and> registered (wt_stage w))\<rparr>)"
| taken: "wait_step w (w\<lparr>wt_ready := False\<rparr>)"

definition waiter_new :: waiter where
  "waiter_new = \<lparr>wt_stage = Outside, wt_notified = False, wt_ready = False\<rparr>"

lemma wait_run_inv:
  "wait_step\<^sup>*\<^sup>* waiter_new w \<Longrightarrow> wt_stage w = Waiting \<and> wt_ready w \<longrightarrow> wt_notified w"
proof (induction rule: rtranclp_induct)
  case (step v w)
  then show ?case by (auto elim!: wait_step.cases simp: registered_def split: if_splits)
qed (simp add: waiter_new_def)

text \<open>Property. No wake-up is lost: in every interleaving of the wait loop with polls, a task that waits while
  its socket is ready has been notified, so it can always go on; two steps later it looks again.\<close>

theorem no_lost_wakeup:
  assumes "wait_step\<^sup>*\<^sup>* waiter_new w" "wt_stage w = Waiting" "wt_ready w"
  shows "wt_notified w \<and> (\<exists>w1 w2 w3. wait_step w w1 \<and> wait_step w1 w2 \<and> wait_step w2 w3 \<and> wt_stage w3 = Returned)"
proof -
  have n: "wt_notified w" using wait_run_inv [OF assms(1)] assms(2,3) by blast
  define w1 where "w1 = w\<lparr>wt_stage := Outside\<rparr>"
  define w2 where "w2 = w1\<lparr>wt_stage := Enabled, wt_notified := False\<rparr>"
  define w3 where "w3 = w2\<lparr>wt_stage := Returned\<rparr>"
  have "wait_step w w1" unfolding w1_def by (rule wait_step.woken [OF assms(2) n])
  moreover have "wait_step w1 w2" unfolding w2_def by (rule wait_step.enable) (simp add: w1_def)
  moreover have "wait_step w2 w3"
    using wait_step.look [of w2] assms(3) by (simp add: w1_def w2_def w3_def)
  moreover have "wt_stage w3 = Returned" by (simp add: w3_def)
  ultimately show ?thesis using n by blast
qed

theorem no_lost_wakeup_witness:
  "\<exists>w. wait_step\<^sup>*\<^sup>* waiter_new w \<and> wt_stage w = Waiting \<and> wt_ready w \<and> wt_notified w"
proof -
  define a where "a = waiter_new\<lparr>wt_stage := Enabled, wt_notified := False\<rparr>"
  define b where "b = a\<lparr>wt_stage := Waiting\<rparr>"
  define c where "c = b\<lparr>wt_ready := True, wt_notified := True\<rparr>"
  have s1: "wait_step waiter_new a" unfolding a_def by (rule wait_step.enable) (simp add: waiter_new_def)
  have s2: "wait_step a b" using wait_step.look [of a] by (simp add: a_def b_def waiter_new_def)
  have s3: "wait_step b c"
    using wait_step.polled [of b True] by (simp add: a_def b_def c_def registered_def)
  note r = converse_rtranclp_into_rtranclp [OF s1 converse_rtranclp_into_rtranclp [OF s2 r_into_rtranclp [of wait_step, OF s3]]]
  have "wt_stage c = Waiting" "wt_ready c" by (simp_all add: c_def b_def)
  with no_lost_wakeup [OF r this] r show ?thesis by blast
qed

section \<open>TCP reads and writes\<close>

text \<open>What one look at a socket finds: whether it can send, what \<open>send_slice\<close> would take (never more
  than it is given), whether it may ever send again; and the same for receiving.\<close>

record send_look =
  sl_can_send :: bool
  sl_room :: "(nat, string) result"
  sl_may_send :: bool

record recv_look =
  rl_can_recv :: bool
  rl_data :: "(bytes, string) result"
  rl_may_recv :: bool

fun map_fault :: "(string \<Rightarrow> ns_error) \<Rightarrow> ('a, string) result \<Rightarrow> 'a ns_res" where
  "map_fault f (Ok x) = Ok x"
| "map_fault f (Err e) = Err (f e)"
| "map_fault f Panic = Panic"

definition send_with_state :: "send_look \<Rightarrow> bytes \<Rightarrow> (nat \<times> bool) ns_res" where
  "send_with_state look data =
     and_then (if sl_can_send look then map_fault TcpSend (map_res (\<lambda>room. min room (length data)) (sl_room look)) else Ok 0)
       (\<lambda>n. Ok (n, sl_may_send look))"

definition recv_with_state :: "recv_look \<Rightarrow> nat \<Rightarrow> (bytes \<times> bool) ns_res" where
  "recv_with_state look buf_len =
     and_then (if rl_can_recv look then map_fault TcpRecv (map_res (take buf_len) (rl_data look)) else Ok [])
       (\<lambda>data. Ok (data, rl_may_recv look))"

text \<open>\<open>TcpConnection::write\<close> with the chunks it hands to the socket; a look that finds no room but a
  live connection waits for the next. \<open>None\<close> is a write still waiting.\<close>

fun write_loop :: "bytes \<Rightarrow> nat \<Rightarrow> send_look list \<Rightarrow> nat ns_res option \<times> bytes list" where
  "write_loop data written [] =
     (if length data \<le> written then (Some (Ok written), []) else (None, []))"
| "write_loop data written (look # looks) =
     (if length data \<le> written then (Some (Ok written), [])
      else case send_with_state look (drop written data) of
          Ok (n, may_send) \<Rightarrow>
            if 0 < n then
              (let (r, chunks) = write_loop data (written + n) looks in (r, take n (drop written data) # chunks))
            else if \<not> may_send then (Some (Err ConnectionClosed), [])
            else write_loop data written looks
        | Err e \<Rightarrow> (Some (Err e), [])
        | Panic \<Rightarrow> (Some Panic, []))"

definition write_all :: "bytes \<Rightarrow> send_look list \<Rightarrow> unit ns_res option" where
  "write_all data looks =
     map_option (\<lambda>r. and_then r (\<lambda>n. if n \<noteq> length data then Err (ShortWrite n (length data)) else Ok ()))
       (fst (write_loop data 0 looks))"

fun read_loop :: "nat \<Rightarrow> recv_look list \<Rightarrow> bytes ns_res option" where
  "read_loop buf_len [] = None"
| "read_loop buf_len (look # looks) =
     (case recv_with_state look buf_len of
        Ok (data, may_recv) \<Rightarrow>
          if data \<noteq> [] then Some (Ok data) else if \<not> may_recv then Some (Ok []) else read_loop buf_len looks
      | Err e \<Rightarrow> Some (Err e)
      | Panic \<Rightarrow> Some Panic)"

lemma send_with_state_le: "send_with_state look data = Ok (n, may) \<Longrightarrow> n \<le> length data"
  by (cases "sl_room look") (auto simp: send_with_state_def split: if_splits)

lemma write_loop_spec:
  "write_loop data written looks = (r, chunks) \<Longrightarrow> written \<le> length data \<Longrightarrow>
     concat chunks = take (length (concat chunks)) (drop written data) \<and>
     written + length (concat chunks) \<le> length data \<and> [] \<notin> set chunks \<and>
     (\<forall>n. r = Some (Ok n) \<longrightarrow> n = length data \<and> concat chunks = drop written data)"
proof (induction data written looks arbitrary: r chunks rule: write_loop.induct)
  case (2 data written look looks)
  show ?case
  proof (cases "length data \<le> written")
    case False
    show ?thesis
    proof (cases "send_with_state look (drop written data)")
      case (Ok x)
      obtain n may where x: "x = (n, may)" by fastforce
      note n = send_with_state_le [OF Ok [unfolded x]]
      show ?thesis
      proof (cases "0 < n")
        case True
        obtain cs where cs: "write_loop data (written + n) looks = (r, cs)" "chunks = take n (drop written data) # cs"
          using "2.prems" False Ok x True by (auto split: prod.splits)
        have "written + n \<le> length data" using n False by simp
        from "2.IH"(1) [OF False Ok x [symmetric] True cs(1) this]
        moreover have "take (n + k) (drop written data) = take n (drop written data) @ take k (drop (written + n) data)" for k
          using take_add [of n k "drop written data"] by (simp only: drop_drop add.commute [of n written])
        moreover have "length (take n (drop written data)) = n" "drop written data = take n (drop written data) @ drop (written + n) data"
          using n by (simp_all add: add.commute flip: drop_drop)
        moreover have "take n (drop written data) \<noteq> []" using n True by auto
        ultimately show ?thesis using True unfolding cs(2) by (auto simp del: take_eq_Nil drop_eq_Nil)
      next
        case n0: False
        then show ?thesis using "2.IH"(2) [OF False Ok x [symmetric] n0, of r chunks] "2.prems" False Ok x
          by (cases may) auto
      qed
    qed (use "2.prems" False in auto)
  qed (use "2.prems" in auto)
qed (auto split: if_splits)

lemma send_with_state_Err: "send_with_state look data = Err e \<Longrightarrow> \<exists>m. e = TcpSend m"
  by (cases "sl_room look") (auto simp: send_with_state_def split: if_splits)

lemma write_loop_Err:
  "fst (write_loop data written looks) = Some (Err e) \<Longrightarrow> e = ConnectionClosed \<or> (\<exists>m. e = TcpSend m)"
  by (induction data written looks rule: write_loop.induct)
    (auto split: if_splits result.splits prod.splits dest: send_with_state_Err)

text \<open>What a look gives a reader.\<close>

definition nothing_yet :: "nat \<Rightarrow> recv_look \<Rightarrow> bool" where
  "nothing_yet buf_len look \<longleftrightarrow> recv_with_state look buf_len = Ok ([], True)"

lemma read_loop_waits:
  "list_all (nothing_yet buf_len) looks \<Longrightarrow> read_loop buf_len (looks @ later) = read_loop buf_len later"
  by (induction looks) (auto simp: nothing_yet_def)

lemma read_loop_first:
  assumes "read_loop buf_len looks = Some r"
  obtains before look after where "looks = before @ look # after" "list_all (nothing_yet buf_len) before"
    "r = map_res fst (recv_with_state look buf_len)" "\<not> nothing_yet buf_len look"
proof -
  have "\<exists>before look after. looks = before @ look # after \<and> list_all (nothing_yet buf_len) before \<and>
      r = map_res fst (recv_with_state look buf_len) \<and> \<not> nothing_yet buf_len look"
    using assms
  proof (induction buf_len looks rule: read_loop.induct)
    case (2 buf_len look looks)
    show ?case
    proof (cases "nothing_yet buf_len look")
      case True
      then have "read_loop buf_len looks = Some r" "recv_with_state look buf_len = Ok ([], True)"
        using "2.prems" by (auto simp: nothing_yet_def)
      with 2 obtain before l after where "looks = before @ l # after" "list_all (nothing_yet buf_len) before"
        "r = map_res fst (recv_with_state l buf_len)" "\<not> nothing_yet buf_len l" by fastforce
      with True show ?thesis by (intro exI [of _ "look # before"]) auto
    next
      case False
      then have "r = map_res fst (recv_with_state look buf_len)"
        using "2.prems" by (auto simp: nothing_yet_def split: result.splits if_splits prod.splits)
      with False show ?thesis by (intro exI [of _ "[]"]) auto
    qed
  qed simp
  then show thesis using that by blast
qed

lemma recv_with_state_length: "recv_with_state look buf_len = Ok (data, may) \<Longrightarrow> length data \<le> buf_len"
  by (cases "rl_data look") (auto simp: recv_with_state_def split: if_splits)

text \<open>C37. A tunnelled TCP stream keeps its bytes in order. Whatever room the socket offers, the chunks a
  write hands over are non-empty and form a prefix of its data; it reports success only with all of
  it accepted, so \<open>write_all\<close> never sees a short write. A read returns what the first look with
  anything to say found, never more than the buffer, and an empty result only at the end of the
  stream (or into an empty buffer).\<close>

theorem tcp_stream_in_order:
  fixes data looks
  defines "chunks \<equiv> snd (write_loop data 0 looks)" and "r \<equiv> fst (write_loop data 0 looks)"
  shows "concat chunks = take (length (concat chunks)) data \<and> [] \<notin> set chunks
    \<and> (case r of Some (Ok n) \<Rightarrow> n = length data \<and> concat chunks = data | _ \<Rightarrow> True)
    \<and> (case write_all data looks of Some (Err (ShortWrite a b)) \<Rightarrow> False | _ \<Rightarrow> True)
    \<and> (case read_loop buf_len rlooks of
         Some (Ok got) \<Rightarrow> length got \<le> buf_len \<and>
           (\<exists>before look after may. rlooks = before @ look # after \<and> list_all (nothing_yet buf_len) before \<and>
              recv_with_state look buf_len = Ok (got, may) \<and> (got \<noteq> [] \<or> \<not> may))
       | _ \<Rightarrow> True)"
proof (intro conjI)
  have w: "write_loop data 0 looks = (r, chunks)" by (simp add: r_def chunks_def)
  note spec = write_loop_spec [OF w]
  show "concat chunks = take (length (concat chunks)) data" "[] \<notin> set chunks"
    using spec by simp_all
  show "case r of Some (Ok n) \<Rightarrow> n = length data \<and> concat chunks = data | _ \<Rightarrow> True"
    using spec by (auto split: option.split result.split)
  show "case write_all data looks of Some (Err (ShortWrite a b)) \<Rightarrow> False | _ \<Rightarrow> True"
  proof (cases r)
    case (Some x)
    then show ?thesis
      using spec write_loop_Err [of data 0 looks] w by (cases x) (auto simp: write_all_def)
  qed (simp add: write_all_def w)
  show "case read_loop buf_len rlooks of
      Some (Ok got) \<Rightarrow> length got \<le> buf_len \<and>
        (\<exists>before look after may. rlooks = before @ look # after \<and> list_all (nothing_yet buf_len) before \<and>
           recv_with_state look buf_len = Ok (got, may) \<and> (got \<noteq> [] \<or> \<not> may))
    | _ \<Rightarrow> True"
  proof (cases "read_loop buf_len rlooks")
    case (Some x)
    show ?thesis
    proof (cases x)
      case (Ok got)
      obtain before look after where l: "rlooks = before @ look # after" "list_all (nothing_yet buf_len) before"
        "x = map_res fst (recv_with_state look buf_len)" "\<not> nothing_yet buf_len look"
        using Some by (rule read_loop_first)
      from l(3) Ok obtain may where m: "recv_with_state look buf_len = Ok (got, may)"
        by (cases "recv_with_state look buf_len") auto
      moreover have "got \<noteq> [] \<or> \<not> may" using l(4) m by (auto simp: nothing_yet_def)
      ultimately show ?thesis using Some Ok l(1,2) recv_with_state_length [OF m] by auto
    qed (use Some in simp_all)
  qed simp
qed

theorem tcp_stream_in_order_witness:
  "let looks = [\<lparr>sl_can_send = True, sl_room = Ok 2, sl_may_send = True\<rparr>,
                \<lparr>sl_can_send = False, sl_room = Ok 0, sl_may_send = True\<rparr>,
                \<lparr>sl_can_send = True, sl_room = Ok 9, sl_may_send = True\<rparr>]
   in write_loop [1, 2, 3] 0 looks = (Some (Ok 3), [[1, 2], [3]]) \<and>
      concat (snd (write_loop [1, 2, 3] 0 looks)) = [1, 2, 3]"
proof -
  let ?looks = "[\<lparr>sl_can_send = True, sl_room = Ok 2, sl_may_send = True\<rparr>,
      \<lparr>sl_can_send = False, sl_room = Ok 0, sl_may_send = True\<rparr>,
      \<lparr>sl_can_send = True, sl_room = Ok 9, sl_may_send = True\<rparr>]"
  have "write_loop [1, 2, 3] 0 ?looks = (Some (Ok 3), [[1, 2], [3]])"
    by (simp add: send_with_state_def numeral_2_eq_2 numeral_3_eq_3)
  with tcp_stream_in_order [of "[1, 2, 3]" ?looks] show ?thesis by (simp add: Let_def)
qed

section \<open>UDP datagrams\<close>

definition IPV4_HEADER_BYTES :: nat where "IPV4_HEADER_BYTES = 20"
definition IPV6_HEADER_BYTES :: nat where "IPV6_HEADER_BYTES = 40"
definition UDP_HEADER_BYTES :: nat where "UDP_HEADER_BYTES = 8"
definition FRAGMENTATION_BUFFER_SIZE :: nat where "FRAGMENTATION_BUFFER_SIZE = 8192"
definition MAX_FRAGMENT_FLUSH_ROUNDS :: nat where "MAX_FRAGMENT_FLUSH_ROUNDS = 32"
definition UDP_SEND_WAIT_TIMEOUT :: duration where "UDP_SEND_WAIT_TIMEOUT = from_millis 200"

definition max_payload_for :: "u16 \<Rightarrow> sockaddr \<Rightarrow> nat" where
  "max_payload_for mtu dest =
     (if sa_is_ipv4 dest then FRAGMENTATION_BUFFER_SIZE - (IPV4_HEADER_BYTES + UDP_HEADER_BYTES)
      else unat mtu - (IPV6_HEADER_BYTES + UDP_HEADER_BYTES))"

definition needs_fragmentation :: "u16 \<Rightarrow> nat \<Rightarrow> sockaddr \<Rightarrow> bool" where
  "needs_fragmentation mtu len dest \<longleftrightarrow>
     sa_is_ipv4 dest \<and> unat mtu < len + IPV4_HEADER_BYTES + UDP_HEADER_BYTES"

text \<open>\<open>flush_pending_fragments\<close> with the rounds left; each round sees whether a last fragment is among the
  packets queued since the start, and whether smoltcp wants to be polled at once.\<close>

fun flush_rounds :: "nat \<Rightarrow> nat \<Rightarrow> (nat \<Rightarrow> bool \<times> bool) \<Rightarrow> unit ns_res" where
  "flush_rounds 0 n seen = Err (UdpFragmentFlush MAX_FRAGMENT_FLUSH_ROUNDS)"
| "flush_rounds (Suc k) n seen =
     (case seen n of (last_seen, poll_again) \<Rightarrow>
        if last_seen then Ok () else if \<not> poll_again then Ok () else flush_rounds k (Suc n) seen)"

definition flush_pending_fragments :: "(nat \<Rightarrow> bool \<times> bool) \<Rightarrow> unit ns_res" where
  "flush_pending_fragments seen = flush_rounds MAX_FRAGMENT_FLUSH_ROUNDS 0 seen"

datatype udp_answer = Queued | BufferFull | Unaddressable string

definition udp_send_to :: "u16 \<Rightarrow> nat \<Rightarrow> sockaddr \<Rightarrow> udp_answer \<Rightarrow> (nat \<Rightarrow> bool \<times> bool) \<Rightarrow> unit ns_res" where
  "udp_send_to mtu len dest answer seen =
     (case answer of
        BufferFull \<Rightarrow> Err UdpSendBufferFull
      | Unaddressable text \<Rightarrow> Err (UdpSend (''unaddressable destination '' @ text))
      | Queued \<Rightarrow>
          if needs_fragmentation mtu len dest then flush_pending_fragments seen else Ok ())"

datatype udp_metric = UdpBufferFull | UdpRecovered | UdpDropped string

text \<open>One round of \<open>send_to\<close>: the answer of the socket (with what its flush sees) and the clock read
  after it. A round follows when the socket notified or the deadline fired.\<close>

type_synonym send_round = "udp_answer \<times> (nat \<Rightarrow> bool \<times> bool) \<times> instant"

fun send_rounds :: "u16 \<Rightarrow> nat \<Rightarrow> sockaddr \<Rightarrow> instant \<Rightarrow> bool \<Rightarrow> send_round list \<Rightarrow> unit ns_res option \<times> udp_metric list" where
  "send_rounds mtu len dest deadline was_full [] = (None, [])"
| "send_rounds mtu len dest deadline was_full ((answer, flush, now) # rounds) =
     (case udp_send_to mtu len dest answer flush of
        Ok u \<Rightarrow> (Some (Ok ()), if was_full then [UdpRecovered] else [])
      | Panic \<Rightarrow> (Some Panic, [])
      | Err e \<Rightarrow>
          if e = UdpSendBufferFull then
            (let full = (if was_full then [] else [UdpBufferFull]) in
             if deadline \<le> now then (Some (Err (UdpSendTimeout UDP_SEND_WAIT_TIMEOUT)), full @ [UdpDropped ''buffer_timeout''])
             else (let (r, ms) = send_rounds mtu len dest deadline True rounds in (r, full @ ms)))
          else (Some (Err e),
                [UdpDropped (if (case e of UdpFragmentFlush n \<Rightarrow> True | _ \<Rightarrow> False) then ''fragment_flush'' else ''send_error'')]))"

definition send_to :: "u16 \<Rightarrow> nat \<Rightarrow> sockaddr \<Rightarrow> instant \<Rightarrow> send_round list \<Rightarrow> unit ns_res option \<times> udp_metric list" where
  "send_to mtu len dest start rounds =
     (if max_payload_for mtu dest < len
      then (Some (Err (UdpPacketTooLarge (if sa_is_ipv4 dest then ''ipv4'' else ''ipv6'') len (max_payload_for mtu dest))),
            [UdpDropped ''packet_too_large''])
      else send_rounds mtu len dest (start + UDP_SEND_WAIT_TIMEOUT) False rounds)"

text \<open>\<open>recv_from\<close>: the socket is tried once more after the deadline fired.\<close>

fun recv_rounds :: "instant \<Rightarrow> ((bytes \<times> sockaddr) option ns_res \<times> instant) list \<Rightarrow> (bytes \<times> sockaddr) ns_res option" where
  "recv_rounds deadline [] = None"
| "recv_rounds deadline ((got, now) # rounds) =
     (case got of
        Ok (Some datagram) \<Rightarrow> Some (Ok datagram)
      | Ok None \<Rightarrow> if deadline \<le> now then Some (Err ReadTimeout) else recv_rounds deadline rounds
      | Err e \<Rightarrow> Some (Err e)
      | Panic \<Rightarrow> Some Panic)"

definition recv_from :: "instant \<Rightarrow> duration \<Rightarrow> ((bytes \<times> sockaddr) option ns_res \<times> instant) list \<Rightarrow> (bytes \<times> sockaddr) ns_res option" where
  "recv_from start timeout rounds = recv_rounds (start + timeout) rounds"

fun is_dropped :: "udp_metric \<Rightarrow> bool" where
  "is_dropped (UdpDropped reason) = True"
| "is_dropped _ = False"

lemma flush_rounds_cases: "flush_rounds k n seen = Ok () \<or> flush_rounds k n seen = Err (UdpFragmentFlush 32)"
  by (induction k n seen rule: flush_rounds.induct)
    (auto simp: MAX_FRAGMENT_FLUSH_ROUNDS_def split: prod.split)

lemma udp_send_to_cases:
  "udp_send_to mtu len dest answer seen \<in>
     {Ok (), Err UdpSendBufferFull, Err (UdpFragmentFlush 32)} \<union> range (\<lambda>t. Err (UdpSend t))"
  using flush_rounds_cases [of MAX_FRAGMENT_FLUSH_ROUNDS 0 seen]
  by (auto simp: udp_send_to_def flush_pending_fragments_def split: udp_answer.split)

text \<open>The books of a datagram: \<open>full\<close> says that the full buffer has been counted before.\<close>

definition books_ok :: "bool \<Rightarrow> unit ns_res option \<Rightarrow> udp_metric list \<Rightarrow> bool" where
  "books_ok full r ms \<longleftrightarrow>
     (if full then UdpBufferFull \<notin> set ms else length (filter ((=) UdpBufferFull) ms) \<le> 1) \<and>
     (case r of
        Some (Ok u) \<Rightarrow> filter is_dropped ms = [] \<and>
          (UdpRecovered \<in> set ms \<longleftrightarrow> full \<or> UdpBufferFull \<in> set ms)
      | Some (Err e) \<Rightarrow> length (filter is_dropped ms) = 1 \<and> UdpRecovered \<notin> set ms
      | Some Panic \<Rightarrow> False
      | None \<Rightarrow> filter is_dropped ms = [] \<and> UdpRecovered \<notin> set ms)"

lemma send_rounds_books:
  "send_rounds mtu len dest deadline full rounds = (r, ms) \<Longrightarrow> books_ok full r ms"
proof (induction rounds arbitrary: full r ms)
  case Nil
  then show ?case by (auto simp: books_ok_def)
next
  case (Cons round rounds)
  obtain answer seen now where round: "round = (answer, seen, now)" by (cases round) auto
  have "udp_send_to mtu len dest answer seen \<in>
     {Ok (), Err UdpSendBufferFull, Err (UdpFragmentFlush 32)} \<union> range (\<lambda>t. Err (UdpSend t))"
    by (rule udp_send_to_cases)
  then consider (ok) "udp_send_to mtu len dest answer seen = Ok ()"
    | (full) "udp_send_to mtu len dest answer seen = Err UdpSendBufferFull"
    | (err) e where "udp_send_to mtu len dest answer seen = Err e" "e \<noteq> UdpSendBufferFull" by auto
  then show ?case
  proof cases
    case ok
    with Cons.prems round show ?thesis by (auto simp: books_ok_def)
  next
    case err
    with Cons.prems round show ?thesis by (auto simp: books_ok_def split: ns_error.splits)
  next
    case full': full
    show ?thesis
    proof (cases "deadline \<le> now")
      case True
      with Cons.prems round full' show ?thesis by (auto simp: books_ok_def)
    next
      case False
      obtain r' ms' where rest: "send_rounds mtu len dest deadline True rounds = (r', ms')" by fastforce
      note ih = Cons.IH [OF rest]
      from Cons.prems round full' False rest
      have "r = r'" "ms = (if full then [] else [UdpBufferFull]) @ ms'" by auto
      with ih show ?thesis
        by (auto simp: books_ok_def filter_empty_conv split: option.splits result.splits)
    qed
  qed
qed

lemma send_rounds_ends:
  "(answer, seen, now) \<in> set rounds \<Longrightarrow> deadline \<le> now \<Longrightarrow>
     fst (send_rounds mtu len dest deadline full rounds) \<noteq> None"
  by (induction rounds arbitrary: full) (auto split: result.splits prod.splits, metis fst_conv)

text \<open>Property. The books of a UDP datagram: a full buffer is counted at most once, a datagram that was sent
  counts as recovered exactly if its buffer had been full, one that was not counts as dropped exactly
  once with the reason; nothing that would not fit into the fragment buffer (IPv4) or into one packet
  (IPv6) reaches smoltcp; and once the clock has passed 200 ms the call has an answer.\<close>

theorem udp_send_accounted:
  fixes mtu len dest start rounds
  defines "r \<equiv> fst (send_to mtu len dest start rounds)" and "ms \<equiv> snd (send_to mtu len dest start rounds)"
  shows "books_ok False r ms
    \<and> (r = Some (Ok ()) \<longrightarrow> len \<le> (if sa_is_ipv4 dest then 8164 else unat mtu - 48))
    \<and> ((\<exists>(answer, seen, now) \<in> set rounds. start + from_millis 200 \<le> now) \<longrightarrow> r \<noteq> None)"
proof (cases "max_payload_for mtu dest < len")
  case True
  then show ?thesis by (simp add: r_def ms_def send_to_def books_ok_def)
next
  case False
  have s: "send_to mtu len dest start rounds = send_rounds mtu len dest (start + from_millis 200) False rounds"
    using False by (simp add: send_to_def UDP_SEND_WAIT_TIMEOUT_def)
  have "len \<le> (if sa_is_ipv4 dest then 8164 else unat mtu - 48)"
    using False by (simp add: max_payload_for_def FRAGMENTATION_BUFFER_SIZE_def IPV4_HEADER_BYTES_def
        IPV6_HEADER_BYTES_def UDP_HEADER_BYTES_def split: if_splits)
  moreover have "books_ok False r ms"
    using send_rounds_books [of mtu len dest "start + from_millis 200" False rounds r ms]
    by (simp add: r_def ms_def s)
  moreover have "r \<noteq> None" if "\<exists>(answer, seen, now) \<in> set rounds. start + from_millis 200 \<le> now"
    using that send_rounds_ends unfolding r_def s by blast
  ultimately show ?thesis by blast
qed

theorem udp_send_accounted_witness:
  "send_to 1280 100 (SA4 (Ipv4Addr 1 1 1 1) 53) 0 [(BufferFull, \<lambda>n. (False, False), 5), (Queued, \<lambda>n. (False, False), 9)] =
     (Some (Ok ()), [UdpBufferFull, UdpRecovered])
   \<and> books_ok False (Some (Ok ())) [UdpBufferFull, UdpRecovered]"
proof -
  let ?rounds = "[(BufferFull, \<lambda>n. (False, False), 5), (Queued, \<lambda>n. (False, False), 9)] :: send_round list"
  have s: "send_to 1280 100 (SA4 (Ipv4Addr 1 1 1 1) 53) 0 ?rounds = (Some (Ok ()), [UdpBufferFull, UdpRecovered])"
    by (simp add: send_to_def max_payload_for_def udp_send_to_def needs_fragmentation_def
        FRAGMENTATION_BUFFER_SIZE_def IPV4_HEADER_BYTES_def UDP_HEADER_BYTES_def UDP_SEND_WAIT_TIMEOUT_def from_millis_def)
  with udp_send_accounted [of 1280 100 "SA4 (Ipv4Addr 1 1 1 1) 53" 0 ?rounds] show ?thesis by simp
qed

text \<open>IPv4 fragmentation: all but the last fragment carry a multiple of eight bytes.\<close>

definition fragments :: "u16 \<Rightarrow> nat \<Rightarrow> nat" where
  "fragments mtu len =
     (let room = (unat mtu - IPV4_HEADER_BYTES) div 8 * 8 in (len + UDP_HEADER_BYTES + room - 1) div room)"

lemma fragments_le:
  assumes "576 \<le> unat mtu" "len \<le> 8164"
  shows "fragments mtu len \<le> 15"
proof -
  define room where "room = (unat mtu - 20) div 8 * 8"
  have "69 \<le> (unat mtu - 20) div 8" using assms(1) by (simp add: less_eq_div_iff_mult_less_eq)
  then have r: "552 \<le> room" by (simp add: room_def)
  have "len + 8 + room - 1 < 16 * room" using assms(2) r by linarith
  then have "(len + 8 + room - 1) div room < 16" using r by (simp add: div_less_iff_less_mult)
  then show ?thesis by (simp add: fragments_def room_def Let_def IPV4_HEADER_BYTES_def UDP_HEADER_BYTES_def)
qed

lemma flush_rounds_Ok:
  "fst (seen (n + j)) \<Longrightarrow> j < k \<Longrightarrow> flush_rounds k n seen = Ok ()"
proof (induction k n seen arbitrary: j rule: flush_rounds.induct)
  case (2 k n seen)
  then show ?case by (cases j) (auto split: prod.split)
qed simp

text \<open>Property. The bound on the flush is enough: with any MTU the configuration accepts, the largest IPv4
  datagram has at most 15 fragments, so if every poll of the device emits at least one more fragment
  the last one appears well within the 32 rounds and the send reports success.\<close>

theorem fragments_flush_in_time:
  assumes "576 \<le> unat mtu" "len \<le> max_payload_for mtu dest" "sa_is_ipv4 dest"
    and "\<And>n. fragments mtu len \<le> Suc n \<Longrightarrow> fst (seen n)"
  shows "fragments mtu len \<le> 15 \<and> udp_send_to mtu len dest Queued seen = Ok ()"
proof -
  have f: "fragments mtu len \<le> 15"
    using assms(1-3) by (intro fragments_le) (simp_all add: max_payload_for_def FRAGMENTATION_BUFFER_SIZE_def
        IPV4_HEADER_BYTES_def UDP_HEADER_BYTES_def)
  then have "fst (seen (0 + 14))" using assms(4) [of 14] by simp
  then have "flush_pending_fragments seen = Ok ()"
    unfolding flush_pending_fragments_def by (rule flush_rounds_Ok) (simp add: MAX_FRAGMENT_FLUSH_ROUNDS_def)
  with f show ?thesis by (simp add: udp_send_to_def)
qed

theorem fragments_flush_in_time_witness:
  "udp_send_to 1280 8164 (SA4 (Ipv4Addr 1 1 1 1) 53) Queued (\<lambda>n. (6 \<le> n, True)) = Ok () \<and> fragments 1280 8164 = 7"
proof -
  have "fragments 1280 8164 = 7"
    by (simp add: fragments_def IPV4_HEADER_BYTES_def UDP_HEADER_BYTES_def)
  with fragments_flush_in_time [of 1280 8164 "SA4 (Ipv4Addr 1 1 1 1) 53" "\<lambda>n. (6 \<le> n, True)"]
  show ?thesis by (simp add: max_payload_for_def FRAGMENTATION_BUFFER_SIZE_def IPV4_HEADER_BYTES_def UDP_HEADER_BYTES_def)
qed

text \<open>Property. The poll loop never sleeps longer than a second, wakes within a millisecond while packets wait
  for the channel, and does not sleep at all when smoltcp is due; otherwise it never sleeps past
  smoltcp's next deadline.\<close>

theorem poll_sleep_bounded:
  "poll_sleep d now at \<le> from_secs 1
   \<and> (has_pending_tx d \<longrightarrow> poll_sleep d now at = from_millis 1)
   \<and> (\<not> has_pending_tx d \<and> at = Some t \<longrightarrow> now + poll_sleep d now at \<le> max now t)"
proof -
  have "from_millis (min m 1000) \<le> from_secs 1" for m
    by (simp add: from_millis_def from_secs_def)
  moreover have "from_millis (min (as_millis x) 1000) \<le> x" for x
  proof -
    have "from_millis (min (as_millis x) 1000) \<le> from_millis (as_millis x)" by (simp add: from_millis_def)
    also have "\<dots> \<le> x" by (simp add: from_millis_def as_millis_def)
    finally show ?thesis .
  qed
  moreover have "from_millis 1 \<le> from_secs 1" by (simp add: from_millis_def from_secs_def)
  moreover have "now + x \<le> t" if "x \<le> t - now" "now < t" for x using that by simp
  ultimately show ?thesis
    by (cases "has_pending_tx d"; cases at) (simp_all add: poll_sleep_def)
qed

theorem poll_sleep_bounded_witness:
  "poll_sleep device_new 0 (Some 3000000) = from_millis 3 \<and> poll_sleep device_new 0 None = from_secs 1
   \<and> 0 + poll_sleep device_new 0 (Some 3000000) \<le> max 0 3000000"
  using poll_sleep_bounded [of device_new 0 "Some 3000000" 3000000]
  by (simp add: poll_sleep_def has_pending_tx_def device_new_def as_millis_def)

end
