(* ===== verification/Wg_Tunnel.thy ===== *)
theory Wg_Tunnel
  imports Net_Types Endpoints Account "HOL-Library.Sublist"
begin

text \<open>
  The WireGuard transport, \<open>vendor/wireguard-netstack/src/wireguard.rs\<close> and \<open>tunnel.rs\<close>: creating the
  tunnel, its receive, send and timer steps, the wait for the handshake, and \<open>ManagedTunnel\<close> with its
  background tasks, and the endpoint race of \<open>src/tunnel.rs\<close> with such tunnels as its attempts. The Noise
  protocol of gotatun is the record \<open>noise\<close> over an abstract state \<open>'t\<close>.
\<close>

section \<open>Model\<close>

definition DEFAULT_MTU :: nat where "DEFAULT_MTU = 1280"
definition DEFAULT_TCP_BUFFER_SIZE :: nat where "DEFAULT_TCP_BUFFER_SIZE = 256 * 1024"

datatype tunn_result = Done | TunnError | WriteToNetwork bytes | WriteToTunnel bytes

text \<open>What the tunnel uses of \<open>gotatun::Tunn\<close>.\<close>

record 't noise =
  nz_is_wg :: "bytes \<Rightarrow> bool"
  nz_incoming :: "bytes \<Rightarrow> 't \<Rightarrow> tunn_result \<times> 't"
  nz_queued :: "'t \<Rightarrow> bytes list \<times> 't"
  nz_outgoing :: "bytes \<Rightarrow> 't \<Rightarrow> bytes option \<times> 't"
  nz_initiation :: "'t \<Rightarrow> bytes option \<times> 't"
  nz_timers :: "'t \<Rightarrow> bytes option \<times> 't"
  nz_since_handshake :: "'t \<Rightarrow> duration option"

datatype bind_address = AnyV4 | AnyV6

record wg_tunnel =
  wt_bind :: bind_address
  wt_peer_endpoint :: sockaddr
  wt_tunnel_ip :: ipv4
  wt_tunnel_ipv6 :: "ipv6 option"
  wt_mtu :: u16
  wt_tcp_buffer_size :: nat

text \<open>\<open>bound\<close> is the outcome of \<open>bind\<close> and \<open>local_addr\<close> for the address given.\<close>

definition wg_tunnel_new :: "(bind_address \<Rightarrow> io_error option) \<Rightarrow> wireguard_config \<Rightarrow> wg_tunnel ns_res" where
  "wg_tunnel_new bound cfg =
     (let bind_addr = (if sa_is_ipv4 (wg_peer_endpoint cfg) then AnyV4 else AnyV6) in
      case bound bind_addr of
        Some e \<Rightarrow> Err (NsIo e)
      | None \<Rightarrow>
          Ok \<lparr>wt_bind = bind_addr, wt_peer_endpoint = wg_peer_endpoint cfg, wt_tunnel_ip = wg_tunnel_ip cfg,
              wt_tunnel_ipv6 = wg_tunnel_ipv6 cfg,
              wt_mtu = (case wg_mtu cfg of Some m \<Rightarrow> m | None \<Rightarrow> word_of_nat DEFAULT_MTU),
              wt_tcp_buffer_size =
                (case wg_tcp_buffer_size cfg of Some b \<Rightarrow> b | None \<Rightarrow> DEFAULT_TCP_BUFFER_SIZE)\<rparr>)"

text \<open>\<open>process_incoming_udp\<close>: the decrypted packet for the stack and the packets to answer with.\<close>

definition process_incoming_udp :: "'t noise \<Rightarrow> bytes \<Rightarrow> 't \<Rightarrow> (bytes option \<times> bytes list) \<times> 't" where
  "process_incoming_udp nz data t =
     (if \<not> nz_is_wg nz data then ((None, []), t)
      else case nz_incoming nz data t of
          (Done, t1) \<Rightarrow> ((None, []), t1)
        | (TunnError, t1) \<Rightarrow> ((None, []), t1)
        | (WriteToNetwork response, t1) \<Rightarrow>
            (case nz_queued nz t1 of (queued, t2) \<Rightarrow> ((None, response # queued), t2))
        | (WriteToTunnel decrypted, t1) \<Rightarrow>
            (if decrypted = [] then ((None, []), t1) else ((Some decrypted, []), t1)))"

text \<open>What \<open>recv_from\<close> gave, and whether the incoming channel still has its receiver then. \<open>rv_sent\<close> are the
  answers handed to \<open>send_to\<close>: its failure is only logged.\<close>

datatype udp_event = Datagram bytes sockaddr bool | RecvError

record 't receive_state =
  rv_tunn :: 't
  rv_sent :: "(bytes \<times> sockaddr) list"
  rv_delivered :: "bytes list"
  rv_ended :: bool

definition receive_one :: "'t noise \<Rightarrow> sockaddr \<Rightarrow> udp_event \<Rightarrow> 't receive_state \<Rightarrow> 't receive_state" where
  "receive_one nz peer ev s =
     (case ev of
        RecvError \<Rightarrow> s\<lparr>rv_ended := True\<rparr>
      | Datagram data src channel_open \<Rightarrow>
          if src \<noteq> peer then s
          else (case process_incoming_udp nz data (rv_tunn s) of ((inbound, outbound), t) \<Rightarrow>
            let s1 = s\<lparr>rv_tunn := t, rv_sent := rv_sent s @ map (\<lambda>p. (p, peer)) outbound\<rparr> in
            case inbound of
              None \<Rightarrow> s1
            | Some ip_packet \<Rightarrow>
                if channel_open then s1\<lparr>rv_delivered := rv_delivered s1 @ [ip_packet]\<rparr>
                else s1\<lparr>rv_ended := True\<rparr>))"

fun run_receive_loop :: "'t noise \<Rightarrow> sockaddr \<Rightarrow> udp_event list \<Rightarrow> 't receive_state \<Rightarrow> 't receive_state" where
  "run_receive_loop nz peer [] s = s"
| "run_receive_loop nz peer (ev # evs) s =
     (let s1 = receive_one nz peer ev s in if rv_ended s1 then s1 else run_receive_loop nz peer evs s1)"

definition receive_start :: "'t \<Rightarrow> 't receive_state" where
  "receive_start t = \<lparr>rv_tunn = t, rv_sent = [], rv_delivered = [], rv_ended = False\<rparr>"

text \<open>Encrypt and send; a send error is reported but the loop goes on.\<close>

definition send_ip_packet ::
  "'t noise \<Rightarrow> wg_tunnel \<Rightarrow> bytes \<Rightarrow> io_error option \<Rightarrow> 't \<Rightarrow> (unit ns_res \<times> (bytes \<times> sockaddr) list) \<times> 't" where
  "send_ip_packet nz w packet fault t =
     (case nz_outgoing nz packet t of
        (None, t1) \<Rightarrow> ((Ok (), []), t1)
      | (Some data, t1) \<Rightarrow>
          (case fault of
             Some e \<Rightarrow> ((Err (NsIo e), []), t1)
           | None \<Rightarrow> ((Ok (), [(data, wt_peer_endpoint w)]), t1)))"

fun run_send_loop ::
  "'t noise \<Rightarrow> wg_tunnel \<Rightarrow> (bytes \<times> io_error option) list \<Rightarrow> 't \<Rightarrow> (bytes \<times> sockaddr) list \<times> 't" where
  "run_send_loop nz w [] t = ([], t)"
| "run_send_loop nz w ((packet, fault) # packets) t =
     (case send_ip_packet nz w packet fault t of ((r, out), t1) \<Rightarrow>
        let (more_out, t2) = run_send_loop nz w packets t1 in (out @ more_out, t2))"

text \<open>One round of the timer loop, which ignores a failing \<open>send_to\<close> as well.\<close>

definition timer_tick :: "'t noise \<Rightarrow> wg_tunnel \<Rightarrow> 't \<Rightarrow> (bytes \<times> sockaddr) list \<times> 't" where
  "timer_tick nz w t =
     (case nz_timers nz t of (packet, t1) \<Rightarrow>
        (case packet of None \<Rightarrow> [] | Some p \<Rightarrow> [(p, wt_peer_endpoint w)], t1))"

definition initiate_handshake ::
  "'t noise \<Rightarrow> wg_tunnel \<Rightarrow> io_error option \<Rightarrow> 't \<Rightarrow> (unit ns_res \<times> (bytes \<times> sockaddr) list) \<times> 't" where
  "initiate_handshake nz w fault t =
     (case nz_initiation nz t of
        (None, t1) \<Rightarrow> ((Ok (), []), t1)
      | (Some data, t1) \<Rightarrow>
          (case fault of
             Some e \<Rightarrow> ((Err (NsIo e), []), t1)
           | None \<Rightarrow> ((Ok (), [(data, wt_peer_endpoint w)]), t1)))"

text \<open>Each round of the wait sees the age of the session and the time elapsed, then sleeps 50 ms.\<close>

fun wait_for_handshake :: "duration \<Rightarrow> (duration option \<times> duration) list \<Rightarrow> unit ns_res option" where
  "wait_for_handshake timeout [] = None"
| "wait_for_handshake timeout ((age, elapsed) # rounds) =
     (if age \<noteq> None then Some (Ok ())
      else if timeout < elapsed then Some (Err (HandshakeTimeout timeout))
      else wait_for_handshake timeout rounds)"

subsection \<open>The loops together\<close>

text \<open>The receive, send and timer loops and the handshake run as tasks of their own and share the session
  behind its mutex: a run is a sequence of their steps in any order. A receive loop that has ended
  takes no further datagram; the other loops go on.\<close>

datatype transport_event =
    Inbound udp_event
  | Outbound bytes "io_error option"
  | Tick
  | Initiate "io_error option"

definition emit :: "(bytes \<times> sockaddr) list \<times> 't \<Rightarrow> 't receive_state \<Rightarrow> 't receive_state" where
  "emit o' s = s\<lparr>rv_tunn := snd o', rv_sent := rv_sent s @ fst o'\<rparr>"

fun transport_step :: "'t noise \<Rightarrow> wg_tunnel \<Rightarrow> transport_event \<Rightarrow> 't receive_state \<Rightarrow> 't receive_state" where
  "transport_step nz w (Inbound ev) s =
     (if rv_ended s then s else receive_one nz (wt_peer_endpoint w) ev s)"
| "transport_step nz w (Outbound packet fault) s =
     emit (run_send_loop nz w [(packet, fault)] (rv_tunn s)) s"
| "transport_step nz w Tick s = emit (timer_tick nz w (rv_tunn s)) s"
| "transport_step nz w (Initiate fault) s =
     (case initiate_handshake nz w fault (rv_tunn s) of ((r, out), t) \<Rightarrow> emit (out, t) s)"

definition transport_run ::
  "'t noise \<Rightarrow> wg_tunnel \<Rightarrow> transport_event list \<Rightarrow> 't receive_state \<Rightarrow> 't receive_state" where
  "transport_run nz w evs s = fold (transport_step nz w) evs s"

subsection \<open>The managed tunnel\<close>

datatype background_task = ReceiveLoop | SendLoop | TimerLoop | PollLoop | RxLoop

text \<open>The tasks of the \<open>JoinSet\<close>, which dropping it aborts.\<close>

record managed =
  mg_tunnel :: wg_tunnel
  mg_tasks :: "background_task list"

record connect_env =
  ce_bind :: "bind_address \<Rightarrow> io_error option"
  ce_init_fault :: "io_error option"
  ce_rounds :: "(duration option \<times> duration) list"
  ce_display :: "ns_error \<Rightarrow> string"

text \<open>The result, and the background tasks running afterwards; \<open>None\<close> is a connect that still waits, or
  was dropped while it waited.\<close>

definition connect_with_timeout ::
  "'t noise \<Rightarrow> connect_env \<Rightarrow> wireguard_config \<Rightarrow> duration \<Rightarrow> 't \<Rightarrow> managed ns_res option \<times> background_task list" where
  "connect_with_timeout nz env cfg timeout t =
     (case wg_tunnel_new (ce_bind env) cfg of
        Err e \<Rightarrow> (Some (Err (TunnelCreation (ce_display env e))), [])
      | Panic \<Rightarrow> (Some Panic, [])
      | Ok w \<Rightarrow>
          (let tasks = [ReceiveLoop, SendLoop, TimerLoop, PollLoop, RxLoop] in
           case fst (initiate_handshake nz w (ce_init_fault env) t) of
             (Err e, out) \<Rightarrow> (Some (Err (TunnelCreation (ce_display env e))), [])
           | (Panic, out) \<Rightarrow> (Some Panic, [])
           | (Ok u, out) \<Rightarrow>
               (case wait_for_handshake timeout (ce_rounds env) of
                  None \<Rightarrow> (None, [])
                | Some (Err e) \<Rightarrow> (Some (Err e), [])
                | Some Panic \<Rightarrow> (Some Panic, [])
                | Some (Ok v) \<Rightarrow> (Some (Ok \<lparr>mg_tunnel = w, mg_tasks = tasks\<rparr>), tasks))))"

section \<open>Only the peer is heard\<close>

definition from_peer :: "sockaddr \<Rightarrow> udp_event \<Rightarrow> bool" where
  "from_peer peer ev \<longleftrightarrow> (case ev of Datagram data src chan \<Rightarrow> src = peer | RecvError \<Rightarrow> True)"

lemma receive_stranger: "\<not> from_peer peer ev \<Longrightarrow> receive_one nz peer ev s = s"
  by (cases ev) (auto simp: from_peer_def receive_one_def)

lemma receive_loop_filter:
  "\<not> rv_ended s \<Longrightarrow> run_receive_loop nz peer evs s = run_receive_loop nz peer (filter (from_peer peer) evs) s"
proof (induction evs arbitrary: s)
  case (Cons ev evs)
  show ?case
  proof (cases "from_peer peer ev")
    case True
    then show ?thesis using Cons.IH [of "receive_one nz peer ev s"] by (simp add: Let_def)
  next
    case False
    then show ?thesis using Cons by (simp add: receive_stranger)
  qed
qed simp

text \<open>What the stack and the network see of a receive loop: packets go to the peer only, no empty packet is
  delivered, and a delivered packet is the decryption of a datagram from the peer.\<close>

definition delivery_of :: "'t noise \<Rightarrow> sockaddr \<Rightarrow> udp_event \<Rightarrow> bytes \<Rightarrow> bool" where
  "delivery_of nz peer ev packet \<longleftrightarrow>
     (\<exists>data t t'. ev = Datagram data peer True \<and> nz_is_wg nz data \<and>
        nz_incoming nz data t = (WriteToTunnel packet, t') \<and> packet \<noteq> [])"

lemma receive_one_delivers:
  "(\<exists>ds. length ds \<le> 1 \<and> rv_delivered (receive_one nz peer ev s) = rv_delivered s @ ds \<and>
        (\<forall>p \<in> set ds. delivery_of nz peer ev p))
   \<and> (\<forall>x \<in> set (rv_sent (receive_one nz peer ev s)) - set (rv_sent s). snd x = peer)"
proof (cases ev)
  case (Datagram data src op)
  show ?thesis
  proof (cases "src = peer \<and> nz_is_wg nz data")
    case True
    obtain r t where r: "nz_incoming nz data (rv_tunn s) = (r, t)" by fastforce
    show ?thesis
    proof (cases r)
      case (WriteToTunnel packet)
      with True r have "packet \<noteq> [] \<Longrightarrow> op \<Longrightarrow> delivery_of nz peer ev packet"
        unfolding delivery_of_def Datagram by blast
      with True r WriteToTunnel Datagram show ?thesis
        by (auto simp: receive_one_def process_incoming_udp_def Let_def split: if_splits)
    qed (use True r Datagram in \<open>auto simp: receive_one_def process_incoming_udp_def split: prod.splits\<close>)
  qed (use Datagram in \<open>auto simp: receive_one_def process_incoming_udp_def\<close>)
qed (simp add: receive_one_def)

text \<open>The loop alone is the run in which only datagrams arrive.\<close>

lemma transport_run_ended: "rv_ended s \<Longrightarrow> transport_run nz w (map Inbound evs) s = s"
  by (induction evs) (simp_all add: transport_run_def)

lemma run_receive_loop_transport:
  "\<not> rv_ended s \<Longrightarrow>
     run_receive_loop nz (wt_peer_endpoint w) evs s = transport_run nz w (map Inbound evs) s"
proof (induction evs arbitrary: s)
  case (Cons ev evs)
  then show ?case
    using transport_run_ended [of "receive_one nz (wt_peer_endpoint w) ev s" nz w evs]
    by (simp add: Let_def transport_run_def)
qed (simp add: transport_run_def)

lemma sends_to_peer:
  "\<forall>x \<in> set (fst (run_send_loop nz w packets t)). snd x = wt_peer_endpoint w"
  "\<forall>x \<in> set (fst (timer_tick nz w t)). snd x = wt_peer_endpoint w"
  "\<forall>x \<in> set (snd (fst (initiate_handshake nz w fault t))). snd x = wt_peer_endpoint w"
proof -
  show "\<forall>x \<in> set (fst (run_send_loop nz w packets t)). snd x = wt_peer_endpoint w"
  proof (induction packets arbitrary: t)
    case (Cons x packets)
    obtain packet fault r out t1 where x: "x = (packet, fault)"
        "send_ip_packet nz w packet fault t = ((r, out), t1)"
      by (metis prod.exhaust)
    then have "\<forall>y \<in> set out. snd y = wt_peer_endpoint w"
      by (auto simp: send_ip_packet_def split: prod.splits option.splits)
    then show ?case using x Cons.IH [of t1] by (auto simp: Let_def split: prod.split)
  qed simp
qed (auto simp: timer_tick_def initiate_handshake_def split: prod.splits option.splits)

text \<open>Each step delivers at most one packet, and only when it takes a datagram from the peer.\<close>

fun heard_from :: "sockaddr \<Rightarrow> transport_event \<Rightarrow> bool" where
  "heard_from peer (Inbound ev) = from_peer peer ev"
| "heard_from peer e = True"

fun delivers :: "'t noise \<Rightarrow> sockaddr \<Rightarrow> transport_event \<Rightarrow> bytes \<Rightarrow> bool" where
  "delivers nz peer (Inbound ev) p = delivery_of nz peer ev p"
| "delivers nz peer e p = False"

lemma transport_stranger: "\<not> heard_from (wt_peer_endpoint w) e \<Longrightarrow> transport_step nz w e s = s"
  by (cases e) (auto simp: receive_stranger)

lemma transport_step_delivers:
  "(\<exists>ds. length ds \<le> 1 \<and> rv_delivered (transport_step nz w e s) = rv_delivered s @ ds \<and>
        (\<forall>p \<in> set ds. delivers nz (wt_peer_endpoint w) e p))
   \<and> (\<forall>x \<in> set (rv_sent (transport_step nz w e s)) - set (rv_sent s). snd x = wt_peer_endpoint w)"
proof (cases e)
  case (Inbound ev)
  then show ?thesis using receive_one_delivers [of nz "wt_peer_endpoint w" ev s] by simp
next
  case (Initiate fault)
  then show ?thesis using sends_to_peer(3) [of nz w fault "rv_tunn s"]
    by (auto simp: emit_def split: prod.split)
next
  case Tick
  then show ?thesis using sends_to_peer(2) [of nz w "rv_tunn s"] by (auto simp: emit_def)
next
  case (Outbound packet fault)
  then show ?thesis using sends_to_peer(1) [of nz w "[(packet, fault)]" "rv_tunn s"]
    by (auto simp: emit_def simp del: run_send_loop.simps)
qed

text \<open>In order and without repetition: a subsequence of the steps, one delivered packet each.\<close>

definition delivered_in_order :: "'t noise \<Rightarrow> sockaddr \<Rightarrow> transport_event list \<Rightarrow> bytes list \<Rightarrow> bool" where
  "delivered_in_order nz peer evs ps \<longleftrightarrow> (\<exists>ds. subseq ds evs \<and> list_all2 (delivers nz peer) ds ps)"

lemma delivered_in_order_snoc:
  assumes "delivered_in_order nz peer evs ps" "length ds \<le> 1" "\<forall>p \<in> set ds. delivers nz peer e p"
  shows "delivered_in_order nz peer (evs @ [e]) (ps @ ds)"
proof -
  from assms(1) obtain es where es: "subseq es evs" "list_all2 (delivers nz peer) es ps"
    unfolding delivered_in_order_def by blast
  show ?thesis
  proof (cases ds)
    case Nil
    then show ?thesis using es unfolding delivered_in_order_def
      by (metis append_Nil2 list_emb_append2 subseq_order.order_refl subseq_rev_drop_many)
  next
    case (Cons p ds')
    with assms(2,3) have "ds = [p]" "delivers nz peer e p" by simp_all
    then show ?thesis using es unfolding delivered_in_order_def
      by (intro exI [of _ "es @ [e]"]) (auto intro: list_emb_append_mono list_all2_appendI)
  qed
qed

lemma transport_run_delivers:
  assumes "rv_delivered s0 = []" "rv_sent s0 = []"
  shows "delivered_in_order nz (wt_peer_endpoint w) evs (rv_delivered (transport_run nz w evs s0))
    \<and> (\<forall>x \<in> set (rv_sent (transport_run nz w evs s0)). snd x = wt_peer_endpoint w)"
proof (induction evs rule: rev_induct)
  case Nil
  then show ?case using assms by (simp add: transport_run_def delivered_in_order_def)
next
  case (snoc e evs)
  let ?s = "transport_run nz w evs s0"
  have run: "transport_run nz w (evs @ [e]) s0 = transport_step nz w e ?s" by (simp add: transport_run_def)
  obtain ds where ds: "length ds \<le> 1" "rv_delivered (transport_step nz w e ?s) = rv_delivered ?s @ ds"
      "\<forall>p \<in> set ds. delivers nz (wt_peer_endpoint w) e p"
    using transport_step_delivers [of nz w e ?s] by blast
  have "delivered_in_order nz (wt_peer_endpoint w) (evs @ [e]) (rv_delivered (transport_step nz w e ?s))"
    unfolding ds(2) by (rule delivered_in_order_snoc) (use snoc.IH ds in auto)
  moreover have "\<forall>x \<in> set (rv_sent (transport_step nz w e ?s)). snd x = wt_peer_endpoint w"
    using snoc.IH transport_step_delivers [of nz w e ?s] by blast
  ultimately show ?case unfolding run by (intro conjI)
qed

lemma transport_run_filter:
  "transport_run nz w evs s = transport_run nz w (filter (heard_from (wt_peer_endpoint w)) evs) s"
  by (induction evs arbitrary: s) (simp_all add: transport_run_def transport_stranger)

text \<open>C39. The transport hears only its peer. However the receive, send and timer loops interleave on the
  shared session, datagrams from any other address change nothing, neither the session nor what is
  delivered or sent; the packets handed to the stack are the non-empty decryptions of datagrams that
  came from the peer endpoint, at most one each and in the order they arrived; and everything that is
  sent, answers, data, handshakes and keepalives, goes to that endpoint.\<close>

theorem only_peer_is_heard:
  fixes nz evs t w
  defines "s \<equiv> transport_run nz w evs (receive_start t)"
  shows "s = transport_run nz w (filter (heard_from (wt_peer_endpoint w)) evs) (receive_start t)
    \<and> delivered_in_order nz (wt_peer_endpoint w) evs (rv_delivered s)
    \<and> (\<forall>x \<in> set (rv_sent s). snd x = wt_peer_endpoint w)"
proof -
  have start: "rv_delivered (receive_start t) = []" "rv_sent (receive_start t) = []"
    by (simp_all add: receive_start_def)
  show ?thesis
    using transport_run_filter [of nz w evs "receive_start t"] transport_run_delivers [OF start, of nz w evs]
    by (simp add: s_def)
qed

section \<open>Connecting\<close>

lemma wait_for_handshake_Ok:
  "wait_for_handshake timeout rounds = Some (Ok u) \<Longrightarrow> \<exists>age elapsed. (Some age, elapsed) \<in> set rounds"
  by (induction timeout rounds rule: wait_for_handshake.induct) (auto split: if_splits)

lemma wait_for_handshake_Err:
  "wait_for_handshake timeout rounds = Some (Err e) \<Longrightarrow>
     e = HandshakeTimeout timeout \<and> (\<exists>elapsed. (None, elapsed) \<in> set rounds \<and> timeout < elapsed)"
  by (induction timeout rounds rule: wait_for_handshake.induct) (auto split: if_splits)

lemma wait_for_handshake_no_panic: "wait_for_handshake timeout rounds \<noteq> Some Panic"
  by (induction timeout rounds rule: wait_for_handshake.induct) auto

lemma wait_for_handshake_ends:
  "(age, elapsed) \<in> set rounds \<Longrightarrow> timeout < elapsed \<Longrightarrow> wait_for_handshake timeout rounds \<noteq> None"
  by (induction timeout rounds rule: wait_for_handshake.induct) auto

text \<open>Property. Connecting to an endpoint: success means that the handshake completed, the tunnel speaks to the
  endpoint asked for from a socket of its family with the configured MTU and buffer size, and all
  five background loops run; any other outcome, a dropped attempt included, leaves none of them
  running; it never panics, and has an answer once the handshake timeout has passed.\<close>

theorem connect_all_or_nothing:
  fixes nz env cfg wc timeout t
  defines "r \<equiv> fst (connect_with_timeout nz env (apply_transport_tuning wc cfg) timeout t)"
    and "tasks \<equiv> snd (connect_with_timeout nz env (apply_transport_tuning wc cfg) timeout t)"
  shows "(case r of
      Some (Ok m) \<Rightarrow> (\<exists>age elapsed. (Some age, elapsed) \<in> set (ce_rounds env)) \<and>
        set tasks = {ReceiveLoop, SendLoop, TimerLoop, PollLoop, RxLoop} \<and> mg_tasks m = tasks \<and>
        wt_peer_endpoint (mg_tunnel m) = wg_peer_endpoint cfg \<and>
        (wt_bind (mg_tunnel m) = AnyV4 \<longleftrightarrow> sa_is_ipv4 (wg_peer_endpoint cfg)) \<and>
        wt_mtu (mg_tunnel m) = wc_mtu wc \<and> wt_tcp_buffer_size (mg_tunnel m) = wc_tcp_buffer_size wc
    | Some (Err e) \<Rightarrow> tasks = [] \<and> (e = HandshakeTimeout timeout \<or> (\<exists>m. e = TunnelCreation m))
    | Some Panic \<Rightarrow> False
    | None \<Rightarrow> tasks = [])
    \<and> ((\<exists>(age, elapsed) \<in> set (ce_rounds env). timeout < elapsed) \<longrightarrow> r \<noteq> None)"
proof -
  define tcfg where "tcfg = apply_transport_tuning wc cfg"
  have c: "wg_peer_endpoint tcfg = wg_peer_endpoint cfg" "wg_mtu tcfg = Some (wc_mtu wc)"
    "wg_tcp_buffer_size tcfg = Some (wc_tcp_buffer_size wc)"
    by (simp_all add: tcfg_def apply_transport_tuning_def)
  define addr where "addr = (if sa_is_ipv4 (wg_peer_endpoint cfg) then AnyV4 else AnyV6)"
  define w where "w = \<lparr>wt_bind = addr, wt_peer_endpoint = wg_peer_endpoint cfg, wt_tunnel_ip = wg_tunnel_ip tcfg,
    wt_tunnel_ipv6 = wg_tunnel_ipv6 tcfg, wt_mtu = wc_mtu wc, wt_tcp_buffer_size = wc_tcp_buffer_size wc\<rparr>"
  have new: "wg_tunnel_new (ce_bind env) tcfg = (case ce_bind env addr of None \<Rightarrow> Ok w | Some e \<Rightarrow> Err (NsIo e))"
    by (simp add: wg_tunnel_new_def c w_def addr_def Let_def split: option.split)
  have ends: "wait_for_handshake timeout (ce_rounds env) \<noteq> None" if "\<exists>(age, elapsed) \<in> set (ce_rounds env). timeout < elapsed"
    using that wait_for_handshake_ends by blast
  obtain ri out where init: "fst (initiate_handshake nz w (ce_init_fault env) t) = (ri, out)" by fastforce
  then have ri: "ri \<noteq> Panic" by (auto simp: initiate_handshake_def split: prod.splits option.splits)
  note run = r_def tasks_def tcfg_def [symmetric] connect_with_timeout_def new Let_def
  show ?thesis
  proof (cases "ce_bind env addr")
    case None
    show ?thesis
    proof (cases ri)
      case (Ok u)
      show ?thesis
      proof (cases "wait_for_handshake timeout (ce_rounds env)")
        case None': None
        with ends show ?thesis unfolding run using None init Ok by auto
      next
        case (Some x)
        then show ?thesis
          unfolding run using None init Ok wait_for_handshake_Ok [of timeout "ce_rounds env"]
            wait_for_handshake_Err [of timeout "ce_rounds env"] wait_for_handshake_no_panic [of timeout "ce_rounds env"]
          by (cases x) (auto simp: w_def addr_def)
      qed
    qed (use None init ri in \<open>simp_all add: run\<close>)
  qed (simp add: run)
qed

text \<open>A session whose handshake completes in the second round.\<close>

definition example_noise :: "nat noise" where
  "example_noise = \<lparr>nz_is_wg = (\<lambda>d. True), nz_incoming = (\<lambda>d t. (WriteToTunnel d, Suc t)),
     nz_queued = (\<lambda>t. ([], t)), nz_outgoing = (\<lambda>p t. (Some p, t)), nz_initiation = (\<lambda>t. (Some [1], t)),
     nz_timers = (\<lambda>t. (None, t)), nz_since_handshake = (\<lambda>t. None)\<rparr>"

definition example_tunnel :: wg_tunnel where
  "example_tunnel = \<lparr>wt_bind = AnyV4, wt_peer_endpoint = SA4 (Ipv4Addr 162 159 192 1) 2408,
     wt_tunnel_ip = Ipv4Addr 172 16 0 2, wt_tunnel_ipv6 = None, wt_mtu = 1280, wt_tcp_buffer_size = 65536\<rparr>"

theorem only_peer_is_heard_witness:
  "let peer = wt_peer_endpoint example_tunnel; stranger = SA4 (Ipv4Addr 6 6 6 6) 2408;
       s = transport_run example_noise example_tunnel
         [Initiate None, Inbound (Datagram [5] stranger True), Outbound [7] None, Inbound (Datagram [9] peer True)]
         (receive_start 0)
   in rv_delivered s = [[9]] \<and> rv_sent s = [([1], peer), ([7], peer)] \<and>
      s = transport_run example_noise example_tunnel
        [Initiate None, Outbound [7] None, Inbound (Datagram [9] peer True)] (receive_start 0)"
proof -
  let ?peer = "wt_peer_endpoint example_tunnel" and ?stranger = "SA4 (Ipv4Addr 6 6 6 6) 2408"
  let ?evs = "[Initiate None, Inbound (Datagram [5] ?stranger True), Outbound [7] None, Inbound (Datagram [9] ?peer True)]"
  let ?s = "transport_run example_noise example_tunnel ?evs (receive_start 0)"
  have "rv_delivered ?s = [[9]]" "rv_sent ?s = [([1], ?peer), ([7], ?peer)]"
    by (simp_all add: transport_run_def receive_one_def process_incoming_udp_def example_noise_def
        example_tunnel_def receive_start_def initiate_handshake_def send_ip_packet_def emit_def Let_def)
  with only_peer_is_heard [of example_noise example_tunnel ?evs 0]
  show ?thesis by (simp add: from_peer_def Let_def example_tunnel_def)
qed

definition example_connect :: connect_env where
  "example_connect = \<lparr>ce_bind = (\<lambda>a. None), ce_init_fault = None,
     ce_rounds = [(None, 0), (Some 3, from_millis 50)], ce_display = (\<lambda>e. [])\<rparr>"

theorem connect_all_or_nothing_witness:
  "\<exists>m. connect_with_timeout example_noise example_connect (apply_transport_tuning default_warp example_wg) (from_secs 10) 0 =
     (Some (Ok m), [ReceiveLoop, SendLoop, TimerLoop, PollLoop, RxLoop]) \<and> wt_mtu (mg_tunnel m) = wc_mtu default_warp"
proof -
  have "\<exists>m. connect_with_timeout example_noise example_connect (apply_transport_tuning default_warp example_wg) (from_secs 10) 0 =
     (Some (Ok m), [ReceiveLoop, SendLoop, TimerLoop, PollLoop, RxLoop])"
    by (simp add: connect_with_timeout_def wg_tunnel_new_def initiate_handshake_def example_noise_def example_connect_def
        from_secs_def from_millis_def Let_def)
  with connect_all_or_nothing [of example_noise example_connect default_warp example_wg "from_secs 10" 0]
  show ?thesis by auto
qed

section \<open>The race over the transport\<close>

text \<open>\<open>try_endpoint\<close> of \<open>src/tunnel.rs\<close>: an attempt of the endpoint race is a connect to that endpoint; an
  error reaches the race as its text and a panic as a lost task.\<close>

fun end_of :: "connect_env \<Rightarrow> managed ns_res \<Rightarrow> managed attempt_end" where
  "end_of env (Ok m) = Up m"
| "end_of env (Err e) = Down (ce_display env e)"
| "end_of env Panic = Lost ''panic''"

definition try_endpoint ::
  "'t noise \<Rightarrow> connect_env \<Rightarrow> wireguard_config \<Rightarrow> sockaddr \<Rightarrow> duration \<Rightarrow> 't \<Rightarrow>
     wireguard_config \<times> managed attempt_end option" where
  "try_endpoint nz env cfg endpoint timeout t =
     (let cfg = cfg\<lparr>wg_peer_endpoint := endpoint\<rparr>
      in (cfg, map_option (end_of env) (fst (connect_with_timeout nz env cfg timeout t))))"

text \<open>The endpoint race in which every attempt that ends is such a connect, with the timeout it was started
  with; what the network and the clock do is different for each.\<close>

inductive transport_race :: "'t noise \<Rightarrow> wireguard_config \<Rightarrow> nat \<Rightarrow> managed endpoint_race \<Rightarrow> bool"
  for nz :: "'t noise" and cfg :: wireguard_config
where
  start: "transport_race nz cfg 0 (race_start cfg)"
| joined: "transport_race nz cfg n s \<Longrightarrow> er_result s = None \<Longrightarrow> (endpoint, timeout) \<in> set (er_started s) \<Longrightarrow>
    try_endpoint nz env cfg endpoint timeout t = (candidate, Some j) \<Longrightarrow> candidate \<in> set (er_probes s) \<Longrightarrow>
    transport_race nz cfg (Suc n) (race_joined cfg candidate j s)"

text \<open>A tunnel that runs a configuration: it speaks to its endpoint from a socket of that family, with its
  MTU and buffer size or the defaults, and has all its background loops.\<close>

definition runs_config :: "managed \<Rightarrow> wireguard_config \<Rightarrow> bool" where
  "runs_config m cfg \<longleftrightarrow>
     wt_peer_endpoint (mg_tunnel m) = wg_peer_endpoint cfg \<and>
     (wt_bind (mg_tunnel m) = AnyV4 \<longleftrightarrow> sa_is_ipv4 (wg_peer_endpoint cfg)) \<and>
     wt_mtu (mg_tunnel m) = (case wg_mtu cfg of Some mtu \<Rightarrow> mtu | None \<Rightarrow> 1280) \<and>
     wt_tcp_buffer_size (mg_tunnel m) = (case wg_tcp_buffer_size cfg of Some b \<Rightarrow> b | None \<Rightarrow> 262144) \<and>
     wt_tunnel_ip (mg_tunnel m) = wg_tunnel_ip cfg \<and> wt_tunnel_ipv6 (mg_tunnel m) = wg_tunnel_ipv6 cfg \<and>
     set (mg_tasks m) = {ReceiveLoop, SendLoop, TimerLoop, PollLoop, RxLoop}"

lemma wg_tunnel_new_runs:
  "wg_tunnel_new bound cfg = Ok w \<Longrightarrow>
     runs_config \<lparr>mg_tunnel = w, mg_tasks = [ReceiveLoop, SendLoop, TimerLoop, PollLoop, RxLoop]\<rparr> cfg"
  by (auto simp: wg_tunnel_new_def runs_config_def Let_def DEFAULT_MTU_def DEFAULT_TCP_BUFFER_SIZE_def
      split: option.splits if_splits)

lemma try_endpoint_Up:
  assumes "try_endpoint nz env cfg endpoint timeout t = (candidate, Some (Up m))"
  shows "runs_config m candidate"
proof -
  obtain x where x: "fst (connect_with_timeout nz env candidate timeout t) = Some x" "end_of env x = Up m"
    using assms by (auto simp: try_endpoint_def Let_def)
  then have "fst (connect_with_timeout nz env candidate timeout t) = Some (Ok m)" by (cases x) auto
  then show ?thesis
    by (auto simp: connect_with_timeout_def Let_def wg_tunnel_new_runs split: result.splits prod.splits option.splits)
qed

lemma transport_race_run: "transport_race nz cfg n s \<Longrightarrow> race_run cfg n s"
  by (induction rule: transport_race.induct) (auto intro: race_run.intros race_step.intros)

lemma race_joined_winner:
  "er_result (race_joined cfg candidate j s) = Some (Ok (m, c)) \<Longrightarrow> er_result s = None \<Longrightarrow> j = Up m \<and> c = candidate"
  by (cases j) (auto simp: race_joined_def race_done_def spawn_next_def Let_def split: if_splits list.splits prod.splits)

lemma race_start_undecided: "er_result (race_start cfg) \<noteq> Some (Ok r)"
  by (auto simp: race_start_def race_done_def spawn_next_def MAX_PARALLEL_ENDPOINT_ATTEMPTS_def numeral_2_eq_2 Let_def
      split: list.splits prod.splits)

lemma transport_race_winner:
  assumes "transport_race nz cfg n s" "er_result s = Some (Ok (m, c))"
  shows "runs_config m c"
  using assms by (cases rule: transport_race.cases)
    (auto simp: race_start_undecided dest!: race_joined_winner intro: try_endpoint_Up)

text \<open>What \<open>connect_candidate\<close> can return when its attempts are real.\<close>

definition decided_by_transport :: "'t noise \<Rightarrow> (wireguard_config \<Rightarrow> (managed \<times> wireguard_config) res) \<Rightarrow> bool" where
  "decided_by_transport nz race \<longleftrightarrow>
     (\<forall>wg r. race wg = Ok r \<longrightarrow> (\<exists>n s. transport_race nz wg n s \<and> er_result s = Some (Ok r)))"

lemma transport_decides: "decided_by_transport nz race \<Longrightarrow> decided_by_race race"
  unfolding decided_by_transport_def decided_by_race_def using transport_race_run by blast

lemma decided_runs: "decided_by_transport nz race \<Longrightarrow> race wg = Ok (m, c) \<Longrightarrow> runs_config m c"
  unfolding decided_by_transport_def using transport_race_winner by blast

text \<open>A race whose first attempt meets a network that answers.\<close>

definition example_transport :: "wireguard_config \<Rightarrow> (managed \<times> wireguard_config) res" where
  "example_transport wg =
     (case try_endpoint example_noise example_connect wg (hd (endpoint_attempts wg)) (from_secs 10) 0 of
        (c, Some (Up m)) \<Rightarrow> Ok (m, c) | _ \<Rightarrow> Err TunnelNotReady)"

lemma example_transport_Ok: "\<exists>r. example_transport wg = Ok r"
  by (simp add: example_transport_def try_endpoint_def connect_with_timeout_def wg_tunnel_new_def
      initiate_handshake_def example_noise_def example_connect_def from_secs_def from_millis_def Let_def)

lemma example_transport_decided: "decided_by_transport example_noise example_transport"
  unfolding decided_by_transport_def
proof (intro allI impI)
  fix wg r assume r: "example_transport wg = Ok r"
  obtain c j where c: "try_endpoint example_noise example_connect wg (hd (endpoint_attempts wg)) (from_secs 10) 0 = (c, j)"
    by fastforce
  then obtain m where j: "j = Some (Up m)" and rm: "r = (m, c)"
    using r by (auto simp: example_transport_def split: option.splits attempt_end.splits)
  have cc: "c = wg\<lparr>wg_peer_endpoint := hd (endpoint_attempts wg)\<rparr>" using c by (simp add: try_endpoint_def Let_def)
  obtain a rest where a: "endpoint_attempts wg = a # rest"
    using attempts_nonempty [of wg] by (cases "endpoint_attempts wg") auto
  have s: "er_result (race_start wg :: managed endpoint_race) = None" "c \<in> set (er_probes (race_start wg :: managed endpoint_race))"
    "(a, from_secs 10) \<in> set (er_started (race_start wg :: managed endpoint_race))"
    by (cases rest; auto simp: race_start_def race_done_def spawn_next_def MAX_PARALLEL_ENDPOINT_ATTEMPTS_def
        numeral_2_eq_2 a cc Let_def)+
  have "transport_race example_noise wg (Suc 0) (race_joined wg c (Up m) (race_start wg))"
    by (rule transport_race.joined [OF transport_race.start s(1,3) _ s(2)]) (use c j a in simp)
  moreover have "er_result (race_joined wg c (Up m) (race_start wg)) = Some (Ok r)"
    by (simp add: race_joined_def Let_def rm)
  ultimately show "\<exists>n s. transport_race example_noise wg n s \<and> er_result s = Some (Ok r)" by blast
qed

end
