(* ===== verification/Doh.thy ===== *)
theory Doh
  imports Dns_Wire Socks_Udp Std_Net
begin

text \<open>
  The vendored DNS-over-HTTPS resolver (\<open>wireguard-netstack/src/dns.rs\<close>): its query builder, the test for a
  complete HTTP response and the loop that reads one, the parsers of the HTTP response and of the DNS
  message in it, and the resolver with its cache and its servers. TCP and TLS enter as what a read
  returns and what one query ends with. A length or a class is checked only where the source does.
\<close>

section \<open>Queries\<close>

fun doh_push_labels :: "bytes \<Rightarrow> string list \<Rightarrow> bytes ns_res" where
  "doh_push_labels query [] = Ok query"
| "doh_push_labels query (label # rest) =
     (if 63 < length label then Err (DnsLabelTooLong label)
      else doh_push_labels (query @ [word_of_nat (length label)] @ as_bytes label) rest)"

definition doh_build_query :: "string \<Rightarrow> u16 \<Rightarrow> bytes ns_res" where
  "doh_build_query hostname txid =
     and_then (doh_push_labels
         (to_be16 txid @ [0x01, 0x00] @ [0x00, 0x01] @ [0x00, 0x00] @ [0x00, 0x00] @ [0x00, 0x00])
         (split_on (CHR ''.'') hostname))
       (\<lambda>query. Ok (query @ [0] @ [0x00, 0x01] @ [0x00, 0x01]))"

section \<open>HTTP responses\<close>

definition crlf2 :: bytes where "crlf2 = [13, 10, 13, 10]"

definition find_header_end :: "bytes \<Rightarrow> nat option" where
  "find_header_end data = find (\<lambda>i. take 4 (drop i data) = crlf2) [0..<length data - 3]"

text \<open>Rust lowercases and trims all of Unicode; on the header names and numbers compared here it agrees with
  ASCII.\<close>

definition parse_content_length :: "bytes \<Rightarrow> nat option" where
  "parse_content_length headers =
     (if \<not> utf8_valid headers then None
      else case find (\<lambda>line. starts_with (to_ascii_lowercase line) ''content-length:'') (str_lines (bytes_str headers)) of
          None \<Rightarrow> None
        | Some line \<Rightarrow> parse_unsigned usize_max (trim (split_on (CHR '':'') line ! 1)))"

definition response_complete :: "bytes \<Rightarrow> bool" where
  "response_complete data \<longleftrightarrow>
     (case find_header_end data of
        None \<Rightarrow> False
      | Some header_end \<Rightarrow>
          (case parse_content_length (take header_end data) of
             Some content_length \<Rightarrow> content_length \<le> length data - (header_end + 4)
           | None \<Rightarrow> True))"

text \<open>The read loop of \<open>query_direct\<close> and \<open>query_tunneled\<close>, over what the TLS stream yields; \<open>None\<close> is a read that
  has not returned yet.\<close>

datatype tls_read = ReadData bytes | ReadEnd | ReadCut | ReadFailed io_error

fun read_response :: "bytes \<Rightarrow> tls_read list \<Rightarrow> bytes ns_res option" where
  "read_response response [] = None"
| "read_response response (ReadEnd # rest) = Some (Ok response)"
| "read_response response (ReadCut # rest) = Some (Ok response)"
| "read_response response (ReadFailed e # rest) = Some (Err (NsIo e))"
| "read_response response (ReadData buf # rest) =
     (let response' = response @ buf in
      if 4 < length response' \<and> response_complete response' then Some (Ok response')
      else read_response response' rest)"

section \<open>DNS messages\<close>

function skip_dns_name :: "bytes \<Rightarrow> nat \<Rightarrow> nat ns_res" where
  "skip_dns_name data pos =
     (if length data \<le> pos then Err DnsNameTooLong
      else
        let len = data ! pos in
        if len AND 0xC0 = 0xC0 then Ok (pos + 2)
        else if len = 0 then Ok (pos + 1)
        else skip_dns_name data (pos + 1 + unat len))"
  by pat_completeness auto

termination
  by (relation "measure (\<lambda>(data, pos). length data - pos)") auto

declare skip_dns_name.simps [simp del]

definition be16_at :: "bytes \<Rightarrow> nat \<Rightarrow> u16 ns_res" where
  "be16_at data i = and_then (idx data i) (\<lambda>hi. and_then (idx data (i + 1)) (\<lambda>lo. Ok (be16 hi lo)))"

fun doh_skip_questions :: "bytes \<Rightarrow> nat \<Rightarrow> nat \<Rightarrow> nat ns_res" where
  "doh_skip_questions data 0 pos = Ok pos"
| "doh_skip_questions data (Suc n) pos =
     and_then (skip_dns_name data pos) (\<lambda>pos. doh_skip_questions data n (pos + 4))"

fun doh_answers :: "bytes \<Rightarrow> nat \<Rightarrow> nat \<Rightarrow> ipv4 list \<Rightarrow> ipv4 list ns_res" where
  "doh_answers data 0 pos addresses = Ok addresses"
| "doh_answers data (Suc n) pos addresses =
     (if length data \<le> pos then Ok addresses
      else
        and_then (skip_dns_name data pos) (\<lambda>pos.
        if length data < pos + 10 then Ok addresses
        else
          and_then (be16_at data pos) (\<lambda>rtype.
          and_then (be16_at data (pos + 8)) (\<lambda>rdlength.
          let pos = pos + 10 in
          if length data < pos + unat rdlength then Ok addresses
          else
            and_then
              (if rtype = 1 \<and> rdlength = 4 then
                 and_then (idx data pos) (\<lambda>a. and_then (idx data (pos + 1)) (\<lambda>b.
                 and_then (idx data (pos + 2)) (\<lambda>c. and_then (idx data (pos + 3)) (\<lambda>d.
                   Ok (addresses @ [Ipv4Addr a b c d])))))
               else Ok addresses)
              (\<lambda>addresses. doh_answers data n (pos + unat rdlength) addresses)))))"

definition parse_dns_response :: "bytes \<Rightarrow> string \<Rightarrow> ipv4 list ns_res" where
  "parse_dns_response data hostname =
     (if length data < 12 then Err DnsResponseTooShort
      else
        and_then (be16_at data 2) (\<lambda>flags.
        if flags AND 0x000F \<noteq> 0 then Err (DnsError (flags AND 0x000F))
        else
          and_then (be16_at data 6) (\<lambda>ancount.
          if ancount = 0 then Err (DnsNoRecords hostname)
          else
            and_then (be16_at data 4) (\<lambda>qdcount.
            and_then (doh_skip_questions data (unat qdcount) 12) (\<lambda>pos.
            and_then (doh_answers data (unat ancount) pos []) (\<lambda>addresses.
            if addresses = [] then Err (DnsNoRecords hostname) else Ok addresses))))))"

definition parse_doh_response :: "bytes \<Rightarrow> string \<Rightarrow> ipv4 list ns_res" where
  "parse_doh_response response hostname =
     and_then (ok_or (find_header_end response) (InvalidHttpResponse ''no header end found'')) (\<lambda>header_end.
     let body_start = header_end + 4 in
     if length response \<le> body_start then Err (InvalidHttpResponse ''empty body'')
     else
       and_then (slice response 0 header_end) (\<lambda>headers.
       if \<not> utf8_valid headers then Err (InvalidHttpResponse ''invalid headers'')
       else
         let status_line = (case str_lines (bytes_str headers) of [] \<Rightarrow> [] | l # ls \<Rightarrow> l) in
         if \<not> str_contains status_line ''200'' then Err (DohServerError status_line)
         else
           and_then (slice response body_start (length response)) (\<lambda>dns_response.
             parse_dns_response dns_response hostname)))"

section \<open>The resolver\<close>

record doh_server_config =
  dh_hostname :: string
  dh_ips :: "ipv4 list"

definition doh_cloudflare :: doh_server_config where
  "doh_cloudflare = \<lparr>dh_hostname = ''1dot1dot1dot1.cloudflare-dns.com'',
     dh_ips = [Ipv4Addr 1 1 1 1, Ipv4Addr 1 0 0 1]\<rparr>"

definition doh_google :: doh_server_config where
  "doh_google = \<lparr>dh_hostname = ''dns.google'', dh_ips = [Ipv4Addr 8 8 8 8, Ipv4Addr 8 8 4 4]\<rparr>"

definition doh_quad9 :: doh_server_config where
  "doh_quad9 = \<lparr>dh_hostname = ''dns.quad9.net'', dh_ips = [Ipv4Addr 9 9 9 9, Ipv4Addr 149 112 112 112]\<rparr>"

record doh_resolver =
  dh_servers :: doh_server_config
  dh_ttl :: duration
  dh_entries :: "string \<rightharpoonup> ipv4 list \<times> instant"

definition doh_new :: "doh_server_config \<Rightarrow> doh_resolver" where
  "doh_new servers = \<lparr>dh_servers = servers, dh_ttl = from_secs 300, dh_entries = Map.empty\<rparr>"

text \<open>Every server is asked until one answers; each query's end comes with the instant it ends at.\<close>

fun doh_try :: "(ipv4 \<Rightarrow> instant \<times> ipv4 list ns_res) \<Rightarrow> ipv4 list \<Rightarrow> ns_error option
    \<Rightarrow> (instant \<times> ipv4 list) ns_res" where
  "doh_try query [] prev = Err (case prev of Some e \<Rightarrow> e | None \<Rightarrow> DnsAllServersFailed)"
| "doh_try query (ip # ips) prev =
     (case query ip of
        (now, Ok addrs) \<Rightarrow> Ok (now, addrs)
      | (now, Err e) \<Rightarrow> doh_try query ips (Some e)
      | (now, Panic) \<Rightarrow> Panic)"

definition doh_resolve ::
  "instant \<Rightarrow> (ipv4 \<Rightarrow> instant \<times> ipv4 list ns_res) \<Rightarrow> string \<Rightarrow> doh_resolver
    \<Rightarrow> ipv4 list ns_res \<times> doh_resolver" where
  "doh_resolve now query hostname r =
     (case parse_ipv4 hostname of
        Some ip \<Rightarrow> (Ok [ip], r)
      | None \<Rightarrow>
          (case (case dh_entries r hostname of
                   Some (addrs, expires_at) \<Rightarrow> if now < expires_at then Some addrs else None
                 | None \<Rightarrow> None) of
             Some addrs \<Rightarrow> (Ok addrs, r)
           | None \<Rightarrow>
               (case doh_try query (dh_ips (dh_servers r)) None of
                  Ok (t, addrs) \<Rightarrow>
                    (Ok addrs, r\<lparr>dh_entries := (dh_entries r)(hostname \<mapsto> (addrs, t + dh_ttl r))\<rparr>)
                | Err e \<Rightarrow> (Err e, r)
                | Panic \<Rightarrow> (Panic, r))))"

definition doh_resolve_addr ::
  "instant \<Rightarrow> (ipv4 \<Rightarrow> instant \<times> ipv4 list ns_res) \<Rightarrow> string \<Rightarrow> u16 \<Rightarrow> doh_resolver
    \<Rightarrow> sockaddr ns_res \<times> doh_resolver" where
  "doh_resolve_addr now query hostname port r =
     (let (addrs, r') = doh_resolve now query hostname r
      in (and_then addrs (\<lambda>as. and_then (ok_or (case as of [] \<Rightarrow> None | ip # ips \<Rightarrow> Some ip) (DnsNoRecords hostname))
            (\<lambda>ip. Ok (SA4 ip port))), r'))"

text \<open>The stream the tunnelled queries run over, after a poll of the stack: \<open>None\<close> is pending, with a wake-up in a
  millisecond; no bytes mean the end of the stream.\<close>

definition tunnel_poll_read :: "bool \<Rightarrow> nat ns_res \<Rightarrow> bool \<Rightarrow> nat ns_res option" where
  "tunnel_poll_read can_recv recv may_recv =
     (let rest = (if \<not> may_recv then Some (Ok 0) else None) in
      if can_recv then
        (case recv of
           Ok n \<Rightarrow> if 0 < n then Some (Ok n) else rest
         | Err e \<Rightarrow> Some (Err e)
         | Panic \<Rightarrow> Some Panic)
      else rest)"

definition tunnel_poll_write :: "bool \<Rightarrow> nat ns_res \<Rightarrow> bool \<Rightarrow> nat ns_res option" where
  "tunnel_poll_write can_send send may_send =
     (if can_send then Some send
      else if \<not> may_send then Some (Err (NsIo (IoError OtherKind ''Connection closed'')))
      else None)"

text \<open>One query: the request is built before anything is sent, then the connection, the handshake and the
  request end with a read loop or with an error, and the response is parsed.\<close>

definition query_doh :: "u16 \<Rightarrow> bytes ns_res \<Rightarrow> string \<Rightarrow> ipv4 list ns_res" where
  "query_doh txid exchange hostname =
     and_then (doh_build_query hostname txid) (\<lambda>query.
     and_then exchange (\<lambda>response. parse_doh_response response hostname))"

section \<open>Parsing never panics\<close>

lemma skip_dns_name_no_panic [no_panic]: "skip_dns_name data pos \<noteq> Panic"
proof (induction data pos rule: skip_dns_name.induct)
  case (1 data pos)
  then show ?case by (subst skip_dns_name.simps) (auto simp: Let_def)
qed

lemma doh_skip_questions_no_panic [no_panic]: "doh_skip_questions data n pos \<noteq> Panic"
  by (induction n arbitrary: pos) (auto simp: no_panic)

lemma be16_at_no_panic [no_panic]: "i + 1 < length data \<Longrightarrow> be16_at data i \<noteq> Panic"
  by (simp add: be16_at_def)

lemma doh_answers_no_panic [no_panic]: "doh_answers data n pos addresses \<noteq> Panic"
  by (induction n arbitrary: pos addresses) (auto simp: no_panic Let_def)

lemma parse_dns_response_no_panic [no_panic]: "parse_dns_response data hostname \<noteq> Panic"
  by (auto simp: parse_dns_response_def no_panic)

lemma find_header_end_Some:
  "find_header_end data = Some i \<longleftrightarrow>
     i + 4 \<le> length data \<and> take 4 (drop i data) = crlf2 \<and> (\<forall>j<i. take 4 (drop j data) \<noteq> crlf2)"
  by (auto simp: find_header_end_def find_Some_iff intro!: exI [of _ i])

lemma parse_doh_response_no_panic [no_panic]: "parse_doh_response response hostname \<noteq> Panic"
  by (auto simp: parse_doh_response_def Let_def no_panic find_header_end_Some)

lemma doh_answers_length: "doh_answers data n pos addresses = Ok as \<Longrightarrow> length as \<le> length addresses + n"
proof (induction n arbitrary: pos addresses)
  case (Suc n)
  have *: "doh_answers data n p (addresses @ [x]) = Ok as \<Longrightarrow> length as \<le> Suc (length addresses + n)"
    "doh_answers data n p addresses = Ok as \<Longrightarrow> length as \<le> Suc (length addresses + n)" for p x
    using Suc.IH [of p "addresses @ [x]"] Suc.IH [of p addresses] by auto
  from Suc.prems show ?case by (auto simp: Let_def split: if_splits intro: *)
qed simp

text \<open>Property. Robustness of the DNS-over-HTTPS parsers: whatever bytes a server sends, the HTTP and the DNS
  parser return and never index out of range, and a success carries at least one address.\<close>

theorem doh_parse_safe:
  "case parse_doh_response response hostname of
     Ok as \<Rightarrow> as \<noteq> [] \<and> length as < 65536
   | Err e \<Rightarrow> True
   | Panic \<Rightarrow> False"
proof (cases "parse_doh_response response hostname")
  case (Ok as)
  then obtain data n pos where "doh_answers data (unat (n :: u16)) pos [] = Ok as" "as \<noteq> []"
    by (auto simp: parse_doh_response_def parse_dns_response_def Let_def split: if_splits)
  with doh_answers_length [of data "unat n" pos "[]" as] unat_lt_65536 [of n] Ok show ?thesis by simp
qed (simp_all add: no_panic)

section \<open>The query against the resolver's own\<close>

lemma split_on_snoc: "split_on d (s @ [d]) = split_on d s @ [[]]"
  by (induction s) (auto split: list.splits)

lemma doh_push_labels_ok:
  "list_all (\<lambda>l. length l \<le> 63) ls \<Longrightarrow> doh_push_labels query ls = Ok (query @ encode_labels ls)"
  by (induction query ls rule: doh_push_labels.induct) auto

lemma skip_dns_labels:
  assumes "list_all label_ok ls"
  shows "skip_dns_name (pre @ encode_labels ls @ 0 # suf) (length pre)
    = Ok (length pre + length (encode_labels ls) + 1)"
  using assms
proof (induction ls arbitrary: pre)
  case Nil
  show ?case by (subst skip_dns_name.simps) (simp add: nth_append)
next
  case (Cons l ls)
  let ?pre = "pre @ word_of_nat (length l) # as_bytes l"
  have "skip_dns_name (?pre @ encode_labels ls @ 0 # suf) (length ?pre)
      = Ok (length ?pre + length (encode_labels ls) + 1)"
    using Cons.IH [of ?pre] Cons.prems by simp
  with Cons.prems label_byte [of l] show ?case
    by (subst skip_dns_name.simps) (simp add: nth_append Let_def)
qed

text \<open>Property. Every name without a trailing dot that the proxy's own builder accepts gives the same datagram
  here. With a trailing dot this builder, unlike that one, appends an empty label of its own, and the
  question ends one byte before its type and class.\<close>

theorem doh_query_matches:
  assumes "build_dns_query host QTYPE_A txid = Ok q"
  shows "if strip_suffix host ''.'' = None then doh_build_query host txid = Ok q
    else \<exists>q'. doh_build_query host txid = Ok q' \<and> length q' = length q + 1 \<and>
      skip_dns_name q' 12 = Ok (length q' - 5)"
proof -
  let ?ls = "split_on (CHR ''.'') (query_host host)"
  have q: "q = query_header txid @ encode_labels ?ls @ [0] @ to_be16 QTYPE_A @ to_be16 1" and ok: "list_all label_ok ?ls"
    using assms by (auto simp: build_dns_query_Ok)
  have b: "doh_build_query host txid =
      and_then (doh_push_labels (query_header txid) (split_on (CHR ''.'') host)) (\<lambda>query. Ok (query @ [0, 0, 1, 0, 1]))"
    by (simp add: doh_build_query_def query_header_def to_be16_def)
  have tail: "to_be16 QTYPE_A = [0, 1]" "to_be16 1 = [0, 1]"
    by (simp_all add: to_be16_def QTYPE_A_def)
  have short: "list_all (\<lambda>l. length l \<le> 63) ?ls" "list_all (\<lambda>l. length l \<le> 63) (?ls @ [[]])"
    using ok by (auto simp: label_ok_def list_all_iff)
  show ?thesis
  proof (cases "strip_suffix host ''.''")
    case None
    then show ?thesis
      using short(1) by (simp add: b q tail query_host_def doh_push_labels_ok)
  next
    case (Some h)
    then have h: "host = h @ ''.''" "query_host host = h"
      by (auto simp: query_host_def strip_suffix_def split: if_splits) (metis append_take_drop_id)
    let ?q = "query_header txid @ encode_labels (?ls @ [[]]) @ [0] @ [0, 1] @ [0, 1]"
    have e: "encode_labels (?ls @ [[]]) = encode_labels ?ls @ [0]" by (simp add: encode_labels_def as_bytes_def)
    have "doh_build_query host txid = Ok ?q"
      using b short(2) h split_on_snoc [of "CHR ''.''" h]
      by (simp add: doh_push_labels_ok)
    moreover have "skip_dns_name ?q 12 = Ok (length ?q - 5)"
      using skip_dns_labels [OF ok, of "query_header txid" "[0, 0, 1, 0, 1]"] by (simp add: e)
    moreover have "length ?q = length q + 1" by (simp add: e q)
    ultimately show ?thesis using Some by auto
  qed
qed

theorem doh_query_matches_witness:
  "doh_build_query ''a.io'' 7 = Ok [0, 7, 1, 0, 0, 1, 0, 0, 0, 0, 0, 0, 1, 97, 2, 105, 111, 0, 0, 1, 0, 1]
   \<and> skip_dns_name [0, 7, 1, 0, 0, 1, 0, 0, 0, 0, 0, 0, 1, 97, 2, 105, 111, 0, 0, 0, 1, 0, 1] 12 = Ok 18"
proof -
  have 1: "build_dns_query ''a.io'' QTYPE_A 7 =
      Ok [0, 7, 1, 0, 0, 1, 0, 0, 0, 0, 0, 0, 1, 97, 2, 105, 111, 0, 0, 1, 0, 1]"
    and 2: "build_dns_query ''a.io.'' QTYPE_A 7 =
      Ok [0, 7, 1, 0, 0, 1, 0, 0, 0, 0, 0, 0, 1, 97, 2, 105, 111, 0, 0, 1, 0, 1]"
    and 3: "doh_build_query ''a.io.'' 7 =
      Ok [0, 7, 1, 0, 0, 1, 0, 0, 0, 0, 0, 0, 1, 97, 2, 105, 111, 0, 0, 0, 1, 0, 1]"
    and 4: "strip_suffix ''a.io'' ''.'' = None" "strip_suffix ''a.io.'' ''.'' = Some ''a.io''"
    by code_simp+
  from doh_query_matches [OF 1] doh_query_matches [OF 2] 3 4 show ?thesis by simp
qed

section \<open>Reading a response\<close>

text \<open>What has been received when the loop stops.\<close>

fun received :: "tls_read list \<Rightarrow> bytes" where
  "received (ReadData buf # rest) = buf @ received rest"
| "received reads = []"

lemma read_response_prefix:
  "read_response response reads = Some (Ok data) \<Longrightarrow>
     \<exists>n. data = response @ received (take n reads) \<and>
       (response_complete data \<or> (n < length reads \<and> reads ! n \<in> {ReadEnd, ReadCut}))"
proof (induction response reads rule: read_response.induct)
  case (5 response buf rest)
  show ?case
  proof (cases "4 < length (response @ buf) \<and> response_complete (response @ buf)")
    case True
    with 5(2) show ?thesis by (intro exI [of _ 1]) (simp add: Let_def)
  next
    case False
    with 5 obtain n where "data = (response @ buf) @ received (take n rest)"
      "response_complete data \<or> (n < length rest \<and> rest ! n \<in> {ReadEnd, ReadCut})"
      by (auto simp: Let_def)
    then show ?thesis by (intro exI [of _ "Suc n"]) auto
  qed
qed (auto intro: exI [of _ 0])

text \<open>Property. What the read loop hands to the parser. It is what the stream has carried so far, and either
  the stream has ended or the response counts as complete: with a length header, all its bytes are
  there. Without one the loop does not wait for the end of the stream: a first read that ends with the
  headers is taken for the whole response, and the parser then rejects it as empty.\<close>

theorem doh_read_loop:
  "(read_response [] reads = Some (Ok data) \<longrightarrow>
      (\<exists>n. data = received (take n reads) \<and>
         ((n < length reads \<and> reads ! n \<in> {ReadEnd, ReadCut}) \<or>
          (\<exists>h. find_header_end data = Some h \<and>
             (\<forall>l. parse_content_length (take h data) = Some l \<longrightarrow> l \<le> length data - (h + 4))))))
   \<and> (find_header_end data = Some h \<and> length data = h + 4 \<and> 4 < length data \<and>
      parse_content_length (take h data) = None \<longrightarrow>
        read_response [] (ReadData data # rest) = Some (Ok data) \<and>
        parse_doh_response data hostname = Err (InvalidHttpResponse ''empty body''))"
proof (intro conjI impI)
  assume "read_response [] reads = Some (Ok data)"
  from read_response_prefix [OF this]
  show "\<exists>n. data = received (take n reads) \<and>
         ((n < length reads \<and> reads ! n \<in> {ReadEnd, ReadCut}) \<or>
          (\<exists>h. find_header_end data = Some h \<and>
             (\<forall>l. parse_content_length (take h data) = Some l \<longrightarrow> l \<le> length data - (h + 4))))"
    by (fastforce simp: response_complete_def split: option.splits)
next
  assume h: "find_header_end data = Some h \<and> length data = h + 4 \<and> 4 < length data \<and>
      parse_content_length (take h data) = None"
  then show "read_response [] (ReadData data # rest) = Some (Ok data)"
    by (simp add: response_complete_def)
  from h show "parse_doh_response data hostname = Err (InvalidHttpResponse ''empty body'')"
    by (simp add: parse_doh_response_def ok_or_def Let_def)
qed

definition headers_only :: bytes where
  "headers_only = as_bytes (''HTTP/1.1 200 OK'' @ [CHR 0x0D, CHR 0x0A] @ ''Connection: close'' @
     [CHR 0x0D, CHR 0x0A, CHR 0x0D, CHR 0x0A])"

theorem doh_read_loop_witness:
  "read_response [] [ReadData headers_only, ReadData [1, 2, 3], ReadEnd] = Some (Ok headers_only)
   \<and> parse_doh_response headers_only ''a.io'' = Err (InvalidHttpResponse ''empty body'')"
proof -
  have "find_header_end headers_only = Some 34" "length headers_only = 38"
    "parse_content_length (take 34 headers_only) = None"
    by code_simp+
  with doh_read_loop [of _ headers_only 34 "[ReadData [1, 2, 3], ReadEnd]" "''a.io''"] show ?thesis by simp
qed

section \<open>Answers\<close>

lemma be16_at_append: "i = length pre \<Longrightarrow> be16_at (pre @ to_be16 w @ suf) i = Ok w"
  by (simp add: be16_at_def to_be16_def nth_append)

text \<open>The address of a record: the class is not looked at.\<close>

definition rr_v4 :: "resource_record \<Rightarrow> ipv4 option" where
  "rr_v4 r = (if rr_type r = 1 \<and> length (rr_data r) = 4
     then Some (Ipv4Addr (rr_data r ! 0) (rr_data r ! 1) (rr_data r ! 2) (rr_data r ! 3)) else None)"

lemma skip_dns_pointer: "skip_dns_name (pre @ 0xC0 # b # suf) (length pre) = Ok (length pre + 2)"
  by (subst skip_dns_name.simps) (simp add: nth_append Let_def)

lemma doh_answers_one:
  assumes "skip_dns_name data pos = Ok p" "pos < length data" "p + 10 + unat n \<le> length data"
    and "be16_at data p = Ok t" "be16_at data (p + 8) = Ok n"
    and "\<And>i. i < unat n \<Longrightarrow> data ! (p + 10 + i) = d ! i"
  shows "doh_answers data (Suc k) pos as =
    doh_answers data k (p + 10 + unat n)
      (as @ (if t = 1 \<and> n = 4 then [Ipv4Addr (d ! 0) (d ! 1) (d ! 2) (d ! 3)] else []))"
proof (cases "t = 1 \<and> n = 4")
  case True
  then have "unat n = 4" by simp
  with assms(6) [of 0] assms(6) [of 1] assms(6) [of 2] assms(6) [of 3]
  have "data ! (p + 10) = d ! 0" "data ! (p + 10 + 1) = d ! 1" "data ! (p + 10 + 2) = d ! 2"
    "data ! (p + 10 + 3) = d ! 3" by simp_all
  with assms(1-5) True show ?thesis by (simp add: Let_def)
next
  case False
  with assms(1-5) show ?thesis by (auto simp: Let_def)
qed

lemma doh_answers_encode:
  assumes "list_all rr_ok rrs"
  shows "doh_answers (pre @ concat (map encode_rr rrs)) (length rrs) (length pre) as
    = Ok (as @ List.map_filter rr_v4 rrs)"
  using assms
proof (induction rrs arbitrary: pre as)
  case (Cons r rrs)
  define suf where "suf = concat (map encode_rr rrs)"
  define n :: u16 where "n = word_of_nat (length (rr_data r))"
  define p where "p = length pre"
  let ?t = "to_be16 (rr_type r)" and ?c = "to_be16 (rr_class r)" and ?n = "to_be16 n"
  let ?data = "pre @ [0xC0, 0x0C] @ ?t @ ?c @ rr_ttl r @ ?n @ rr_data r @ suf"
  have n: "unat n = length (rr_data r)" and ttl: "length (rr_ttl r) = 4"
    using Cons.prems(1) by (auto simp: n_def rr_ok_def unat_of_nat)
  have n4: "n = 4 \<longleftrightarrow> length (rr_data r) = 4" using n by (auto simp: word_unat_eq_iff)
  have *: "be16_at ?data (p + 2) = Ok (rr_type r)" "be16_at ?data (p + 2 + 8) = Ok n"
    using be16_at_append [of "p + 2" "pre @ [0xC0, 0x0C]" "rr_type r"]
      be16_at_append [of "p + 2 + 8" "pre @ [0xC0, 0x0C] @ ?t @ ?c @ rr_ttl r" n]
    by (simp_all add: ttl p_def)
  have s: "skip_dns_name ?data p = Ok (p + 2)"
    using skip_dns_pointer [of pre "0x0C" "?t @ ?c @ rr_ttl r @ ?n @ rr_data r @ suf"] by (simp add: p_def)
  have d: "?data ! (p + 2 + 10 + i) = rr_data r ! i" if "i < length (rr_data r)" for i
    using that nth_append_length_plus [of "pre @ [0xC0, 0x0C] @ ?t @ ?c @ rr_ttl r @ ?n" "rr_data r @ suf" i]
    by (simp add: ttl p_def nth_append)
  define as1 where "as1 = as @ (case rr_v4 r of Some ip \<Rightarrow> [ip] | None \<Rightarrow> [])"
  have "doh_answers ?data (Suc (length rrs)) p as = doh_answers ?data (length rrs) (p + 2 + 10 + unat n) as1"
    unfolding as1_def rr_v4_def
    by (subst doh_answers_one [OF s _ _ * d]) (simp_all add: n n4 ttl p_def)
  also have "\<dots> = Ok (as1 @ List.map_filter rr_v4 rrs)"
    using Cons.IH [of "pre @ encode_rr r" as1] Cons.prems
    by (simp add: suf_def encode_rr_def [of r] n_def [symmetric] n ttl p_def ac_simps)
  finally have "doh_answers ?data (Suc (length rrs)) p as = Ok (as1 @ List.map_filter rr_v4 rrs)" .
  moreover have "pre @ concat (map encode_rr (r # rrs)) = ?data"
    by (simp add: suf_def encode_rr_def [of r] n_def)
  moreover have "as1 @ List.map_filter rr_v4 rrs = as @ List.map_filter rr_v4 (r # rrs)"
    by (simp add: as1_def List.map_filter_simps split: option.splits)
  ultimately show ?case by (simp only: p_def length_Cons)
qed (simp add: List.map_filter_simps)

lemma header_split:
  assumes "\<forall>j<length hdr. take 4 (drop j (hdr @ crlf2)) \<noteq> crlf2"
  shows "find_header_end (hdr @ crlf2 @ body) = Some (length hdr)"
proof -
  have "take 4 (drop j (hdr @ crlf2 @ body)) = take 4 (drop j (hdr @ crlf2))" if "j < length hdr" for j
  proof -
    have "length crlf2 = 4" by (simp add: crlf2_def)
    with that show ?thesis by simp
  qed
  with assms show ?thesis by (simp add: find_header_end_Some crlf2_def)
qed

text \<open>Property. Round trip through a DNS-over-HTTPS server: for a query this builder makes for a name without a
  trailing dot, any reply with status 200 whose body is a DNS answer to that question gives exactly the
  addresses of its type A records, in order, repetitions and other classes included.\<close>

theorem doh_roundtrip:
  assumes "build_dns_query host QTYPE_A txid = Ok q"
    and "utf8_valid hdr" "str_contains (hd (str_lines (bytes_str hdr))) ''200''" "str_lines (bytes_str hdr) \<noteq> []"
    and "\<forall>j<length hdr. take 4 (drop j (hdr @ crlf2)) \<noteq> crlf2"
    and "list_all rr_ok rrs" "length rrs < 65536" "List.map_filter rr_v4 rrs \<noteq> []"
  shows "parse_doh_response (hdr @ crlf2 @ encode_reply txid (drop 12 q) rrs) host = Ok (List.map_filter rr_v4 rrs)"
proof -
  define an :: u16 where "an = word_of_nat (length rrs)"
  have an: "unat an = length rrs" using assms(7) by (simp add: an_def unat_of_nat)
  have "rrs \<noteq> []" using assms(8) by (auto simp: List.map_filter_simps)
  with an have an0: "an \<noteq> 0" by auto
  let ?ls = "split_on (CHR ''.'') (query_host host)"
  have q: "drop 12 q = encode_labels ?ls @ [0] @ to_be16 QTYPE_A @ to_be16 1" and ok: "list_all label_ok ?ls"
    using assms(1) by (auto simp: build_dns_query_Ok)
  define h where "h = to_be16 txid @ to_be16 0x8180 @ to_be16 1 @ to_be16 an @ to_be16 0 @ to_be16 0"
  define reply where "reply = h @ drop 12 q @ concat (map encode_rr rrs)"
  have reply: "encode_reply txid (drop 12 q) rrs = reply"
    by (simp add: reply_def h_def encode_reply_def an_def)
  have hl: "length h = 12" by (simp add: h_def)
  have f: "be16_at reply 2 = Ok 0x8180" "be16_at reply 4 = Ok 1" "be16_at reply 6 = Ok an" "\<not> length reply < 12"
    by (simp_all add: reply_def h_def be16_at_def to_be16_def nth_append be16_consts)
  have "doh_skip_questions reply 1 12 = Ok (12 + length (drop 12 q))"
    using skip_dns_labels [OF ok, of h "to_be16 QTYPE_A @ to_be16 1 @ concat (map encode_rr rrs)"]
    by (simp add: reply_def q hl One_nat_def)
  moreover have "doh_answers reply (unat an) (12 + length (drop 12 q)) [] = Ok (List.map_filter rr_v4 rrs)"
    using doh_answers_encode [OF assms(6), of "h @ drop 12 q" "[]"] by (simp add: reply_def an hl)
  ultimately have "parse_dns_response reply host = Ok (List.map_filter rr_v4 rrs)"
    using f an0 assms(8) by (simp add: parse_dns_response_def)
  moreover have "find_header_end (hdr @ crlf2 @ reply) = Some (length hdr)"
    using assms(5) by (rule header_split)
  moreover have "0 < length reply" "length crlf2 = 4" using hl by (simp_all add: reply_def crlf2_def)
  moreover obtain l ls where "str_lines (bytes_str hdr) = l # ls"
    using assms(4) by (cases "str_lines (bytes_str hdr)") auto
  ultimately show ?thesis
    using assms(2,3) by (simp add: parse_doh_response_def reply Let_def ok_or_def)
qed

definition ok_headers :: bytes where
  "ok_headers = as_bytes (''HTTP/1.1 200 OK'' @ [CHR 0x0D, CHR 0x0A] @ ''Content-Length: 38'')"

theorem doh_roundtrip_witness:
  "\<exists>q. build_dns_query ''a.io'' QTYPE_A 7 = Ok q \<and>
     parse_doh_response (ok_headers @ crlf2 @ encode_reply 7 (drop 12 q) witness_rrs) ''a.io'' =
       Ok [Ipv4Addr 93 184 216 34, Ipv4Addr 93 184 216 34]"
proof -
  let ?q = "[0, 7, 1, 0, 0, 1, 0, 0, 0, 0, 0, 0, 1, 97, 2, 105, 111, 0, 0, 1, 0, 1] :: bytes"
  have q: "build_dns_query ''a.io'' QTYPE_A 7 = Ok ?q" by code_simp
  have a: "List.map_filter rr_v4 witness_rrs = [Ipv4Addr 93 184 216 34, Ipv4Addr 93 184 216 34]"
    by code_simp
  have h: "utf8_valid ok_headers" "str_contains (hd (str_lines (bytes_str ok_headers))) ''200''"
    "str_lines (bytes_str ok_headers) \<noteq> []"
    "\<forall>j<length ok_headers. take 4 (drop j (ok_headers @ crlf2)) \<noteq> crlf2"
    by code_simp+
  have "list_all rr_ok witness_rrs" "length witness_rrs < 65536"
    by (simp_all add: witness_rrs_def rr_ok_def)
  from doh_roundtrip [OF q h this] a q show ?thesis by auto
qed

section \<open>The cache\<close>

lemma doh_try_first:
  "doh_try query ips prev = Ok (t, addrs) \<Longrightarrow> \<exists>ip \<in> set ips. query ip = (t, Ok addrs)"
  by (induction query ips prev rule: doh_try.induct) (auto split: prod.splits result.splits)

text \<open>Property. The resolver. A literal is answered without a query; a name is answered from the cache exactly
  while its entry is fresh, otherwise by the first server that answers, whose answer is stored for five
  minutes; a failure changes nothing, is the last server's, and no operation touches another entry.\<close>

theorem doh_resolve_cached:
  "case doh_resolve now query hostname r of
     (res, r') \<Rightarrow>
       (\<forall>name. name \<noteq> hostname \<longrightarrow> dh_entries r' name = dh_entries r name)
       \<and> (\<forall>addrs e. parse_ipv4 hostname = None \<and> dh_entries r hostname = Some (addrs, e) \<and> now < e \<longrightarrow>
            res = Ok addrs \<and> r' = r)
       \<and> (\<forall>addrs. res = Ok addrs \<and> r' \<noteq> r \<longrightarrow>
            (\<exists>ip \<in> set (dh_ips (dh_servers r)). \<exists>t. query ip = (t, Ok addrs) \<and>
               dh_entries r' hostname = Some (addrs, t + dh_ttl r)))
       \<and> (\<forall>e. res = Err e \<longrightarrow> r' = r)"
  by (auto simp: doh_resolve_def split: option.splits result.splits if_splits dest!: doh_try_first)

theorem doh_resolve_cached_witness:
  "let q = \<lambda>ip. (5, if ip = Ipv4Addr 1 0 0 1 then Ok [Ipv4Addr 9 9 9 9] else Err DnsResponseTooShort);
       r = snd (doh_resolve 0 q ''a.io'' (doh_new doh_cloudflare))
   in fst (doh_resolve 6 (\<lambda>ip. (0, Err DnsResponseTooShort)) ''a.io'' r) = Ok [Ipv4Addr 9 9 9 9]"
proof -
  let ?q = "\<lambda>ip. (5, if ip = Ipv4Addr 1 0 0 1 then Ok [Ipv4Addr 9 9 9 9] else Err DnsResponseTooShort)"
  let ?r = "snd (doh_resolve 0 ?q ''a.io'' (doh_new doh_cloudflare))"
  have p: "parse_ipv4 ''a.io'' = None" by code_simp
  have "dh_entries ?r ''a.io'' = Some ([Ipv4Addr 9 9 9 9], 5 + from_secs 300)"
    by (simp add: doh_resolve_def p doh_new_def doh_cloudflare_def)
  moreover have "6 < 5 + from_secs 300" by (simp add: from_secs_def)
  ultimately show ?thesis
    using doh_resolve_cached [where now = 6 and query = "\<lambda>ip. (0, Err DnsResponseTooShort)"
        and hostname = "''a.io''" and r = ?r] p
    by (auto simp: Let_def split: prod.splits)
qed

end
