(* ===== verification/Wg_Conf.thy ===== *)
theory Wg_Conf
  imports Doh Endpoints
begin

text \<open>
  The parser of WireGuard configuration files of the vendored \<open>wireguard-netstack/src/config.rs\<close> and the
  conversion into the configuration of a tunnel. What \<open>serde_ini\<close> extracts from the file is the input,
  base64 decoding is a parameter, and a host name is resolved by \<open>Doh\<close>.
\<close>

section \<open>Model\<close>

record raw_wg_config =
  rw_private_key :: string
  rw_address :: string
  rw_dns :: "string option"
  rw_mtu :: "u16 option"
  rw_public_key :: string
  rw_endpoint :: string
  rw_preshared_key :: "string option"
  rw_persistent_keepalive :: "u16 option"

record wg_config_file =
  wf_private_key :: bytes
  wf_address :: ipv4
  wf_dns :: "ipv4 option"
  wf_mtu :: "u16 option"
  wf_peer_public_key :: bytes
  wf_endpoint_host :: string
  wf_endpoint_port :: u16
  wf_preshared_key :: "bytes option"
  wf_persistent_keepalive :: "u16 option"

definition decode_key :: "(string \<Rightarrow> bytes option) \<Rightarrow> string \<Rightarrow> bytes ns_res" where
  "decode_key decode b64 =
     and_then (ok_or (decode b64) (InvalidKey b64)) (\<lambda>bytes.
       if length bytes = 32 then Ok bytes
       else Err (InvalidKey (''Key must be 32 bytes, got '' @ show_nat (length bytes) @ '' bytes'')))"

definition parse_u16 :: "string \<Rightarrow> u16 option" where
  "parse_u16 s = map_option word_of_nat (parse_unsigned 65535 s)"

definition parse_endpoint :: "string \<Rightarrow> (string \<times> u16) ns_res" where
  "parse_endpoint endpoint =
     (case (if starts_with endpoint ''['' then str_find endpoint '']'' else None) of
        Some bracket_end \<Rightarrow>
          let host = take (bracket_end - 1) (drop 1 endpoint);
              port_str = dropWhile (\<lambda>c. c = CHR '':'') (drop (bracket_end + 1) endpoint)
          in and_then (ok_or (parse_u16 port_str) (InvalidEndpoint endpoint)) (\<lambda>port. Ok (host, port))
      | None \<Rightarrow>
          (case rsplit_once (CHR '':'') endpoint of
             Some (host, port_str) \<Rightarrow>
               and_then (ok_or (parse_u16 port_str) (InvalidEndpoint endpoint)) (\<lambda>port. Ok (host, port))
           | None \<Rightarrow> Err (InvalidEndpoint (''Invalid endpoint format (expected host:port): '' @ endpoint))))"

definition parse_dns :: "string option \<Rightarrow> ipv4 option ns_res" where
  "parse_dns dns =
     (case dns of
        None \<Rightarrow> Ok None
      | Some d \<Rightarrow> map_res Some (ok_or (parse_ipv4 (trim (hd (split_on (CHR '','') d))))
                    (InvalidAddress ''Invalid DNS address'')))"

definition wg_parse :: "(string \<Rightarrow> bytes option) \<Rightarrow> raw_wg_config \<Rightarrow> wg_config_file ns_res" where
  "wg_parse decode raw =
     and_then (decode_key decode (rw_private_key raw)) (\<lambda>private_key.
     and_then (ok_or (parse_ipv4 (hd (split_on (CHR ''/'') (rw_address raw)))) (InvalidAddress (rw_address raw)))
       (\<lambda>address.
     and_then (parse_dns (rw_dns raw)) (\<lambda>dns.
     and_then (decode_key decode (rw_public_key raw)) (\<lambda>peer_public_key.
     and_then (parse_endpoint (rw_endpoint raw)) (\<lambda>(host, port).
     and_then (case rw_preshared_key raw of None \<Rightarrow> Ok None | Some k \<Rightarrow> map_res Some (decode_key decode k))
       (\<lambda>preshared_key.
       Ok \<lparr>wf_private_key = private_key, wf_address = address, wf_dns = dns, wf_mtu = rw_mtu raw,
           wf_peer_public_key = peer_public_key, wf_endpoint_host = host, wf_endpoint_port = port,
           wf_preshared_key = preshared_key,
           wf_persistent_keepalive = rw_persistent_keepalive raw\<rparr>))))))"

definition endpoint_text :: "wg_config_file \<Rightarrow> string" where
  "endpoint_text c = wf_endpoint_host c @ CHR '':'' # show_nat (unat (wf_endpoint_port c))"

text \<open>The resolver the conversion makes is new, so its cache is empty.\<close>

definition into_wireguard_config ::
  "instant \<Rightarrow> (ipv4 \<Rightarrow> instant \<times> ipv4 list ns_res) \<Rightarrow> doh_server_config \<Rightarrow> wg_config_file
    \<Rightarrow> wireguard_config ns_res" where
  "into_wireguard_config now query dns_config c =
     and_then
       (case parse_sockaddr (endpoint_text c) of
          Some addr \<Rightarrow> Ok addr
        | None \<Rightarrow> fst (doh_resolve_addr now query (wf_endpoint_host c) (wf_endpoint_port c) (doh_new dns_config)))
       (\<lambda>peer_endpoint.
          Ok \<lparr>wg_private_key = wf_private_key c, wg_peer_public_key = wf_peer_public_key c,
              wg_peer_endpoint = peer_endpoint, wg_peer_endpoint_candidates = [peer_endpoint],
              wg_tunnel_ip = wf_address c, wg_tunnel_ipv6 = None, wg_preshared_key = wf_preshared_key c,
              wg_keepalive_seconds = (case wf_persistent_keepalive c of Some k \<Rightarrow> Some k | None \<Rightarrow> Some 25),
              wg_mtu = wf_mtu c, wg_tcp_buffer_size = None\<rparr>)"

section \<open>Keys\<close>

lemma decode_key_length: "decode_key decode s = Ok k \<Longrightarrow> length k = 32"
  by (auto simp: decode_key_def split: if_splits)

lemma decode_key_no_panic [no_panic]: "decode_key decode s \<noteq> Panic"
  by (simp add: decode_key_def)

lemma parse_endpoint_no_panic [no_panic]: "parse_endpoint s \<noteq> Panic"
  by (auto simp: parse_endpoint_def Let_def split: option.splits)

text \<open>Property. A configuration file that parses yields keys of 32 bytes, the preshared one included, its
  addresses are those of the file up to the prefix length and the first of the DNS servers, and parsing
  never panics.\<close>

theorem wg_parse_typed:
  "case wg_parse decode raw of
     Ok c \<Rightarrow> length (wf_private_key c) = 32 \<and> length (wf_peer_public_key c) = 32 \<and>
       (\<forall>k. wf_preshared_key c = Some k \<longrightarrow> length k = 32) \<and>
       parse_ipv4 (hd (split_on (CHR ''/'') (rw_address raw))) = Some (wf_address c) \<and>
       parse_endpoint (rw_endpoint raw) = Ok (wf_endpoint_host c, wf_endpoint_port c) \<and>
       parse_dns (rw_dns raw) = Ok (wf_dns c)
   | Err e \<Rightarrow> True
   | Panic \<Rightarrow> False"
proof (cases "wg_parse decode raw")
  case Panic
  then show ?thesis
    by (auto simp: wg_parse_def parse_dns_def no_panic split: option.splits prod.splits)
next
  case (Ok c)
  then have "length (wf_private_key c) = 32 \<and> length (wf_peer_public_key c) = 32 \<and>
       (\<forall>k. wf_preshared_key c = Some k \<longrightarrow> length k = 32) \<and>
       parse_ipv4 (hd (split_on (CHR ''/'') (rw_address raw))) = Some (wf_address c) \<and>
       parse_endpoint (rw_endpoint raw) = Ok (wf_endpoint_host c, wf_endpoint_port c) \<and>
       parse_dns (rw_dns raw) = Ok (wf_dns c)"
    by (auto simp: wg_parse_def decode_key_length split: option.splits prod.splits)
  with Ok show ?thesis by simp
qed simp

section \<open>Endpoints\<close>

lemma parse_u16_show [simp]: "parse_u16 (show_nat (unat (p :: u16))) = Some p"
  using unat_lt_65536 [of p] by (simp add: parse_u16_def)

lemma show_nat_no_colon: "CHR '':'' \<notin> set (show_nat n)"
  using show_nat_digits [of "CHR '':''" n] by (auto simp: is_digit_def)

lemma dropWhile_colons_show: "dropWhile (\<lambda>c. c = CHR '':'') (show_nat n) = show_nat n"
  by (cases "show_nat n") (use show_nat_no_colon [of n] in auto)

lemma find_bracket: "CHR '']'' \<notin> set h \<Longrightarrow> str_find (h @ CHR '']'' # s) '']'' = Some (length h)"
  by (induction h) (auto simp: starts_with_def)

text \<open>Property. Endpoints parse back: a name or an IPv4 address with its port, and an IPv6 address in
  brackets with its port.\<close>

theorem parse_endpoint_roundtrip:
  "(CHR '':'' \<notin> set h \<and> \<not> starts_with h ''['' \<longrightarrow>
      parse_endpoint (h @ CHR '':'' # show_nat (unat p)) = Ok (h, p))
   \<and> (CHR '']'' \<notin> set h \<longrightarrow>
      parse_endpoint (CHR ''['' # h @ CHR '']'' # CHR '':'' # show_nat (unat p)) = Ok (h, p))"
proof (intro conjI impI)
  assume "CHR '':'' \<notin> set h \<and> \<not> starts_with h ''[''"
  then have "\<not> starts_with (h @ CHR '':'' # show_nat (unat p)) ''[''" by (cases h) (auto simp: starts_with_def)
  then show "parse_endpoint (h @ CHR '':'' # show_nat (unat p)) = Ok (h, p)"
    using rsplit_once_append [OF show_nat_no_colon [of "unat p"], of h] by (simp add: parse_endpoint_def ok_or_def)
next
  assume "CHR '']'' \<notin> set h"
  then show "parse_endpoint (CHR ''['' # h @ CHR '']'' # CHR '':'' # show_nat (unat p)) = Ok (h, p)"
    using find_bracket [of h "CHR '':'' # show_nat (unat p)"]
    by (simp add: parse_endpoint_def starts_with_def ok_or_def Let_def dropWhile_colons_show)
qed

theorem parse_endpoint_roundtrip_witness:
  "parse_endpoint ''example.com:51820'' = Ok (''example.com'', 51820)
   \<and> parse_endpoint ''[::1]:51820'' = Ok (''::1'', 51820)"
proof -
  have n: "show_nat (unat (51820 :: u16)) = ''51820''" by (simp add: show_nat.simps digit_chars)
  have h: "\<not> starts_with ''example.com'' ''[''" by code_simp
  show ?thesis
    using parse_endpoint_roundtrip [of "''example.com''" 51820] parse_endpoint_roundtrip [of "''::1''" 51820] h
    unfolding n by simp
qed

section \<open>Resolution\<close>

text \<open>What the parsers of the standard library consume.\<close>

lemma read_digits_suffix: "radix \<le> 36 \<Longrightarrow> \<exists>ds. s = ds @ snd (read_digits radix s) \<and> CHR '':'' \<notin> set ds"
proof (induction s)
  case (Cons c cs)
  show ?case
  proof (cases "to_digit radix c")
    case None
    then show ?thesis by simp
  next
    case (Some d)
    then have "c \<noteq> CHR '':''" using Cons.prems by (auto simp: to_digit_def Let_def split: if_splits)
    moreover obtain ds where "cs = ds @ snd (read_digits radix cs)" "CHR '':'' \<notin> set ds"
      using Cons by blast
    ultimately show ?thesis
      using Some by (cases "read_digits radix cs") (auto intro!: exI [of _ "c # ds"])
  qed
qed simp

lemma read_number_suffix:
  assumes "read_number radix m z t s = Some (v, rest)" "radix \<le> 36"
  shows "\<exists>ds. s = ds @ rest \<and> CHR '':'' \<notin> set ds"
  using read_digits_suffix [OF assms(2), of s] assms(1)
  by (auto simp: read_number_def Let_def split: prod.splits if_splits option.splits)

lemma read_octet_suffix: "read_octet i s = Some (v, rest) \<Longrightarrow> \<exists>ds. s = ds @ rest \<and> CHR '':'' \<notin> set ds"
proof -
  assume r: "read_octet i s = Some (v, rest)"
  show ?thesis
  proof (cases "i = 0")
    case True
    with r show ?thesis by (auto simp: read_octet_def read_separator_def dest: read_number_suffix)
  next
    case False
    with r obtain s' where s': "s = CHR ''.'' # s'" "read_number 10 (Some 3) False 255 s' = Some (v, rest)"
      by (cases s) (auto simp: read_octet_def read_separator_def split: if_splits)
    then obtain ds where "s' = ds @ rest" "CHR '':'' \<notin> set ds" by (auto dest: read_number_suffix)
    with s' show ?thesis by (intro exI [of _ "CHR ''.'' # ds"]) simp
  qed
qed

lemma read_ipv4_suffix: "read_ipv4 s = Some (ip, rest) \<Longrightarrow> \<exists>ds. s = ds @ rest \<and> CHR '':'' \<notin> set ds"
proof -
  assume "read_ipv4 s = Some (ip, rest)"
  then obtain a b c d s1 s2 s3 where "read_octet 0 s = Some (a, s1)" "read_octet 1 s1 = Some (b, s2)"
    "read_octet 2 s2 = Some (c, s3)" "read_octet 3 s3 = Some (d, rest)"
    by (auto simp: read_ipv4_def split: option.splits)
  from this [THEN read_octet_suffix]
  obtain x1 x2 x3 x4 where "s = x1 @ s1" "s1 = x2 @ s2" "s2 = x3 @ s3" "s3 = x4 @ rest"
    "CHR '':'' \<notin> set x1" "CHR '':'' \<notin> set x2" "CHR '':'' \<notin> set x3" "CHR '':'' \<notin> set x4" by blast
  then show ?thesis by (intro exI [of _ "x1 @ x2 @ x3 @ x4"]) simp
qed

lemma one_colon_v4:
  assumes "read_sockaddr_v4 s = Some (a, [])"
  shows "count_list s (CHR '':'') = 1"
proof -
  obtain ip s1 p where ip: "read_ipv4 s = Some (ip, s1)" and p: "read_port s1 = Some (p, [])"
    using assms by (auto simp: read_sockaddr_v4_def split: option.splits)
  from read_ipv4_suffix [OF ip] obtain x where x: "s = x @ s1" "CHR '':'' \<notin> set x" by blast
  from p obtain s2 where s2: "s1 = CHR '':'' # s2" "read_number 10 None True 65535 s2 = Some (p, [])"
    by (cases s1) (auto simp: read_port_def split: if_splits)
  from read_number_suffix [OF s2(2)] have "CHR '':'' \<notin> set s2" by auto
  with x s2 show ?thesis by simp
qed

lemma bare_colons_do_not_parse:
  assumes "CHR '':'' \<in> set h" "\<not> starts_with h ''[''"
  shows "parse_sockaddr (h @ CHR '':'' # t) = None"
proof -
  have "read_char (CHR ''['') (h @ CHR '':'' # t) = None"
    using assms(2) by (cases h) (auto simp: starts_with_def)
  then have 6: "read_sockaddr_v6 (h @ CHR '':'' # t) = None" by (simp add: read_sockaddr_v6_def)
  have "1 \<le> count_list h (CHR '':'')"
    using assms(1) count_list_0_iff [of h "CHR '':''"] by (simp add: Suc_le_eq)
  then have "count_list (h @ CHR '':'' # t) (CHR '':'') \<noteq> 1" by simp
  then have "read_sockaddr_v4 (h @ CHR '':'' # t) \<noteq> Some (a, [])" for a
    using one_colon_v4 by blast
  then have "parse_with (read_sockaddr_v4 (h @ CHR '':'' # t)) = None"
    by (cases "read_sockaddr_v4 (h @ CHR '':'' # t)" rule: parse_with.cases) auto
  then show ?thesis
    by (cases "read_sockaddr_v4 (h @ CHR '':'' # t)") (simp_all add: parse_sockaddr_def 6)
qed

text \<open>Property. How the endpoint of a file is resolved. An IPv4 address is used as it is, whatever the resolver
  would say. An IPv6 address loses its brackets when the file is parsed, so its text with the port is no
  socket address: it is sent to the resolver as if it were a host name, and the endpoint, if there is
  one at all, is the IPv4 address of whatever answered.\<close>

theorem endpoint_resolution:
  "(wf_endpoint_host c = show_ipv4 ip \<longrightarrow>
      (\<exists>cfg. into_wireguard_config now query dns c = Ok cfg \<and> wg_peer_endpoint cfg = SA4 ip (wf_endpoint_port c)))
   \<and> (CHR '':'' \<in> set (wf_endpoint_host c) \<and> \<not> starts_with (wf_endpoint_host c) ''['' \<longrightarrow>
      (\<forall>cfg. into_wireguard_config now query dns c = Ok cfg \<longrightarrow>
         (\<exists>ips. fst (doh_resolve now query (wf_endpoint_host c) (doh_new dns)) = Ok ips \<and> ips \<noteq> [] \<and>
            wg_peer_endpoint cfg = SA4 (hd ips) (wf_endpoint_port c))))"
proof (intro conjI impI allI)
  assume "wf_endpoint_host c = show_ipv4 ip"
  then have "parse_sockaddr (endpoint_text c) = Some (SA4 ip (wf_endpoint_port c))"
    by (simp add: endpoint_text_def)
  then show "\<exists>cfg. into_wireguard_config now query dns c = Ok cfg \<and> wg_peer_endpoint cfg = SA4 ip (wf_endpoint_port c)"
    by (simp add: into_wireguard_config_def)
next
  fix cfg
  assume h: "CHR '':'' \<in> set (wf_endpoint_host c) \<and> \<not> starts_with (wf_endpoint_host c) ''[''"
    and cfg: "into_wireguard_config now query dns c = Ok cfg"
  have "parse_sockaddr (endpoint_text c) = None"
    using bare_colons_do_not_parse h by (simp add: endpoint_text_def)
  with cfg show "\<exists>ips. fst (doh_resolve now query (wf_endpoint_host c) (doh_new dns)) = Ok ips \<and> ips \<noteq> [] \<and>
            wg_peer_endpoint cfg = SA4 (hd ips) (wf_endpoint_port c)"
    by (auto simp: into_wireguard_config_def doh_resolve_addr_def Let_def neq_Nil_conv
        split: prod.splits list.split_asm)
qed

definition v6_file :: raw_wg_config where
  "v6_file = \<lparr>rw_private_key = ''k'', rw_address = ''10.0.0.2/32'', rw_dns = None, rw_mtu = None,
     rw_public_key = ''k'', rw_endpoint = ''[::1]:51820'', rw_preshared_key = None,
     rw_persistent_keepalive = None\<rparr>"

theorem endpoint_resolution_witness:
  "\<exists>c. wg_parse (\<lambda>s. Some (replicate 32 7)) v6_file = Ok c \<and> wf_endpoint_host c = ''::1'' \<and>
     (\<nexists>cfg. into_wireguard_config 0 (\<lambda>ip. (0, Err DnsResponseTooShort)) doh_cloudflare c = Ok cfg)"
proof -
  have n: "show_nat (unat (51820 :: u16)) = ''51820''" by (simp add: show_nat.simps digit_chars)
  have e: "parse_endpoint ''[::1]:51820'' = Ok (''::1'', 51820)"
    using parse_u16_show [of 51820] unfolding n by (simp add: parse_endpoint_def starts_with_def Let_def ok_or_def)
  have a: "parse_ipv4 (hd (split_on (CHR ''/'') ''10.0.0.2/32'')) = Some (Ipv4Addr 10 0 0 2)" by code_simp
  obtain c where c: "wg_parse (\<lambda>s. Some (replicate 32 7)) v6_file = Ok c" "wf_endpoint_host c = ''::1''"
    using a e by (simp add: wg_parse_def v6_file_def decode_key_def ok_or_def parse_dns_def)
  have "fst (doh_resolve 0 (\<lambda>ip. (0, Err DnsResponseTooShort)) ''::1'' (doh_new doh_cloudflare)) = Err DnsResponseTooShort"
  proof -
    have "parse_ipv4 ''::1'' = None" by code_simp
    then show ?thesis by (simp add: doh_resolve_def doh_new_def doh_cloudflare_def)
  qed
  then have "\<nexists>cfg. into_wireguard_config 0 (\<lambda>ip. (0, Err DnsResponseTooShort)) doh_cloudflare c = Ok cfg"
    using endpoint_resolution [where c = c and now = 0 and dns = doh_cloudflare
        and query = "\<lambda>ip. (0, Err DnsResponseTooShort)"] c(2)
    by (auto simp: starts_with_def)
  with c show ?thesis by blast
qed

end
