(* ===== verification/Process.thy ===== *)
theory Process
  imports Service
begin

text \<open>
  The edges of the process: \<open>Config::load\<close> with its three layers (\<open>src/config.rs\<close>), the signal task
  (\<open>src/signals.rs\<close>), the log filter (\<open>src/telemetry.rs\<close>), the metrics service and its routes
  (\<open>src/metrics.rs\<close>), the spawned watcher (\<open>src/config_watch.rs\<close>), and \<open>main\<close> with the drain of the
  services and the exit code (\<open>src/main.rs\<close>).
\<close>

section \<open>Configuration layers\<close>

text \<open>What \<open>Config::load\<close> uses of figment, over an abstract type of layered values.\<close>

record 'f figment =
  fg_defaults :: 'f
  fg_toml :: "path \<Rightarrow> 'f"
  fg_env :: 'f
  fg_merge :: "'f \<Rightarrow> 'f \<Rightarrow> 'f"
  fg_extract :: "'f \<Rightarrow> config option"

definition config_layers :: "'f figment \<Rightarrow> (path \<Rightarrow> bool) \<Rightarrow> path option \<Rightarrow> 'f" where
  "config_layers fg exists path =
     (let fig = (case path of
                   Some p \<Rightarrow> if exists p then fg_merge fg (fg_defaults fg) (fg_toml fg p) else fg_defaults fg
                 | None \<Rightarrow> fg_defaults fg)
      in fg_merge fg fig (fg_env fg))"

definition config_load :: "'f figment \<Rightarrow> (path \<Rightarrow> bool) \<Rightarrow> path option \<Rightarrow> config res" where
  "config_load fg exists path =
     (case fg_extract fg (config_layers fg exists path) of Some cfg \<Rightarrow> Ok cfg | None \<Rightarrow> Err Figment)"

section \<open>Signals, logging, metrics\<close>

text \<open>\<open>wait_for_signal\<close>: registering the two handlers may fail; then the first signal ends the wait.\<close>

datatype signal = SigTerm | SigInt

definition wait_for_signal :: "io_error option \<Rightarrow> io_error option \<Rightarrow> signal option \<Rightarrow> (unit, io_error) result option" where
  "wait_for_signal term_fault int_fault delivered =
     (case term_fault of
        Some e \<Rightarrow> Some (Err e)
      | None \<Rightarrow>
          (case int_fault of
             Some e \<Rightarrow> Some (Err e)
           | None \<Rightarrow> (case delivered of Some s \<Rightarrow> Some (Ok ()) | None \<Rightarrow> None)))"

text \<open>The task of \<open>signals::install\<close>: whether the token is cancelled. A handler that cannot be installed
  stops the process as well.\<close>

definition signal_task :: "io_error option \<Rightarrow> io_error option \<Rightarrow> signal option \<Rightarrow> bool" where
  "signal_task term_fault int_fault delivered =
     (case wait_for_signal term_fault int_fault delivered of None \<Rightarrow> False | Some r \<Rightarrow> True)"

text \<open>\<open>RUST_LOG\<close> decides if it is set and parses, else the configured level.\<close>

definition log_filter :: "'a option \<Rightarrow> (string \<Rightarrow> 'a) \<Rightarrow> logging_config \<Rightarrow> 'a" where
  "log_filter from_env new cfg = (case from_env of Some f \<Rightarrow> f | None \<Rightarrow> new (log_level cfg))"

record fmt_layer =
  fl_json :: bool
  fl_compact :: bool
  fl_target :: bool
  fl_current_span :: bool

definition fmt_layer_of :: "logging_config \<Rightarrow> fmt_layer" where
  "fmt_layer_of cfg =
     (case log_fmt cfg of
        LogPretty \<Rightarrow> \<lparr>fl_json = False, fl_compact = False, fl_target = True, fl_current_span = True\<rparr>
      | LogCompact \<Rightarrow> \<lparr>fl_json = False, fl_compact = True, fl_target = True, fl_current_span = True\<rparr>
      | LogJson \<Rightarrow> \<lparr>fl_json = True, fl_compact = False, fl_target = True, fl_current_span = False\<rparr>)"

section \<open>The metrics service\<close>

text \<open>The routes of the metrics server; \<open>None\<close> is a path it does not have. \<open>rendered\<close> is what the exporter
  renders.\<close>

definition metrics_route :: "bool \<Rightarrow> string \<Rightarrow> string \<Rightarrow> (nat \<times> string) option" where
  "metrics_route healthy rendered path =
     (if path = ''/metrics'' then Some (200, rendered)
      else if path = ''/livez'' then Some (200, ''ok'')
      else if path = ''/healthz'' then
        (if healthy then Some (200, ''ok'') else Some (503, ''tunnel unhealthy''))
      else None)"

text \<open>\<open>served\<close> is how the server ends: \<open>None\<close> if it does not. Its error is only logged.\<close>

definition metrics_serve ::
  "metrics_config \<Rightarrow> (unit, io_error) result \<Rightarrow> (unit, io_error) result option \<Rightarrow> unit res option" where
  "metrics_serve cfg bind served =
     (if \<not> mc_enabled cfg then Some (Ok ())
      else case bind of
          Err e \<Rightarrow> Some (Err (Io e))
        | Panic \<Rightarrow> Some Panic
        | Ok u \<Rightarrow> (case served of None \<Rightarrow> None | Some r \<Rightarrow> Some (Ok ())))"

section \<open>The watcher task\<close>

text \<open>The callback of the notifier puts its events into a queue of 128 and drops what does not fit.\<close>

definition WATCH_QUEUE :: nat where "WATCH_QUEUE = 128"

definition watch_enqueue :: "'e list \<Rightarrow> 'e \<Rightarrow> 'e list" where
  "watch_enqueue q res = (if length q < WATCH_QUEUE then q @ [res] else q)"

datatype watch_input = WatchCancel | WatchEvent instant "notify_event option" | WatchClosed

text \<open>The loop of the task: the times of the reloads, and whether the task has ended.\<close>

fun watch_loop :: "path \<Rightarrow> instant option \<Rightarrow> watch_input list \<Rightarrow> instant list \<times> bool" where
  "watch_loop p last_kicked [] = ([], False)"
| "watch_loop p last_kicked (WatchCancel # ins) = ([], True)"
| "watch_loop p last_kicked (WatchClosed # ins) = ([], True)"
| "watch_loop p last_kicked (WatchEvent now evt # ins) =
     (let (reload, last') = watch_event p now evt last_kicked;
          (reloads, ended) = watch_loop p last' ins
      in ((if reload then [now] else []) @ reloads, ended))"

text \<open>\<open>run\<close> of the watcher, \<open>None\<close> while it runs: creating the notifier or watching the directory may
  fail. \<open>spawn\<close> only logs the failure.\<close>

definition watcher_run ::
  "(unit, 'n) result \<Rightarrow> (unit, 'n) result \<Rightarrow> path \<Rightarrow> watch_input list \<Rightarrow> instant list \<times> (unit, 'n) result option" where
  "watcher_run create watch p ins =
     (case create of
        Ok u \<Rightarrow>
          (case watch of
             Ok v \<Rightarrow> (let (reloads, ended) = watch_loop p None ins
                      in (reloads, if ended then Some (Ok ()) else None))
           | r \<Rightarrow> ([], Some r))
      | r \<Rightarrow> ([], Some r))"

section \<open>The end of the process\<close>

text \<open>After the stop every service gets five seconds together. \<open>ends\<close> has, for each service, how long it
  takes to stop, \<open>None\<close> if it never does; a service that takes longer is aborted.\<close>

definition SHUTDOWN_GRACE :: duration where "SHUTDOWN_GRACE = from_secs 5"

record drain_report =
  dr_waited :: duration
  dr_stopped :: "string list"
  dr_aborted :: "string list"

definition in_grace :: "duration option \<Rightarrow> bool" where
  "in_grace t = (case t of Some d \<Rightarrow> d < SHUTDOWN_GRACE | None \<Rightarrow> False)"

fun drain_time :: "(string \<times> duration option) list \<Rightarrow> duration" where
  "drain_time [] = 0"
| "drain_time ((name, Some d) # ends) = max d (drain_time ends)"
| "drain_time ((name, None) # ends) = SHUTDOWN_GRACE"

definition drain_services :: "(string \<times> duration option) list \<Rightarrow> drain_report" where
  "drain_services ends =
     \<lparr>dr_waited = min (drain_time ends) SHUTDOWN_GRACE,
      dr_stopped = map fst (filter (in_grace \<circ> snd) ends),
      dr_aborted = map fst (filter (Not \<circ> in_grace \<circ> snd) ends)\<rparr>"

text \<open>The services of a start and when they stop. The one whose end the select took is over.\<close>

definition stop_times ::
  "service_end \<Rightarrow> (string \<Rightarrow> duration option) \<Rightarrow> config \<Rightarrow> (string \<times> duration option) list" where
  "stop_times stop ends cfg =
     map (\<lambda>name. (name,
         case stop of ServiceReturned n r \<Rightarrow> if n = name then Some 0 else ends name | e \<Rightarrow> ends name))
       (started_services cfg)"

text \<open>The exit code of \<open>main\<close>: an error is printed and exits with 1; a panic of the main task exits with
  101.\<close>

definition exit_code :: "'a res \<Rightarrow> nat" where
  "exit_code r = (case r of Ok u \<Rightarrow> 0 | Err e \<Rightarrow> 1 | Panic \<Rightarrow> 101)"

text \<open>\<open>run\<close> as a whole: the outside of the start-up, what the select takes, and how the services
  that are left stop.\<close>

record process_end =
  pe_result :: "unit res"
  pe_account :: account_manager
  pe_drain :: "drain_report option"

definition run_process ::
  "json_codec \<Rightarrow> 'f figment \<Rightarrow> (path \<Rightarrow> bool) \<Rightarrow> path \<Rightarrow> 'm launch_env \<Rightarrow> account_manager \<Rightarrow>
     service_end \<Rightarrow> (string \<Rightarrow> duration option) \<Rightarrow> (config \<times> 'm supervisor) option \<times> process_end" where
  "run_process js fg exists p env m stop ends =
     (case launch js (env\<lparr>le_load := config_load fg exists (Some p)\<rparr>) m of
        (Ok (cfg, s), m1) \<Rightarrow>
          (case shutdown stop s of
             (r, s1) \<Rightarrow> (Some (cfg, s1),
                \<lparr>pe_result = r, pe_account = m1, pe_drain = Some (drain_services (stop_times stop ends cfg))\<rparr>))
      | (Err e, m1) \<Rightarrow> (None, \<lparr>pe_result = Err e, pe_account = m1, pe_drain = None\<rparr>)
      | (Panic, m1) \<Rightarrow> (None, \<lparr>pe_result = Panic, pe_account = m1, pe_drain = None\<rparr>))"

section \<open>Properties\<close>

text \<open>\<open>get\<close> reads one setting, by the path of its keys, out of layered values. A layer that is merged later
  decides the settings it has.\<close>

definition right_biased :: "('f \<Rightarrow> string list \<Rightarrow> 'v option) \<Rightarrow> 'f figment \<Rightarrow> bool" where
  "right_biased get fg \<longleftrightarrow> (\<forall>a b. get (fg_merge fg a b) = get a ++ get b)"

text \<open>Property. The layers of the configuration. A setting comes from the environment if it has it, else
  from the configuration file if that exists, else from the defaults; without a file the process
  starts with the environment over the defaults instead of failing.\<close>

theorem config_layers_decide:
  fixes get :: "'f \<Rightarrow> string list \<Rightarrow> 'v option"
  assumes "right_biased get fg"
  shows "get (config_layers fg exists (Some p)) key =
    (case get (fg_env fg) key of
       Some v \<Rightarrow> Some v
     | None \<Rightarrow>
         (case (if exists p then get (fg_toml fg p) key else None) of
            Some v \<Rightarrow> Some v
          | None \<Rightarrow> get (fg_defaults fg) key))"
  using assms by (auto simp: right_biased_def config_layers_def map_add_def split: option.splits)

theorem config_layers_decide_witness:
  "\<exists>(fg :: (string list \<Rightarrow> string option) figment) p.
     config_layers fg (\<lambda>q. True) (Some p) [''warp'', ''mtu''] = Some ''1280'' \<and>
     config_layers fg (\<lambda>q. True) (Some p) [''logging'', ''level''] = Some ''debug'' \<and>
     config_layers fg (\<lambda>q. False) (Some p) [''logging'', ''level''] = Some ''info''"
proof -
  let ?fg = "\<lparr>fg_defaults = [[''warp'', ''mtu''] \<mapsto> ''1420'', [''logging'', ''level''] \<mapsto> ''info''],
      fg_toml = (\<lambda>p. [[''warp'', ''mtu''] \<mapsto> ''1400'', [''logging'', ''level''] \<mapsto> ''debug'']),
      fg_env = [[''warp'', ''mtu''] \<mapsto> ''1280''], fg_merge = (++), fg_extract = (\<lambda>f. None)\<rparr>
    :: (string list \<Rightarrow> string option) figment"
  have "right_biased (\<lambda>f. f) ?fg" by (simp add: right_biased_def)
  note d = config_layers_decide [OF this, of _ "[''config.toml'']"]
  show ?thesis
    by (rule exI [of _ ?fg], rule exI [of _ "[''config.toml'']"]) (simp add: d)
qed

lemma exit_result_cases:
  "e \<in> set (ready_ends cancelled finished) \<Longrightarrow>
     (e = Cancelled \<and> cancelled \<and> exit_result e = Ok ()) \<or> (e \<noteq> Cancelled \<and> (\<exists>err. exit_result e = Err err))"
  by (auto simp: ready_ends_def exit_result_def split: if_splits result.splits)

lemma drain_time_grace:
  "list_all (in_grace \<circ> snd) ends \<Longrightarrow> drain_time ends < SHUTDOWN_GRACE"
  by (induction ends rule: drain_time.induct)
    (auto simp: in_grace_def SHUTDOWN_GRACE_def from_secs_def)

lemma drain_time_late:
  "\<not> list_all (in_grace \<circ> snd) ends \<Longrightarrow> SHUTDOWN_GRACE \<le> drain_time ends"
  by (induction ends rule: drain_time.induct) (auto simp: in_grace_def)

lemma drain_services_total:
  "mset (dr_stopped (drain_services ends)) + mset (dr_aborted (drain_services ends)) = mset (map fst ends)"
  by (induction ends) (auto simp: drain_services_def)

lemma drain_services_waits:
  "dr_aborted (drain_services ends) = [] \<longleftrightarrow> dr_waited (drain_services ends) < SHUTDOWN_GRACE"
proof -
  have "dr_aborted (drain_services ends) = [] \<longleftrightarrow> list_all (in_grace \<circ> snd) ends"
    by (auto simp: drain_services_def list_all_iff filter_empty_conv)
  then show ?thesis
    using drain_time_grace [of ends] drain_time_late [of ends]
    by (cases "list_all (in_grace \<circ> snd) ends") (simp_all add: drain_services_def)
qed

text \<open>C40. The process from start to exit. After a successful start it exits with 0 exactly when the
  main task's select took the stop: that is so when the stop is signalled and no service has finished by
  then, it is never so without a stop, and when both are ready the select may take either; a finished
  service exits with 1. A start that failed exits with another code than 0 and has started nothing. After
  a successful start, whatever ended it, the tunnel is closed, every service has stopped or was aborted,
  none is counted twice, and the wait took less than five seconds unless a service had to be aborted, when
  it took five.\<close>

theorem process_ends_cleanly:
  assumes "stop \<in> set (ready_ends cancelled finished)"
  shows "case run_process js fg exists p env m stop ends of
      (Some (cfg, s), pe) \<Rightarrow>
        exit_code (pe_result pe) = (if stop = Cancelled then 0 else 1) \<and>
        (cancelled \<and> finished = [] \<longrightarrow> exit_code (pe_result pe) = 0) \<and>
        (\<not> cancelled \<longrightarrow> exit_code (pe_result pe) = 1) \<and>
        tunnel_abs (sv_tunnel s) = None \<and>
        (\<exists>d. pe_drain pe = Some d \<and>
          mset (dr_stopped d) + mset (dr_aborted d) = mset (started_services cfg) \<and>
          dr_waited d \<le> from_secs 5 \<and> (dr_waited d < from_secs 5 \<longleftrightarrow> dr_aborted d = []))
    | (None, pe) \<Rightarrow> exit_code (pe_result pe) \<noteq> 0 \<and> pe_drain pe = None"
proof (cases "fst (launch js (env\<lparr>le_load := config_load fg exists (Some p)\<rparr>) m)")
  case (Ok x)
  obtain c s m1 where l: "launch js (env\<lparr>le_load := config_load fg exists (Some p)\<rparr>) m = (result.Ok (c, s), m1)"
    using Ok by (cases x; cases "launch js (env\<lparr>le_load := config_load fg exists (Some p)\<rparr>) m") simp
  define ts where "ts = stop_times stop ends c"
  have d: "dr_waited (drain_services ts) \<le> from_secs 5"
    by (simp add: drain_services_def SHUTDOWN_GRACE_def)
  have x: "exit_code (exit_result stop) = (if stop = Cancelled then 0 else 1)"
    "cancelled \<and> finished = [] \<longrightarrow> stop = Cancelled" "\<not> cancelled \<longrightarrow> stop \<noteq> Cancelled"
    using exit_result_cases [OF assms(1)] assms(1) by (auto simp: exit_code_def ready_ends_def)
  have r: "run_process js fg exists p env m stop ends =
      (Some (c, s\<lparr>sv_tunnel := clear (sv_tunnel s)\<rparr>),
       \<lparr>pe_result = exit_result stop, pe_account = m1, pe_drain = Some (drain_services ts)\<rparr>)"
    by (simp add: run_process_def l shutdown_def ts_def)
  have w: "mset (dr_stopped (drain_services ts)) + mset (dr_aborted (drain_services ts)) =
      mset (started_services c)"
    unfolding drain_services_total by (simp add: ts_def stop_times_def comp_def)
  show ?thesis
    using x d w drain_services_waits [of ts] unfolding r SHUTDOWN_GRACE_def by auto
next
  case (Err e)
  then have "run_process js fg exists p env m stop ends =
      (None, \<lparr>pe_result = result.Err e,
        pe_account = snd (launch js (env\<lparr>le_load := config_load fg exists (Some p)\<rparr>) m), pe_drain = None\<rparr>)"
    by (cases "launch js (env\<lparr>le_load := config_load fg exists (Some p)\<rparr>) m") (simp add: run_process_def)
  then show ?thesis by (simp add: exit_code_def)
next
  case Panic
  then have "run_process js fg exists p env m stop ends =
      (None, \<lparr>pe_result = result.Panic,
        pe_account = snd (launch js (env\<lparr>le_load := config_load fg exists (Some p)\<rparr>) m), pe_drain = None\<rparr>)"
    by (cases "launch js (env\<lparr>le_load := config_load fg exists (Some p)\<rparr>) m") (simp add: run_process_def)
  then show ?thesis by (simp add: exit_code_def)
qed

definition example_figment :: "config figment" where
  "example_figment = \<lparr>fg_defaults = default_config None, fg_toml = (\<lambda>p. default_config None),
     fg_env = default_config None, fg_merge = (\<lambda>a b. b), fg_extract = Some\<rparr>"

theorem process_ends_cleanly_witness:
  "\<exists>c s pe d. run_process example_codec example_figment (\<lambda>q. True) [''config.toml''] example_launch empty_manager
       Cancelled [''supervisor'' \<mapsto> from_secs 1, ''metrics'' \<mapsto> 0] = (Some (c, s), pe) \<and>
     exit_code (pe_result pe) = 0 \<and> tunnel_abs (sv_tunnel s) = None \<and>
     pe_drain pe = Some d \<and> ''SOCKS5'' \<in> set (dr_aborted d) \<and> \<not> dr_waited d < from_secs 5"
proof -
  let ?ends = "[''supervisor'' \<mapsto> from_secs 1, ''metrics'' \<mapsto> 0]"
  have "le_load example_launch = config_load example_figment (\<lambda>q. True) (Some [''config.toml''])"
    by (simp add: example_launch_def config_load_def config_layers_def example_figment_def)
  then have e: "example_launch\<lparr>le_load := config_load example_figment (\<lambda>q. True) (Some [''config.toml''])\<rparr> =
      example_launch"
    by (cases example_launch) simp
  obtain c s m' where l: "launch example_codec example_launch empty_manager = (Ok (c, s), m')"
    by (rule example_launch_Ok)
  have a: "Cancelled \<in> set (ready_ends True [])" by (simp add: ready_ends_def)
  have r: "run_process example_codec example_figment (\<lambda>q. True) [''config.toml''] example_launch empty_manager
      Cancelled ?ends = (Some (c, s\<lparr>sv_tunnel := clear (sv_tunnel s)\<rparr>),
        \<lparr>pe_result = Ok (), pe_account = m', pe_drain = Some (drain_services (stop_times Cancelled ?ends c))\<rparr>)"
    by (simp add: run_process_def e l shutdown_def exit_result_def)
  have n: "''SOCKS5'' \<in> set (dr_aborted (drain_services (stop_times Cancelled ?ends c)))"
    by (simp add: drain_services_def stop_times_def started_services_def in_grace_def)
  then have "dr_aborted (drain_services (stop_times Cancelled ?ends c)) \<noteq> []" by auto
  moreover have "exit_code (Ok ()) = 0 \<and> tunnel_abs (sv_tunnel (s\<lparr>sv_tunnel := clear (sv_tunnel s)\<rparr>)) = None \<and>
      (dr_waited (drain_services (stop_times Cancelled ?ends c)) < from_secs 5 \<longleftrightarrow>
       dr_aborted (drain_services (stop_times Cancelled ?ends c)) = [])"
    using process_ends_cleanly [OF a, of example_codec example_figment "\<lambda>q. True" "[''config.toml'']"
      example_launch empty_manager ?ends] unfolding r by simp
  ultimately show ?thesis using n unfolding r by simp
qed

text \<open>The events the watcher sees before it ends.\<close>

fun events_until :: "watch_input list \<Rightarrow> (instant \<times> notify_event option) list" where
  "events_until (WatchEvent now evt # ins) = (now, evt) # events_until ins"
| "events_until ins = []"

text \<open>Property. The watcher task. It reloads for the events before the stop only, with the debounce of
  \<open>watch_run\<close>, ends exactly when it sees the stop or its notifier is gone, and never takes the process
  down: a notifier that cannot be set up only ends the task, before any reload.\<close>

theorem watcher_bounded_by_process:
  "case watcher_run create watch p ins of
     (reloads, result) \<Rightarrow>
       (create = Ok () \<and> watch = Ok () \<longrightarrow>
         reloads = watch_run p None (events_until ins) \<and>
         (result = None \<longleftrightarrow> list_all (\<lambda>i. \<exists>now evt. i = WatchEvent now evt) ins) \<and>
         (result \<noteq> None \<longrightarrow> result = Some (Ok ()))) \<and>
       (create \<noteq> Ok () \<or> watch \<noteq> Ok () \<longrightarrow> reloads = [] \<and> result \<noteq> None)"
proof -
  have "watch_loop p k ins =
      (watch_run p k (events_until ins), \<not> list_all (\<lambda>i. \<exists>now evt. i = WatchEvent now evt) ins)" for k
  proof (induction ins arbitrary: k)
    case (Cons i ins)
    then show ?case by (cases i) (auto simp: watch_run.simps(2) split: prod.split simp del: watch_run_Cons)
  qed simp
  then show ?thesis by (cases create; cases watch) (auto simp: watcher_run_def)
qed

theorem watcher_bounded_by_process_witness:
  "watcher_run (Ok ()) (Ok () :: (unit, string) result) [''config.toml'']
     [WatchEvent 0 (Some \<lparr>ne_kind = Modified, ne_paths = [[''config.toml'']]\<rparr>), WatchCancel,
      WatchEvent 9000000000 (Some \<lparr>ne_kind = Modified, ne_paths = [[''config.toml'']]\<rparr>)] = ([0], Some (Ok ()))"
  using watcher_bounded_by_process [of "Ok ()" "Ok () :: (unit, string) result" "[''config.toml'']"
    "[WatchEvent 0 (Some \<lparr>ne_kind = Modified, ne_paths = [[''config.toml'']]\<rparr>), WatchCancel,
      WatchEvent 9000000000 (Some \<lparr>ne_kind = Modified, ne_paths = [[''config.toml'']]\<rparr>)]"]
  by (simp add: reload_now_def reload_due_def is_write_def split: prod.splits)

end
