(* ===== verification/Spec2Isabelle.thy ===== *)
theory Spec2Isabelle
  imports Prelude Rust_Str Net_Types Float64 Egress Config Dns_Wire Dns_Cache Singleflight Resolver
    Socks_Udp Udp_Relay Dial Socks_Tcp Port_Alloc Admission Relay Health Endpoints Generations
    Persistence Account Supervisor Monitor Service Warp_Api Net_Stack Net_Io Wg_Tunnel Doh Wg_Conf Process
begin

text \<open>
  Verification development for \<open>cf-warp-rust\<close>, a SOCKS5 proxy that sends its clients' traffic through a
  Cloudflare WARP tunnel over a user-space network stack.

  The program. \<open>main.rs\<close> loads and validates the configuration, binds the port, loads or registers a
  WARP account, wins a WireGuard handshake, and starts three services: the supervisor, the SOCKS5 front
  end and the metrics server. The front end admits connections by two semaphores, reads a SOCKS5 request,
  resolves the target, runs a staggered dial race and relays bytes, or runs a UDP association. The health
  probe combines the age of the handshake, the reachability of its targets and the outcome of the clients'
  own dials into events, and the supervisor turns failures into recovery actions of increasing severity,
  each of which replaces the tunnel while old connections drain on the old one.

  Theories, in the order of their imports, with the sources they model.
    \<^item> \<open>Prelude\<close>, \<open>Rust_Str\<close>, \<open>Net_Types\<close>, \<open>Float64\<close>: machine integers, durations, results with panics,
      strings, addresses and the errors of \<open>error.rs\<close>, and the binary64 fragment the sources compute with.
    \<^item> \<open>Config\<close> (\<open>config.rs\<close>): every record and default, and \<open>validate\<close> rule by rule.
    \<^item> \<open>Egress\<close> (\<open>egress.rs\<close>) and \<open>Health\<close> (\<open>health.rs\<close>): counters and windows; probe, quorum and probe loop.
    \<^item> \<open>Dns_Wire\<close>, \<open>Dns_Cache\<close>, \<open>Singleflight\<close>, \<open>Resolver\<close> (\<open>dns.rs\<close>): wire format, cache, the protocol that
      merges concurrent queries, and the resolver over both. \<open>Std_Net\<close> is the address parser of the standard
      library that they and the API client use.
    \<^item> \<open>Socks_Udp\<close>, \<open>Udp_Relay\<close> (\<open>proxy/udp.rs\<close>): headers, and the association with its three tasks.
    \<^item> \<open>Dial\<close>, \<open>Socks_Tcp\<close>, \<open>Admission\<close>, \<open>Relay\<close> (\<open>proxy/tcp.rs\<close>): candidates and the dial race, the connection
      handler, the accept loop with the handler as its client, the relay.
    \<^item> \<open>Port_Alloc\<close>, \<open>Net_Stack\<close>, \<open>Net_Io\<close> (the vendored \<open>netstack.rs\<close>): the ephemeral port allocator; dials,
      connections and UDP sockets as tasks that own sockets, ports and a share of the gauge; the device
      queues, the poll and its loop, notifications, TCP streams and UDP datagrams with fragments.
    \<^item> \<open>Wg_Tunnel\<close> (the vendored \<open>wireguard.rs\<close> and \<open>tunnel.rs\<close>): the WireGuard transport, its loops
      interleaved on the shared session, and the managed tunnel with its background tasks.
    \<^item> \<open>Doh\<close>, \<open>Wg_Conf\<close> (the vendored \<open>dns.rs\<close> and \<open>config.rs\<close>): the DNS-over-HTTPS resolver and the parser
      of WireGuard files, which the library offers and this program does not call.
    \<^item> \<open>Endpoints\<close>, \<open>Generations\<close> (\<open>tunnel.rs\<close>): the handshake race; the hot-swappable tunnel with leases.
    \<^item> \<open>Persistence\<close>, \<open>Account\<close> (\<open>warp/persistence.rs\<close>, \<open>warp/account.rs\<close>, \<open>warp/identity_pool.rs\<close>), and
      \<open>Warp_Api\<close> (the vendored \<open>api.rs\<close> and \<open>types.rs\<close>): the registration client the manager calls.
    \<^item> \<open>Supervisor\<close> (\<open>supervisor.rs\<close>) and \<open>Monitor\<close> (its \<open>run\<close>: the probe loop, the refresh timer, the recorded
      dials, the event channel and the dispatch loop interleaved), \<open>Service\<close> (\<open>main.rs\<close> up to the running services and their end, and
      the decisions of \<open>config_watch.rs\<close>) and \<open>Process\<close> (\<open>Config::load\<close>, \<open>signals.rs\<close>, \<open>telemetry.rs\<close>, \<open>metrics.rs\<close>,
      the watcher task, and \<open>main.rs\<close> from start to exit code).
    \<^item> This theory: the properties that need several components.

  How the code appears. A struct is a record and an enum a datatype with the source's constructors; a
  sequential function is a function that returns \<open>res\<close>, whose constructors are \<open>Ok\<close>, \<open>Err\<close> and
  \<open>Panic\<close>, and threads the state it changes; concurrent code is a step relation whose steps are the
  sections between two awaits or two atomic operations, with the reachable states as an inductive set.
  Widths are kept: counters, ports, DNS fields and thresholds are words, \<open>usize\<close> arithmetic is on
  naturals with the saturation of the source, durations and instants are nanoseconds. Error texts are data:
  a constructor with the values the text is made of, except where the code reads the text back.
  What the outside returns (sockets, clocks, random numbers, the API, the file system's errors,
  completion orders) is an argument, so the theorems hold for every value of it.

  What the lemmas show. For each component: an invariant kept by every step and the safety properties
  that follow (admission, dial race, UDP relay, relay, singleflight, generations, ports, sockets of the
  network stack, packets on their way to the tunnel, handshake race);
  exact functional behaviour (validation, verdicts of the probe loop, recovery ladder, watcher);
  equality of floating-point tests with integer rules; parse and print round trips (DNS, DNS over HTTPS,
  SOCKS5 UDP headers, account file, address literals, WireGuard endpoints); atomicity and durability of the account file under
  crashes and power loss, with what the disk may still hold as part of the file system; refinement of the tunnel
  to a cell, of the connection handler to the accept loop, of the socket operations to their interleaved
  critical sections, of the concurrent supervisor to the sequential one; the pace of recoveries; the verdict of the dial race as a
  function of what happened (\<open>dial_trace\<close>) and its termination; bounds (backoff, drain grace, ports, fragment flush);
  the types of what the API client yields; the requests of a registration in order; the exit code. Here:
  the port pool suffices for the front end, on the allocator and on the network stack, as long as the limits
  leave room for the other holders of ports (health probes, dials being torn down), the tunnel in force
  runs the current configuration, tuning reaches every tunnel, a restart resumes a registered account (the
  identity in use, when no commit met an error of the file system), no client is served
  before a probe succeeded, and failing business dials reach the recovery, which succeeds exactly when the
  outside lets its rung of the ladder succeed.

  Interfaces. The locale \<open>expiring_cache\<close> of \<open>Dns_Cache\<close> is what the resolver needs of a cache, \<open>port_pool\<close> of
  \<open>Port_Alloc\<close> what sockets need of a port allocator, \<open>permit_pool\<close> of \<open>Admission\<close> what the accept loop needs of
  a semaphore (connections and dials are two instances), \<open>swap_cell\<close> of \<open>Generations\<close> what dials and the
  supervisor need of the tunnel, and \<open>registration_service\<close> of \<open>Account\<close> what the account manager needs of the
  API client; each is interpreted on the model's own operations.

  Bounds and fuel. Every function is total and none uses fuel. Event loops are functions on the list of
  events or looks they see, and \<open>None\<close> is a wait that has not ended yet; the theorems on such waits say
  which look ends them. The only loop with a bound of its own is the fragment flush, with the 32 rounds of the source,
  and \<open>fragments_flush_in_time\<close> shows that 15 are enough. The double comparisons are exact for operands
  below \<open>2 ^ 53\<close>, which the theorems that use them assume.

  Not modelled. Code outside the repository is a parameter: figment and serde (the layers of the
  configuration and their extraction), fast-socks5 (the SOCKS5 bytes over TCP), smoltcp (what a poll emits
  and what a socket answers), gotatun (the Noise protocol), the HTTP client, base64 and key generation of
  the registration client, axum and the Prometheus exporter. The JSON codec is a parameter whose only law
  is that decoding gives back what was encoded. TLS under the DNS-over-HTTPS resolver and the INI syntax of
  WireGuard files are inputs. Task spawning is not modelled as such:
  cancellation is a step that may happen at any await. The texts of log lines and of most errors are left out.
\<close>

section \<open>Ports\<close>

text \<open>What the limits allow the front end: the bound \<open>validate\<close> compares with the size of the port pool.\<close>

definition front_end_ports :: "limits_config \<Rightarrow> nat" where
  "front_end_ports l = lc_max_concurrent_connections l + lc_max_pending_dials l * (lc_max_parallel_dials l - 1)"

lemma accepted_front_end_ports:
  "first_err (range_checks c) = Ok () \<Longrightarrow> front_end_ports (cfg_limits c) \<le> EPHEMERAL_PORT_COUNT"
  using accepted_port_capacity [of c] by (simp add: front_end_ports_def EPHEMERAL_PORT_COUNT_def)

lemma sockets_capacity:
  assumes "first_err (range_checks c) = Ok ()" "serve_reach (cfg_limits c) s"
  shows "sockets s \<le> front_end_ports (cfg_limits c)"
proof -
  have inv: "serve_inv (cfg_limits c) s" using assms(2) by (rule serve_reach_inv)
  have p: "max 1 (lc_max_parallel_dials (cfg_limits c)) = lc_max_parallel_dials (cfg_limits c)"
    using accepted_ranges(18) [OF assms(1)] by simp
  have "sockets s \<le> length (sv_conns s) + dialing s * (lc_max_parallel_dials (cfg_limits c) - 1)"
    using sockets_le [OF inv] unfolding p .
  also have "\<dots> \<le> lc_max_concurrent_connections (cfg_limits c) +
      lc_max_pending_dials (cfg_limits c) * (lc_max_parallel_dials (cfg_limits c) - 1)"
    using inv by (intro add_mono mult_le_mono1) (auto simp: serve_inv_def)
  finally show ?thesis by (simp add: front_end_ports_def)
qed

lemma example_dialling:
  obtains s s' where "serve_reach (cfg_limits (default_config None)) s"
    "serve_step (cfg_limits (default_config None)) s s'" "sockets s < sockets s'"
proof -
  let ?l = "cfg_limits (default_config None)"
  define s where "s = on_dial_request 0 (on_accept 0 (serve_start ?l))"
  have p: "lc_max_concurrent_connections ?l = 2048" "lc_max_pending_dials ?l = 512" "lc_max_parallel_dials ?l = 2"
    by (simp_all add: default_config_def default_limits_def default_max_concurrent_connections_def)
  have "serve_reach ?l s" unfolding s_def
    by (intro serve_reach.step [OF _ serve_step.request] serve_reach.step [OF _ serve_step.accept]
        serve_reach.start)
      (simp_all add: on_accept_def serve_start_def p)
  moreover have "serve_step ?l s (on_race 0 2 s)"
    by (rule serve_step.race)
      (simp_all add: s_def on_dial_request_def on_accept_def serve_start_def p)
  moreover have "sockets s < sockets (on_race 0 2 s)"
    by (simp add: s_def sockets_def on_race_def on_dial_request_def on_accept_def serve_start_def p)
  ultimately show ?thesis by (rule that)
qed

lemma example_valid: "snd (validate witness_env (default_config None)) = Ok ()"
  using example_launch_checks launch_checks_Ok [of example_launch] by (simp add: example_launch_def)

text \<open>Property. Validation makes the port pool large enough for the front end: an accepted configuration
  allows it no more sockets than the pool has ports. In every reachable state of the accept loop, when a
  connection task opens one more upstream socket and the ports taken so far are those of the front end's
  sockets and at most \<open>extra\<close> of others (health probes, dials that are being torn down), the allocator has
  a fresh port to give, as long as the limits leave room for these others; with \<open>extra = 0\<close> they always
  do.\<close>

theorem admitted_dials_get_ports:
  assumes "snd (validate env c) = Ok ()"
    and "serve_reach (cfg_limits c) s" and "serve_step (cfg_limits c) s s'" and "sockets s < sockets s'"
    and "port_pool.pool_run allocate release (pa_new r) (a, ps)" and "length ps \<le> sockets s + extra"
    and "extra = 0 \<or> front_end_ports (cfg_limits c) + extra \<le> EPHEMERAL_PORT_COUNT"
  shows "\<exists>p a'. allocate a = (Some p, a') \<and> p \<notin> set ps"
proof -
  have ranges: "first_err (range_checks c) = Ok ()"
    using assms(1) by (simp add: validate_def validate_with_container_def validate_with_Ok)
  have "front_end_ports (cfg_limits c) + extra \<le> EPHEMERAL_PORT_COUNT"
    using accepted_front_end_ports [OF ranges] assms(7) by auto
  moreover have "sockets s' \<le> front_end_ports (cfg_limits c)"
    using ranges serve_reach.step [OF assms(2,3)] by (rule sockets_capacity)
  ultimately have "length ps < EPHEMERAL_PORT_COUNT" using assms(4,6) by simp
  then show ?thesis by (rule pa.pool_never_starves [OF assms(5) in_use_new(2,1)])
qed

theorem admitted_dials_get_ports_witness:
  "\<exists>p a'. allocate (pa_new 5) = (Some p, a')"
proof -
  obtain s s' where "serve_reach (cfg_limits (default_config None)) s"
    "serve_step (cfg_limits (default_config None)) s s'" "sockets s < sockets s'"
    by (rule example_dialling)
  from admitted_dials_get_ports [OF example_valid this pa.pool_run.start, where extra = 0] show ?thesis by simp
qed

text \<open>The tasks that hold a TCP port of the stack, and the sockets of the front end: the \<open>j\<close>-th socket
  of the \<open>i\<close>-th connection.\<close>

definition tcp_holders :: "(nat \<rightharpoonup> owner) \<Rightarrow> nat set" where
  "tcp_holders own = {t. claim tcp_port_of (own t) \<noteq> None}"

definition front_end_sockets :: "server \<Rightarrow> (nat \<times> nat) set" where
  "front_end_sockets s = (SIGMA i : {..<length (sv_conns s)}. {..<sockets_of (sv_conns s ! i)})"

lemma card_front_end_sockets: "finite (front_end_sockets s)" "card (front_end_sockets s) = sockets s"
  by (simp_all add: front_end_sockets_def sockets_def card_SigmaI sum_list_sum_nth atLeast0LessThan)

lemma card_tcp_ports:
  assumes "finite (dom own)"
  shows "card (owned tcp_port_of own) \<le> card (tcp_holders own)" "finite (tcp_holders own)"
proof -
  show fin: "finite (tcp_holders own)"
    using assms by (rule rev_finite_subset) (auto simp: tcp_holders_def claim_def split: option.splits)
  have "owned tcp_port_of own \<subseteq> (\<lambda>t. the (claim tcp_port_of (own t))) ` tcp_holders own"
    by (force simp: owned_def tcp_holders_def)
  then show "card (owned tcp_port_of own) \<le> card (tcp_holders own)"
    by (meson card_image_le card_mono fin finite_imageI le_trans)
qed

text \<open>C10. The same on the network stack itself, in every reachable state of the stack and its tasks, with
  whatever dials, failures and drops in progress. Every task of the front end (\<open>front\<close>) that holds a TCP
  port works for one of the sockets its connection counts, no two for the same one; at most \<open>extra\<close> other
  tasks hold TCP ports, such as health probes, which dial on the same stack, and aborted dials that are
  being torn down. If the configuration was accepted and its limits leave room for these others, the next
  dial the front end is allowed to make gets its socket and a port no task holds: it reaches the
  handshake, unless smoltcp itself refuses the address. Validation alone guarantees this only for
  \<open>extra = 0\<close>; the default limits leave room for 30208 others.\<close>

theorem admitted_dials_connect:
  assumes "snd (validate env c) = Ok ()"
    and "serve_reach (cfg_limits c) s" and "serve_step (cfg_limits c) s s'" and "sockets s < sockets s'"
    and "ns_reach (st, own)"
    and "inj_on socket (tcp_holders own \<inter> front)" "socket ` (tcp_holders own \<inter> front) \<subseteq> front_end_sockets s"
    and "card (tcp_holders own - front) \<le> extra"
    and "extra = 0 \<or> front_end_ports (cfg_limits c) + extra \<le> EPHEMERAL_PORT_COUNT"
    and "ns_socks st h = None" and "sa_is_ipv4 addr \<or> ns_has_ipv6 st"
  shows "\<exists>p st'. connect_start h addr None st = (Ok p, st') \<and> p \<notin> owned tcp_port_of own \<and>
    ns_socks st' h = Some Tcp \<and> in_use (ns_tcp_ports st') = insert p (owned tcp_port_of own)"
proof -
  note inv = ns_reach_inv [OF assms(5), unfolded ns_inv_def Let_def fst_conv snd_conv]
  have few: "card (owned tcp_port_of own) < EPHEMERAL_PORT_COUNT"
  proof -
    have ranges: "first_err (range_checks c) = Ok ()"
      using assms(1) by (simp add: validate_def validate_with_container_def validate_with_Ok)
    have fin: "finite (dom own)" using inv by simp
    have "card (tcp_holders own \<inter> front) \<le> sockets s"
      using card_inj_on_le [OF assms(6,7)] card_front_end_sockets by simp
    then have "card (tcp_holders own) \<le> sockets s + extra"
      using assms(8) card_Int_Diff [OF card_tcp_ports(2) [OF fin], of front] by simp
    moreover have "sockets s' \<le> front_end_ports (cfg_limits c)"
      using ranges serve_reach.step [OF assms(2,3)] by (rule sockets_capacity)
    moreover have "front_end_ports (cfg_limits c) + extra \<le> EPHEMERAL_PORT_COUNT"
      using accepted_front_end_ports [OF ranges] assms(9) by auto
    ultimately show ?thesis using card_tcp_ports(1) [OF fin] assms(4) by simp
  qed
  let ?s = "create_tcp_socket h st"
  have ports: "ns_tcp_ports ?s = ns_tcp_ports st" by (simp add: create_tcp_socket_def)
  have own: "owned tcp_port_of own = in_use (ns_tcp_ports st)" and wf: "pa_wf (ns_tcp_ports ?s)"
    using inv ports by auto
  show ?thesis
  proof (cases "allocate_tcp_port ?s")
    case (Pair r s1)
    show ?thesis
    proof (cases r)
      case (Ok p)
      obtain a where a: "s1 = ?s\<lparr>ns_tcp_ports := a\<rparr>" "p \<notin> in_use (ns_tcp_ports ?s)"
        "in_use a = insert p (in_use (ns_tcp_ports ?s))" "pa_wf a"
        using allocate_tcp_Ok [OF _ wf] Pair Ok by blast
      have "connect_start h addr None st = (result.Ok p, s1)"
        using assms(11) Pair Ok a(1)
        by (auto simp: connect_start_def connect_def create_tcp_socket_def add_socket_def gauge_add_def
            socket_signals_def get_socket_def)
      then show ?thesis using a by (simp add: own ports create_tcp_socket_def)
    next
      case (Err e)
      then have "card (in_use (ns_tcp_ports ?s)) = 32768" using allocate_tcp_Err [OF _ wf] Pair by blast
      then show ?thesis using few by (simp add: own ports EPHEMERAL_PORT_COUNT_def)
    next
      case Panic
      then show ?thesis using Pair by (auto simp: allocate_tcp_port_def split: prod.splits option.splits)
    qed
  qed
qed

theorem admitted_dials_connect_witness:
  "\<exists>p st'. connect_start 7 (SA4 (Ipv4Addr 1 1 1 1) 443) None fresh_stack = (Ok p, st') \<and> ns_socks st' 7 = Some Tcp"
proof -
  obtain s s' where s: "serve_reach (cfg_limits (default_config None)) s"
    "serve_step (cfg_limits (default_config None)) s s'" "sockets s < sockets s'"
    by (rule example_dialling)
  have room: "front_end_ports (cfg_limits (default_config None)) + 30208 \<le> EPHEMERAL_PORT_COUNT"
    by (simp add: front_end_ports_def default_config_def default_limits_def default_max_concurrent_connections_def
        EPHEMERAL_PORT_COUNT_def)
  have "\<exists>p st'. connect_start 7 (SA4 (Ipv4Addr 1 1 1 1) 443) None fresh_stack = (Ok p, st') \<and>
      p \<notin> owned tcp_port_of Map.empty \<and> ns_socks st' 7 = Some Tcp \<and>
      in_use (ns_tcp_ports st') = insert p (owned tcp_port_of Map.empty)"
    by (rule admitted_dials_connect [OF example_valid s fresh_reach(1), where socket = "\<lambda>t. (t, 0)"
          and front = UNIV and extra = 30208])
      (use room in \<open>simp_all add: fresh_reach(2) tcp_holders_def\<close>)
  then show ?thesis by blast
qed

section \<open>The running process\<close>

text \<open>After a start-up and any sequence of events.\<close>

definition running ::
  "json_codec \<Rightarrow> 'm launch_env \<Rightarrow> account_manager \<Rightarrow> ('m sup_env \<times> supervisor_event) list \<Rightarrow>
     config \<Rightarrow> 'm supervisor \<Rightarrow> bool" where
  "running js env m evs cfg s \<longleftrightarrow>
     (\<exists>s0 m'. launch js env m = (Ok (cfg, s0), m') \<and> s = supervisor_run js cfg evs s0)"

definition transport_ok :: "warp_config \<Rightarrow> 'm supervisor \<Rightarrow> bool" where
  "transport_ok cfg s \<longleftrightarrow> tuned_wg cfg (sv_wg_config s) \<and> tunnel_abs (sv_tunnel s) \<noteq> None"

lemma tuned_endpoint [simp]: "tuned_wg cfg (wg\<lparr>wg_peer_endpoint := a\<rparr>) = tuned_wg cfg wg"
  by (simp add: tuned_wg_def)

lemma decided_tuned:
  assumes "decided_by_race race" "race wg = Ok (managed, c)" "tuned_wg cfg wg"
  shows "tuned_wg cfg c"
  using assms(3) by (subst decided_config [OF assms(1,2)]) simp

lemma launch_transport:
  assumes "launch js env m = (Ok (cfg, s), m')" "decided_by_race (le_connect env)"
  shows "transport_ok (cfg_warp cfg) s"
  using assms(1)
  by (rule launch_Ok)
    (auto simp: transport_ok_def supervisor_new_def
      intro: decided_tuned [OF assms(2)] dest: load_or_register_tuned)

lemma event_transport:
  assumes "decided_by_race (se_connect env)" "transport_ok (cfg_warp cfg) s"
  shows "transport_ok (cfg_warp cfg) (snd (handle_event js cfg env evt s))"
proof -
  obtain r t where rt: "handle_event js cfg env evt s = (r, t)" by (cases "handle_event js cfg env evt s")
  then have "kept s t \<or> switched (cfg_warp cfg) env s t"
    using handle_event_cases [where js = js and cfg = cfg and env = env and evt = evt and s = s]
    by (cases r) auto
  then show ?thesis
    using assms(2) decided_tuned [OF assms(1)]
    by (auto simp: rt transport_ok_def kept_def switched_def)
qed

text \<open>Property. The transport settings reach every tunnel. Whatever re-registrations, configuration refreshes,
  identity rotations and reconnections follow a successful start, the configuration of the running
  tunnel carries the MTU and the TCP buffer size of the validated configuration, and there is always a
  tunnel until the shutdown, which leaves none. Every handshake race is one that the endpoint race of
  \<open>connect_candidate\<close> can really decide.\<close>

theorem transport_stays_tuned:
  assumes "running js env m evs cfg s" and "decided_by_race (le_connect env)"
    and "\<And>e evt. (e, evt) \<in> set evs \<Longrightarrow> decided_by_race (se_connect e)"
  shows "tuned_wg (cfg_warp cfg) (sv_wg_config s) \<and> tunnel_abs (sv_tunnel s) \<noteq> None \<and>
    tunnel_abs (sv_tunnel (snd (shutdown how s))) = None"
proof -
  obtain s0 m' where l: "launch js env m = (Ok (cfg, s0), m')" and s: "s = supervisor_run js cfg evs s0"
    using assms(1) by (auto simp: running_def)
  have "transport_ok (cfg_warp cfg) s" unfolding s
    using launch_transport [OF l assms(2)]
    by (rule supervisor_run_invariant) (use assms(3) in \<open>blast intro: event_transport\<close>)
  then show ?thesis by (simp add: transport_ok_def shutdown_def)
qed

definition example_event_env :: "nat sup_env" where
  "example_event_env = example_sup_env\<lparr>se_connect := first_wins 3\<rparr>"

lemma example_running:
  obtains cfg s where "running example_codec example_launch empty_manager evs cfg s" "cfg = default_config None"
proof -
  obtain cfg s m' where l: "launch example_codec example_launch empty_manager = (Ok (cfg, s), m')"
    by (rule example_launch_Ok)
  then have "launch_checks example_launch = Ok cfg" by (rule launch_Ok)
  with l that show ?thesis by (auto simp: running_def example_launch_checks)
qed

theorem transport_stays_tuned_witness:
  "\<exists>s. running example_codec example_launch empty_manager [(example_event_env, RefreshTick)] (default_config None) s \<and>
     wg_mtu (sv_wg_config s) = Some 1280"
proof -
  obtain cfg s where run: "running example_codec example_launch empty_manager [(example_event_env, RefreshTick)] cfg s"
    and cfg: "cfg = default_config None"
    by (rule example_running)
  have d: "decided_by_race (le_connect example_launch)"
    by (simp add: example_launch_def first_wins_decided)
  have e: "(e, evt) \<in> set [(example_event_env, RefreshTick)] \<Longrightarrow> decided_by_race (se_connect e)" for e evt
    by (simp add: example_event_env_def first_wins_decided)
  have "tuned_wg (cfg_warp cfg) (sv_wg_config s)"
    by (rule transport_stays_tuned [OF run d, THEN conjunct1]) (erule e)
  then have "wg_mtu (sv_wg_config s) = Some 1280"
    by (simp add: tuned_wg_def cfg default_config_def default_warp_def)
  with run cfg show ?thesis by blast
qed

lemma event_runs:
  assumes "decided_by_transport nz (se_connect env)" "tuned_wg (cfg_warp cfg) (sv_wg_config s)"
    and "\<exists>m. tunnel_abs (sv_tunnel s) = Some m \<and> runs_config m (sv_wg_config s)"
  shows "\<exists>m. tunnel_abs (sv_tunnel (snd (handle_event js cfg env evt s))) = Some m \<and>
    runs_config m (sv_wg_config (snd (handle_event js cfg env evt s)))"
proof -
  obtain r t where rt: "handle_event js cfg env evt s = (r, t)" by (cases "handle_event js cfg env evt s")
  then have "kept s t \<or> switched (cfg_warp cfg) env s t"
    using handle_event_cases [where js = js and cfg = cfg and env = env and evt = evt and s = s]
    by (cases r) auto
  then show ?thesis
    using assms(3) decided_runs [OF assms(1)] by (auto simp: rt kept_def switched_def)
qed

text \<open>C28. The tunnel in force. When the handshake races of the start-up and of every recovery are run over
  the WireGuard transport, then after any events there is a tunnel, and it runs the current
  configuration: it speaks to the endpoint that won its race, from a socket of that family, the network
  stack works with exactly the MTU and the buffer size of the validated configuration, and all five of
  its background loops are there; the shutdown closes it.\<close>

theorem tunnel_runs_configuration:
  assumes "running js env m evs cfg s" and "decided_by_transport nz (le_connect env)"
    and "\<And>e evt. (e, evt) \<in> set evs \<Longrightarrow> decided_by_transport nz (se_connect e)"
  shows "\<exists>t. tunnel_abs (sv_tunnel s) = Some t \<and>
    wt_peer_endpoint (mg_tunnel t) = wg_peer_endpoint (sv_wg_config s) \<and>
    (wt_bind (mg_tunnel t) = AnyV4 \<longleftrightarrow> sa_is_ipv4 (wg_peer_endpoint (sv_wg_config s))) \<and>
    wt_mtu (mg_tunnel t) = wc_mtu (cfg_warp cfg) \<and>
    wt_tcp_buffer_size (mg_tunnel t) = wc_tcp_buffer_size (cfg_warp cfg) \<and>
    set (mg_tasks t) = {ReceiveLoop, SendLoop, TimerLoop, PollLoop, RxLoop} \<and>
    tunnel_abs (sv_tunnel (snd (shutdown how s))) = None"
proof -
  obtain s0 m' where l: "launch js env m = (Ok (cfg, s0), m')" and s: "s = supervisor_run js cfg evs s0"
    using assms(1) by (auto simp: running_def)
  let ?runs = "\<lambda>s. transport_ok (cfg_warp cfg) s \<and>
    (\<exists>t. tunnel_abs (sv_tunnel s) = Some t \<and> runs_config t (sv_wg_config s))"
  from launch_Ok [OF l] obtain snap managed active pool where
    "launch_checks env = Ok cfg" "load_or_register js (cfg_warp cfg) (le_api env) m = (Ok snap, m')"
    and c: "le_connect env (as_wg_config snap) = Ok (managed, active)"
    and s0: "s0 = supervisor_new m' (from_managed (le_now env) managed) pool (as_credentials snap) active"
    by blast
  have "tunnel_abs (sv_tunnel s0) = Some managed \<and> runs_config managed (sv_wg_config s0)"
    using decided_runs [OF assms(2) c] by (simp add: s0 supervisor_new_def)
  with launch_transport [OF l transport_decides [OF assms(2)]] have "?runs s0" by blast
  moreover have "?runs (snd (handle_event js cfg e evt u))" if "(e, evt) \<in> set evs" "?runs u" for e evt u
    using event_transport [OF transport_decides [OF assms(3) [OF that(1)]]] that(2)
      event_runs [OF assms(3) [OF that(1)], of cfg u js evt]
    by (simp add: transport_ok_def)
  ultimately have "?runs s" unfolding s by (rule supervisor_run_invariant)
  then show ?thesis
    by (auto simp: transport_ok_def runs_config_def tuned_wg_def shutdown_def)
qed

definition example_transport_env :: "managed sup_env" where
  "example_transport_env = \<lparr>se_prepare = example_env, se_refresh = example_env, se_commit = example_env,
     se_connect = example_transport, se_elapsed = 0, se_runtime = True, se_completed = 50\<rparr>"

theorem tunnel_runs_configuration_witness:
  "\<exists>s t. running example_codec (launch_with example_transport) empty_manager
       [(example_transport_env, RefreshTick)] (default_config None) s \<and>
     tunnel_abs (sv_tunnel s) = Some t \<and> wt_mtu (mg_tunnel t) = 1280"
proof -
  let ?evs = "[(example_transport_env, RefreshTick)]"
  obtain s0 m' where
    "launch example_codec (launch_with example_transport) empty_manager = (Ok (default_config None, s0), m')"
    by (rule launch_with_Ok [OF example_transport_Ok])
  then obtain s where run: "running example_codec (launch_with example_transport) empty_manager ?evs (default_config None) s"
    by (auto simp: running_def)
  have d: "decided_by_transport example_noise (le_connect (launch_with example_transport))"
    by (simp add: example_transport_decided)
  have "\<exists>t. tunnel_abs (sv_tunnel s) = Some t \<and>
    wt_peer_endpoint (mg_tunnel t) = wg_peer_endpoint (sv_wg_config s) \<and>
    (wt_bind (mg_tunnel t) = AnyV4 \<longleftrightarrow> sa_is_ipv4 (wg_peer_endpoint (sv_wg_config s))) \<and>
    wt_mtu (mg_tunnel t) = wc_mtu (cfg_warp (default_config None)) \<and>
    wt_tcp_buffer_size (mg_tunnel t) = wc_tcp_buffer_size (cfg_warp (default_config None)) \<and>
    set (mg_tasks t) = {ReceiveLoop, SendLoop, TimerLoop, PollLoop, RxLoop} \<and>
    tunnel_abs (sv_tunnel (snd (shutdown Cancelled s))) = None"
    by (rule tunnel_runs_configuration [OF run d])
      (auto simp: example_transport_env_def example_transport_decided)
  then obtain t where "tunnel_abs (sv_tunnel s) = Some t" "wt_mtu (mg_tunnel t) = wc_mtu (cfg_warp (default_config None))"
    by blast
  with run show ?thesis by (auto simp: default_config_def default_warp_def)
qed

text \<open>C9. A restart resumes an account that was registered. After a successful start and any events,
  re-registrations, identity rotations and commits that fail at any call included, the next start of the
  process on the same disk does not register: it finds a complete account file, asks the API for the
  configuration of exactly its credentials, and leaves the disk alone. When no commit met an error of the
  file system, these are the credentials the process ended with. (Temporary names are fresh, the next
  start can read the disk, and the JSON codec reads back what it wrote.)\<close>

theorem restart_resumes_identity:
  assumes "\<And>f c. js_enc js f = Some c \<Longrightarrow> js_dec js c = Some f"
    and "running js env m evs cfg s"
    and "\<And>t. t \<in> insert (ev_tmp (le_api env)) ((\<lambda>e. ev_tmp (se_commit (fst e))) ` set evs) \<Longrightarrow>
      t \<noteq> account_path (cfg_warp cfg) \<and> fs_files (am_disk m) t = None"
    and "am_disk m2 = am_disk (sv_account s)" and "ev_load_fault env2 = None"
  shows "\<exists>f. load (js_dec js) None (account_path (cfg_warp cfg)) (am_disk m2) = Ok (Some f) \<and>
    fst (load_or_register js (cfg_warp cfg) env2 m2) =
      map_res (\<lambda>wg. \<lparr>as_wg_config = apply_transport_tuning (cfg_warp cfg) wg, as_credentials = af_credentials f\<rparr>)
        (from_warp (ev_get_config env2 (af_credentials f))) \<and>
    am_disk (snd (load_or_register js (cfg_warp cfg) env2 m2)) = am_disk m2 \<and>
    ((\<forall>(e, evt) \<in> set evs. ev_save_fault (se_commit e) = (\<lambda>i. None)) \<longrightarrow> af_credentials f = sv_creds s)"
proof -
  obtain s0 m' where l: "launch js env m = (Ok (cfg, s0), m')" and s: "s = supervisor_run js cfg evs s0"
    using assms(2) by (auto simp: running_def)
  define clean where "clean \<longleftrightarrow> (\<forall>(e, evt) \<in> set evs. ev_save_fault (se_commit e) = (\<lambda>i. None))"
  define T where "T = (\<lambda>e. ev_tmp (se_commit (fst e))) ` set evs"
  from l have "in_sync clean js (cfg_warp cfg) T s0"
  proof (rule launch_Ok)
    fix snap managed active pool
    assume r: "load_or_register js (cfg_warp cfg) (le_api env) m = (Ok snap, m')"
      and s0: "s0 = supervisor_new m' (from_managed (le_now env) managed) pool (as_credentials snap) active"
    have "(\<exists>f. load (js_dec js) None (account_path (cfg_warp cfg)) (am_disk m') = Ok (Some f) \<and>
        af_credentials f = as_credentials snap) \<and>
      (\<forall>t. t \<noteq> account_path (cfg_warp cfg) \<longrightarrow> fs_files (am_disk m') t = fs_files (am_disk m) t)"
      using assms(1) by (rule load_or_register_disk [OF _ _ _ r]) (use assms(3) in auto)
    then show ?thesis
      using assms(3) by (auto simp: in_sync_def disk_matches_def free_temps_def supervisor_new_def s0 T_def)
  qed
  then have "in_sync clean js (cfg_warp cfg) T s" unfolding s
  proof (rule supervisor_run_invariant)
    fix e evt and t :: "'a supervisor"
    assume "(e, evt) \<in> set evs" and "in_sync clean js (cfg_warp cfg) T t"
    then show "in_sync clean js (cfg_warp cfg) T (snd (handle_event js cfg e evt t))"
      using assms(1) by (intro handle_event_sync) (force simp: T_def clean_def)+
  qed
  then obtain f where f: "load (js_dec js) None (account_path (cfg_warp cfg)) (am_disk m2) = Ok (Some f)"
    "clean \<longrightarrow> af_credentials f = sv_creds s"
    by (auto simp: in_sync_def disk_matches_def assms(4))
  have "fst (load_or_register js (cfg_warp cfg) env2 m2) =
      map_res (\<lambda>wg. \<lparr>as_wg_config = apply_transport_tuning (cfg_warp cfg) wg, as_credentials = af_credentials f\<rparr>)
        (from_warp (ev_get_config env2 (af_credentials f))) \<and>
    am_disk (snd (load_or_register js (cfg_warp cfg) env2 m2)) = am_disk m2"
    using f(1) by (cases "ev_get_config env2 (af_credentials f)")
      (simp_all add: load_or_register_eq assms(5) fetch_config_def)
  with f show ?thesis unfolding clean_def by blast
qed

theorem restart_resumes_identity_witness:
  "\<exists>s. running example_codec example_launch empty_manager [(example_event_env, RefreshTick)] (default_config None) s \<and>
     map_res as_credentials (fst (load_or_register example_codec default_warp example_env (sv_account s))) =
       Ok (sv_creds s)"
proof -
  obtain cfg s where run: "running example_codec example_launch empty_manager [(example_event_env, RefreshTick)] cfg s"
    and cfg: "cfg = default_config None"
    by (rule example_running)
  have codec: "js_enc example_codec f = Some c \<Longrightarrow> js_dec example_codec c = Some f" for f c
    by (simp add: example_codec_def split: if_splits)
  have temps: "t \<in> insert (ev_tmp (le_api example_launch))
        ((\<lambda>e. ev_tmp (se_commit (fst e))) ` set [(example_event_env, RefreshTick)]) \<Longrightarrow>
      t \<noteq> account_path (cfg_warp cfg) \<and> fs_files (am_disk empty_manager) t = None" for t
    by (auto simp: example_launch_def example_event_env_def example_sup_env_def example_env_def
        account_path_def empty_manager_def)
  have lf: "ev_load_fault example_env = None" by (simp add: example_env_def)
  have "\<exists>f. load (js_dec example_codec) None (account_path (cfg_warp cfg)) (am_disk (sv_account s)) = Ok (Some f) \<and>
      fst (load_or_register example_codec (cfg_warp cfg) example_env (sv_account s)) =
      map_res (\<lambda>wg. \<lparr>as_wg_config = apply_transport_tuning (cfg_warp cfg) wg, as_credentials = af_credentials f\<rparr>)
        (from_warp (ev_get_config example_env (af_credentials f))) \<and>
    am_disk (snd (load_or_register example_codec (cfg_warp cfg) example_env (sv_account s))) = am_disk (sv_account s) \<and>
    ((\<forall>(e, evt) \<in> set [(example_event_env, RefreshTick)]. ev_save_fault (se_commit e) = (\<lambda>i. None)) \<longrightarrow>
      af_credentials f = sv_creds s)"
    by (rule restart_resumes_identity [OF _ run _ refl lf]) (erule codec | erule temps)+
  moreover have "\<forall>(e, evt) \<in> set [(example_event_env, RefreshTick)]. ev_save_fault (se_commit e) = (\<lambda>i. None)"
    by (simp add: example_event_env_def example_sup_env_def example_env_def)
  ultimately have "map_res as_credentials (fst (load_or_register example_codec default_warp example_env (sv_account s))) =
      Ok (sv_creds s)"
    by (auto simp: cfg default_config_def example_env_def)
  with run cfg show ?thesis by blast
qed

section \<open>Health gates the service\<close>

text \<open>C19. Nobody is served through a tunnel that has not been seen to work. From a start until the first
  successful probe, whatever else happens, \<open>/healthz\<close> answers 503 and the connection handler gives no
  client, authenticated or not, a resolution, a dial, a relay, a UDP association or a success reply.\<close>

theorem no_service_before_probe:
  assumes "running js env m evs cfg s" and "\<And>e t. (e, ProbeOk t) \<notin> set evs"
    and "ci_healthy io = sv_healthy s"
  shows "fst (healthz s) = 503 \<and> list_all (\<lambda>e. \<not> serves e) (fst (handle auth limits peer io))"
proof -
  obtain s0 m' where l: "launch js env m = (Ok (cfg, s0), m')" and s: "s = supervisor_run js cfg evs s0"
    using assms(1) by (auto simp: running_def)
  from l have "\<not> sv_healthy s"
    by (rule launch_Ok) (use healthy_needs_probe assms(2) s in blast)
  then show ?thesis
    using assms(3) handle_either [of auth limits peer io] command_part_unhealthy [of io]
    by (auto simp: healthz_def)
qed

theorem no_service_before_probe_witness:
  "\<exists>s. running example_codec example_launch empty_manager [(example_event_env, RefreshTick)] (default_config None) s \<and>
     list_all (\<lambda>e. \<not> serves e) (fst (handle None (default_limits None) (SA4 (Ipv4Addr 9 9 9 9) 1)
       (witness_io\<lparr>ci_healthy := sv_healthy s\<rparr>)))"
proof -
  obtain cfg s where run: "running example_codec example_launch empty_manager [(example_event_env, RefreshTick)] cfg s"
    and cfg: "cfg = default_config None"
    by (rule example_running)
  have "list_all (\<lambda>e. \<not> serves e) (fst (handle None (default_limits None) (SA4 (Ipv4Addr 9 9 9 9) 1)
       (witness_io\<lparr>ci_healthy := sv_healthy s\<rparr>)))"
    by (rule no_service_before_probe [OF run, THEN conjunct2]) simp_all
  with run cfg show ?thesis by blast
qed

text \<open>C18. Business failures reach the recovery. When two consecutive rounds of the probe loop see windows of at
  least 20 dials of which at least 80 percent failed, and the first is not itself reported as an egress
  failure, then, although the probes themselves pass, the second round's event makes a supervisor whose
  lowest threshold is reached climb the recovery ladder, unless a recovery completed after that round was
  observed: clients are no longer admitted, and it switches to a tunnel with a fresh handshake exactly
  when the outside lets the rung of the ladder succeed (\<open>rung_works\<close>; for a reconnect, when a handshake with
  the current configuration completes); otherwise it reports an error and keeps everything that carries
  traffic.\<close>

theorem egress_failures_trigger_recovery:
  assumes "Suc i < length rs" and "probes_pass k (rs ! Suc i)"
    and "\<And>r. r \<in> {rs ! i, rs ! Suc i} \<Longrightarrow>
      unat (es_ok (ri_egress r)) + unat (es_failed (ri_egress r)) < 2 ^ 53 \<and>
      20 \<le> unat (es_ok (ri_egress r)) + unat (es_failed (ri_egress r)) \<and>
      4 * (unat (es_ok (ri_egress r)) + unat (es_failed (ri_egress r))) \<le> 5 * unat (es_failed (ri_egress r))"
    and "\<not> is_egress_failure (fst (probe_loop k 0 rs) ! i)"
    and "\<not> probe_is_stale (ri_observed_at (rs ! Suc i)) s"
    and "rc_reconnect_after (cfg_recovery cfg) \<le> u8_saturating_inc (sv_failures s)"
  shows "case handle_event js cfg env (fst (probe_loop k 0 rs) ! Suc i) s of (r, s') \<Rightarrow>
    \<not> sv_healthy s' \<and>
    (if rung_works js (cfg_warp cfg) env (action_for (cfg_recovery cfg) (u8_saturating_inc (sv_failures s))) s
     then r = Ok () \<and> switched (cfg_warp cfg) env s s' else r \<noteq> Ok () \<and> kept s s')"
proof -
  have deg: "window_degraded r" if "r \<in> {rs ! i, rs ! Suc i}" for r
    using assms(3) [OF that] degraded_iff [of "\<lparr>ew_ok = es_ok (ri_egress r), ew_failed = es_failed (ri_egress r)\<rparr>"]
    by (auto simp: window_degraded_def take_window_def swap_ok_def swap_failed_def)
  let ?d = "rounds_before k rs (Suc i)"
  have nz: "?d \<noteq> 0"
    using rounds_before_nonzero [OF assms(1), of k] assms(4) deg by simp
  have ev: "fst (probe_loop k 0 rs) ! Suc i = round_event k ?d (rs ! Suc i)"
    using assms(1) by (simp add: probe_loop_nth rounds_before_def)
  have "is_egress_failure (round_event k ?d (rs ! Suc i))"
    unfolding round_event_egress using assms(2) nz deg by blast
  moreover have "is_egress_failure e \<Longrightarrow> \<exists>w t. e = ProbeFailed (EgressDegraded w) t" for e
    by (cases e rule: is_egress_failure.cases) auto
  ultimately obtain w t where wt: "round_event k ?d (rs ! Suc i) = ProbeFailed (EgressDegraded w) t" by blast
  then have t: "t = ri_observed_at (rs ! Suc i)"
    by (auto simp: round_event_def probe_round_def Let_def split: prod.splits option.splits result.splits if_splits)
  let ?n = "u8_saturating_inc (sv_failures s)"
  let ?s = "s\<lparr>sv_healthy := False, sv_failures := ?n\<rparr>"
  let ?a = "action_for (cfg_recovery cfg) ?n"
  have act: "?a \<noteq> NoAction" using assms(6) by (simp add: action_for_def)
  have h: "handle_event js cfg env (fst (probe_loop k 0 rs) ! Suc i) s = escalate js cfg env ?a ?s"
    using assms(5) by (simp add: ev wt t handle_event_def Let_def)
  obtain r u where ru: "escalate js cfg env ?a ?s = (r, u)" by (cases "escalate js cfg env ?a ?s")
  have health: "sv_healthy u = False" using ru escalate_keeps_health [of js cfg env ?a ?s] by simp
  have "rung_works js (cfg_warp cfg) env ?a ?s = rung_works js (cfg_warp cfg) env ?a s"
    by (rule rung_works_cong) simp_all
  then have "r = Ok () \<longleftrightarrow> rung_works js (cfg_warp cfg) env ?a s"
    using escalate_Ok [of js cfg env ?a ?s] by (simp add: ru)
  then show ?thesis
    using escalate_cases [where js = js and cfg = cfg and env = env and s = ?s and action = ?a] act health
    unfolding h ru by (cases r) (auto simp: kept_def switched_def)
qed

theorem egress_failures_trigger_recovery_witness:
  "\<exists>s'. handle_event example_codec (default_config None) example_sup_env
      (fst (probe_loop 0 0 [bad_round, bad_round]) ! 1) example_supervisor = (Ok (), s') \<and>
    switched default_warp example_sup_env example_supervisor s'"
proof -
  have one: "u8_saturating_inc (sv_failures example_supervisor) = 1"
    by (simp add: example_supervisor_def supervisor_new_def u8_saturating_inc_def)
  have cfg: "rc_reconnect_after (cfg_recovery (default_config None)) = 1"
    "action_for (cfg_recovery (default_config None)) 1 = Reconnect"
    by (simp_all add: default_config_def default_recovery_def action_for_def word_le_nat_alt)
  have first: "\<not> is_egress_failure (fst (probe_loop 0 0 [bad_round, bad_round]) ! 0)"
    by (simp add: round_event_egress)
  have fresh: "\<not> probe_is_stale t example_supervisor" for t
    by (simp add: probe_is_stale_def example_supervisor_def supervisor_new_def)
  have counts: "unat (es_ok (ri_egress bad_round)) = 0" "unat (es_failed (ri_egress bad_round)) = 20"
    by (simp_all add: bad_round_def)
  let ?e = "fst (probe_loop 0 0 [bad_round, bad_round]) ! 1"
  obtain r s' where rs: "handle_event example_codec (default_config None) example_sup_env ?e example_supervisor = (r, s')"
    by (cases "handle_event example_codec (default_config None) example_sup_env ?e example_supervisor")
  have "case handle_event example_codec (default_config None) example_sup_env
      (fst (probe_loop 0 0 [bad_round, bad_round]) ! Suc 0) example_supervisor of (r, s') \<Rightarrow>
    \<not> sv_healthy s' \<and>
    (if rung_works example_codec (cfg_warp (default_config None)) example_sup_env
          (action_for (cfg_recovery (default_config None)) (u8_saturating_inc (sv_failures example_supervisor)))
          example_supervisor
     then r = Ok () \<and> switched (cfg_warp (default_config None)) example_sup_env example_supervisor s'
     else r \<noteq> Ok () \<and> kept example_supervisor s')"
    by (rule egress_failures_trigger_recovery)
      (use first fresh counts in \<open>simp_all add: bad_round_signals one cfg\<close>)
  moreover have "rung_works example_codec (cfg_warp (default_config None)) example_sup_env Reconnect example_supervisor"
    by (simp add: rung_works_def handshake_works_def example_sup_env_def)
  ultimately have "r = Ok () \<and> switched (cfg_warp (default_config None)) example_sup_env example_supervisor s'"
    using rs unfolding one cfg by simp
  then show ?thesis using rs by (simp add: default_config_def)
qed

end
